(* ===== verification/Prelude.thy ===== *)
theory Prelude
  imports Main
begin

text \<open>
  Shared vocabulary of the development.  Two small monads carry every component:
  \<^item> the \<^emph>\<open>result\<close> monad \<open>'e + 'a\<close> (\<open>Inl\<close> is a raised exception) for the pure functions of
    \<open>_protocol.py\<close> and \<open>sharding.py\<close>, and
  \<^item> the \<^emph>\<open>program\<close> monad \<open>('e, 's, 'a) prog\<close>, a state transformer that may raise but always hands
    the state back, for the methods that mutate an object, a socket or a thread: as in Python, an
    effect that happened before an exception stays.
  A weakest-precondition calculus for programs (the \<open>wp\<close> rules) makes the component proofs
  symbolic evaluation.  The theory also holds the generic list lemmas the components share.
\<close>

named_theorems wp_simps \<open>weakest preconditions of the program combinators\<close>
named_theorems res_simps \<open>inversion of the result combinators\<close>

section \<open>Results: a value or a raised exception\<close>

definition bindE :: "'e + 'a \<Rightarrow> ('a \<Rightarrow> 'e + 'b) \<Rightarrow> 'e + 'b" where
  "bindE m f = (case m of Inl e \<Rightarrow> Inl e | Inr a \<Rightarrow> f a)"

abbreviation seqE :: "'e + unit \<Rightarrow> 'e + 'b \<Rightarrow> 'e + 'b" where
  "seqE m n \<equiv> bindE m (\<lambda>_. n)"

definition raise_if :: "bool \<Rightarrow> 'e \<Rightarrow> 'e + unit" where
  "raise_if b e = (if b then Inl e else Inr ())"

fun forE :: "('a \<Rightarrow> 'e + unit) \<Rightarrow> 'a list \<Rightarrow> 'e + unit" where
  "forE f [] = Inr ()"
| "forE f (x # xs) = seqE (f x) (forE f xs)"

definition okE :: "'e + 'a \<Rightarrow> bool" where
  "okE m = (case m of Inl _ \<Rightarrow> False | Inr _ \<Rightarrow> True)"

lemma bindE_Inl [simp]: "bindE (Inl e) f = Inl e"
  by (simp add: bindE_def)

lemma bindE_Inr [simp]: "bindE (Inr a) f = f a"
  by (simp add: bindE_def)

lemma bindE_eq_Inr [res_simps]: "bindE m f = Inr b \<longleftrightarrow> (\<exists>a. m = Inr a \<and> f a = Inr b)"
  by (cases m) auto

lemma bindE_eq_Inl [res_simps]:
  "bindE m f = Inl e \<longleftrightarrow> m = Inl e \<or> (\<exists>a. m = Inr a \<and> f a = Inl e)"
  by (cases m) auto

lemma bindE_assoc: "bindE (bindE m f) g = bindE m (\<lambda>a. bindE (f a) g)"
  by (cases m) auto

lemma raise_if_True [simp]: "raise_if True e = Inl e"
  by (simp add: raise_if_def)

lemma raise_if_False [simp]: "raise_if False e = Inr ()"
  by (simp add: raise_if_def)

lemma raise_if_eq_Inr [res_simps]: "raise_if b e = Inr u \<longleftrightarrow> \<not> b"
  by (simp add: raise_if_def)

lemma raise_if_eq_Inl [res_simps]: "raise_if b e = Inl e' \<longleftrightarrow> b \<and> e' = e"
  by (auto simp: raise_if_def)

lemma forE_eq_Inr [res_simps]: "forE f xs = Inr u \<longleftrightarrow> (\<forall>x \<in> set xs. f x = Inr ())"
  by (induction xs) (auto simp: res_simps)

lemma forE_eq_Inl: "forE f xs = Inl e \<Longrightarrow> \<exists>x \<in> set xs. f x = Inl e"
  by (induction xs) (auto simp: res_simps)

lemma okE_simps [simp]: "okE (Inl e) = False" "okE (Inr a) = True"
  by (simp_all add: okE_def)

lemma okE_bindE: "okE (bindE m f) \<longleftrightarrow> (\<exists>a. m = Inr a \<and> okE (f a))"
  by (cases m) auto

section \<open>Programs: state transformers that may raise\<close>

type_synonym ('e, 's, 'a) prog = "'s \<Rightarrow> ('e + 'a) \<times> 's"

definition retP :: "'a \<Rightarrow> ('e, 's, 'a) prog" where
  "retP a s = (Inr a, s)"

definition raiseP :: "'e \<Rightarrow> ('e, 's, 'a) prog" where
  "raiseP e s = (Inl e, s)"

definition liftE :: "'e + 'a \<Rightarrow> ('e, 's, 'a) prog" where
  "liftE m s = (m, s)"

definition getP :: "('s \<Rightarrow> 'a) \<Rightarrow> ('e, 's, 'a) prog" where
  "getP f s = (Inr (f s), s)"

definition modP :: "('s \<Rightarrow> 's) \<Rightarrow> ('e, 's, unit) prog" where
  "modP f s = (Inr (), f s)"

definition bindP :: "('e, 's, 'a) prog \<Rightarrow> ('a \<Rightarrow> ('e, 's, 'b) prog) \<Rightarrow> ('e, 's, 'b) prog" where
  "bindP m f s = (case m s of (Inl e, s') \<Rightarrow> (Inl e, s') | (Inr a, s') \<Rightarrow> f a s')"

abbreviation seqP :: "('e, 's, unit) prog \<Rightarrow> ('e, 's, 'b) prog \<Rightarrow> ('e, 's, 'b) prog" where
  "seqP m n \<equiv> bindP m (\<lambda>_. n)"

definition whenP :: "bool \<Rightarrow> ('e, 's, unit) prog \<Rightarrow> ('e, 's, unit) prog" where
  "whenP b m = (if b then m else retP ())"

text \<open>
  \<open>tryP m h k\<close> is \<^verbatim>\<open>try: m  except ... : h  else: k\<close>: the handler gets every exception (it
  re-raises those its \<open>except\<close> clauses do not name), and what follows the statement runs outside it.
\<close>

definition tryP ::
  "('e, 's, 'a) prog \<Rightarrow> ('e \<Rightarrow> ('e, 's, 'b) prog) \<Rightarrow> ('a \<Rightarrow> ('e, 's, 'b) prog) \<Rightarrow> ('e, 's, 'b) prog"
where
  "tryP m h k s = (case m s of (Inl e, s') \<Rightarrow> h e s' | (Inr a, s') \<Rightarrow> k a s')"

text \<open>\<^verbatim>\<open>try: m  except BaseException: cleanup; raise\<close>, the release idiom of the client.\<close>

abbreviation on_errorP :: "('e, 's, 'a) prog \<Rightarrow> ('e, 's, unit) prog \<Rightarrow> ('e, 's, 'a) prog" where
  "on_errorP m c \<equiv> tryP m (\<lambda>e. seqP c (raiseP e)) retP"

lemma retP_run [simp]: "retP a s = (Inr a, s)"
  by (simp add: retP_def)

lemma raiseP_run [simp]: "raiseP e s = (Inl e, s)"
  by (simp add: raiseP_def)

lemma liftE_run [simp]: "liftE m s = (m, s)"
  by (simp add: liftE_def)

lemma getP_run [simp]: "getP f s = (Inr (f s), s)"
  by (simp add: getP_def)

lemma modP_run [simp]: "modP f s = (Inr (), f s)"
  by (simp add: modP_def)

lemma bindP_liftE: "bindP (liftE m) f s = (case m of Inl e \<Rightarrow> (Inl e, s) | Inr a \<Rightarrow> f a s)"
  by (cases m) (simp_all add: bindP_def)

lemmas prog_runs = bindP_def tryP_def whenP_def

section \<open>Weakest preconditions\<close>

definition wp ::
  "('e, 's, 'a) prog \<Rightarrow> ('a \<Rightarrow> 's \<Rightarrow> bool) \<Rightarrow> ('e \<Rightarrow> 's \<Rightarrow> bool) \<Rightarrow> 's \<Rightarrow> bool"
where
  "wp m Q E s = (case m s of (Inl e, s') \<Rightarrow> E e s' | (Inr a, s') \<Rightarrow> Q a s')"

lemma wp_retP [wp_simps]: "wp (retP a) Q E s = Q a s"
  by (simp add: wp_def)

lemma wp_raiseP [wp_simps]: "wp (raiseP e) Q E s = E e s"
  by (simp add: wp_def)

lemma wp_liftE [wp_simps]: "wp (liftE m) Q E s = (case m of Inl e \<Rightarrow> E e s | Inr a \<Rightarrow> Q a s)"
  by (simp add: wp_def)

lemma wp_getP [wp_simps]: "wp (getP f) Q E s = Q (f s) s"
  by (simp add: wp_def)

lemma wp_modP [wp_simps]: "wp (modP f) Q E s = Q () (f s)"
  by (simp add: wp_def)

lemma wp_bindP [wp_simps]: "wp (bindP m f) Q E s = wp m (\<lambda>a. wp (f a) Q E) E s"
  by (simp add: wp_def bindP_def split: prod.splits sum.splits)

lemma wp_tryP [wp_simps]: "wp (tryP m h k) Q E s = wp m (\<lambda>a. wp (k a) Q E) (\<lambda>e. wp (h e) Q E) s"
  by (simp add: wp_def tryP_def split: prod.splits sum.splits)

lemma wp_if [wp_simps]: "wp (if b then m else n) Q E s = (if b then wp m Q E s else wp n Q E s)"
  by simp

lemma wp_whenP [wp_simps]: "wp (whenP b m) Q E s = (if b then wp m Q E s else Q () s)"
  by (simp add: whenP_def wp_retP)

lemma wp_case_option [wp_simps]:
  "wp (case x of None \<Rightarrow> m | Some a \<Rightarrow> f a) Q E s =
    (case x of None \<Rightarrow> wp m Q E s | Some a \<Rightarrow> wp (f a) Q E s)"
  by (cases x) simp_all

lemma wp_case_prod [wp_simps]:
  "wp (case p of (a, b) \<Rightarrow> f a b) Q E s = (case p of (a, b) \<Rightarrow> wp (f a b) Q E s)"
  by (cases p) simp

lemma wp_mono:
  assumes "wp m Q E s"
    and "\<And>a t. Q a t \<Longrightarrow> Q' a t"
    and "\<And>e t. E e t \<Longrightarrow> E' e t"
  shows "wp m Q' E' s"
  using assms by (auto simp: wp_def split: prod.splits sum.splits)

lemma wp_conj:
  "wp m Q E s \<Longrightarrow> wp m Q' E' s \<Longrightarrow> wp m (\<lambda>a t. Q a t \<and> Q' a t) (\<lambda>e t. E e t \<and> E' e t) s"
  by (auto simp: wp_def split: prod.splits sum.splits)

lemma wp_Inr: "wp m Q E s \<Longrightarrow> m s = (Inr a, t) \<Longrightarrow> Q a t"
  by (simp add: wp_def)

lemma wp_Inl: "wp m Q E s \<Longrightarrow> m s = (Inl e, t) \<Longrightarrow> E e t"
  by (simp add: wp_def)

lemma wp_run: "wp m Q E s \<Longrightarrow> m s = (x, t) \<Longrightarrow> (case x of Inl e \<Rightarrow> E e t | Inr a \<Rightarrow> Q a t)"
  by (simp add: wp_def)

lemma wp_snd: "wp m (\<lambda>_. P) (\<lambda>_. P) s \<Longrightarrow> P (snd (m s))"
  by (cases "m s") (auto simp: wp_def split: sum.splits)

lemma wp_bindP_fun: "wp (bindP m f) Q E = wp m (\<lambda>a. wp (f a) Q E) E"
  by (simp add: fun_eq_iff wp_bindP)

lemma wp_retP_fun: "wp (retP a) Q E = Q a"
  by (simp add: fun_eq_iff wp_retP)

lemma wp_modP_fun: "wp (modP f) Q E = (\<lambda>s. Q () (f s))"
  by (simp add: fun_eq_iff wp_modP)

lemma wp_raiseP_fun: "wp (raiseP e) Q E = E e"
  by (simp add: fun_eq_iff wp_raiseP)

lemma wp_runI: "(\<And>a t. m s = (Inr a, t) \<Longrightarrow> Q a t) \<Longrightarrow> (\<And>e t. m s = (Inl e, t) \<Longrightarrow> E e t) \<Longrightarrow> wp m Q E s"
  by (auto simp: wp_def split: prod.splits sum.splits)

lemma bindP_eq_Inr:
  "bindP m f s = (Inr b, t) \<longleftrightarrow> (\<exists>a s'. m s = (Inr a, s') \<and> f a s' = (Inr b, t))"
  by (auto simp: bindP_def split: prod.splits sum.splits)

lemma bindP_eq_Inl:
  "bindP m f s = (Inl e, t) \<longleftrightarrow>
    m s = (Inl e, t) \<or> (\<exists>a s'. m s = (Inr a, s') \<and> f a s' = (Inl e, t))"
  by (auto simp: bindP_def split: prod.splits sum.splits)

section \<open>Lists\<close>

lemma list_update_same_nth: "i < length xs \<Longrightarrow> (xs[i := x]) ! j = (if i = j then x else xs ! j)"
  by simp

lemma nth_append_singleton:
  "i < length (xs @ [x]) \<Longrightarrow> (xs @ [x]) ! i = (if i = length xs then x else xs ! i)"
  by (auto simp: nth_append)

lemma takeWhile_dropWhile_last:
  "dropWhile P xs = [] \<Longrightarrow> takeWhile P xs = xs"
  by (metis append_Nil2 takeWhile_dropWhile_id)

end
