(* ===== verification/Py_Errors.thy ===== *)
theory Py_Errors
  imports Prelude
begin

text \<open>
  The exceptions the client raises and catches: the sentinel classes of \<open>errors.py\<close> and the built-in
  classes they and the transport use, with Python's subclass relation as a decidable order
  (\<open>c \<le> d\<close> is \<^verbatim>\<open>issubclass(c, d)\<close>).  Text is a list of Unicode code points; a message is an f-string
  kept in parts, so that \<open>repr\<close> is not computed.
\<close>

section \<open>Text and messages\<close>

type_synonym pystr = "nat list"

definition lit :: "string \<Rightarrow> pystr" where
  "lit s = map of_char s"

lemma lit_Nil [simp]: "lit [] = []"
  by (simp add: lit_def)

lemma lit_Cons [simp]: "lit (c # s) = of_char c # lit s"
  by (simp add: lit_def)

lemma length_lit [simp]: "length (lit s) = length s"
  by (simp add: lit_def)

lemma lit_append: "lit (a @ b) = lit a @ lit b"
  by (simp add: lit_def)

text \<open>A text in single quotes, as the messages print it.\<close>

definition quoted :: "string \<Rightarrow> string" where
  "quoted s = CHR 0x27 # s @ [CHR 0x27]"

datatype fpart = Txt pystr | Repr pystr | Num int

section \<open>Exception classes\<close>

datatype exn_class =
    BaseException | KeyboardInterrupt | CancelledError | BuiltinException
  | ArithmeticError | OverflowError | LookupError | IndexError | BuiltinTypeError
  | ValueError | UnicodeEncodeError | UnicodeDecodeError | JSONDecodeError
  | RuntimeError | RecursionError
  | OSError | BuiltinTimeoutError | PermissionError | ConnectionError | BrokenPipeError
  | ConnectionResetError
  | DflockdError | DflockdTimeoutError
  | AuthError | MaxLocksError | MaxWaitersError | LimitMismatchError
  | NotQueuedError | AlreadyQueuedError | LeaseExpiredError | DrainingError

fun base_class :: "exn_class \<Rightarrow> exn_class option" where
  "base_class BaseException = None"
| "base_class KeyboardInterrupt = Some BaseException"
| "base_class CancelledError = Some BaseException"
| "base_class BuiltinException = Some BaseException"
| "base_class ArithmeticError = Some BuiltinException"
| "base_class OverflowError = Some ArithmeticError"
| "base_class LookupError = Some BuiltinException"
| "base_class IndexError = Some LookupError"
| "base_class BuiltinTypeError = Some BuiltinException"
| "base_class ValueError = Some BuiltinException"
| "base_class UnicodeEncodeError = Some ValueError"
| "base_class UnicodeDecodeError = Some ValueError"
| "base_class JSONDecodeError = Some ValueError"
| "base_class RuntimeError = Some BuiltinException"
| "base_class RecursionError = Some RuntimeError"
| "base_class OSError = Some BuiltinException"
| "base_class BuiltinTimeoutError = Some OSError"
| "base_class PermissionError = Some OSError"
| "base_class ConnectionError = Some OSError"
| "base_class BrokenPipeError = Some ConnectionError"
| "base_class ConnectionResetError = Some ConnectionError"
| "base_class DflockdError = Some RuntimeError"
| "base_class DflockdTimeoutError = Some BuiltinTimeoutError"
| "base_class AuthError = Some DflockdError"
| "base_class MaxLocksError = Some DflockdError"
| "base_class MaxWaitersError = Some DflockdError"
| "base_class LimitMismatchError = Some DflockdError"
| "base_class NotQueuedError = Some DflockdError"
| "base_class AlreadyQueuedError = Some DflockdError"
| "base_class LeaseExpiredError = Some DflockdError"
| "base_class DrainingError = Some DflockdError"

fun class_depth :: "exn_class \<Rightarrow> nat" where
  "class_depth BaseException = 0"
| "class_depth KeyboardInterrupt = 1"
| "class_depth CancelledError = 1"
| "class_depth BuiltinException = 1"
| "class_depth ArithmeticError = 2"
| "class_depth OverflowError = 3"
| "class_depth LookupError = 2"
| "class_depth IndexError = 3"
| "class_depth BuiltinTypeError = 2"
| "class_depth ValueError = 2"
| "class_depth UnicodeEncodeError = 3"
| "class_depth UnicodeDecodeError = 3"
| "class_depth JSONDecodeError = 3"
| "class_depth RuntimeError = 2"
| "class_depth RecursionError = 3"
| "class_depth OSError = 2"
| "class_depth BuiltinTimeoutError = 3"
| "class_depth PermissionError = 3"
| "class_depth ConnectionError = 3"
| "class_depth BrokenPipeError = 4"
| "class_depth ConnectionResetError = 4"
| "class_depth DflockdError = 3"
| "class_depth DflockdTimeoutError = 4"
| "class_depth _ = 4"

lemma base_class_depth: "base_class c = Some d \<Longrightarrow> class_depth d < class_depth c"
  by (cases c) auto

function ancestors :: "exn_class \<Rightarrow> exn_class list" where
  "ancestors c = c # (case base_class c of None \<Rightarrow> [] | Some d \<Rightarrow> ancestors d)"
  by pat_completeness auto
termination
  by (relation "measure class_depth") (auto dest: base_class_depth)

declare ancestors.simps [simp del]

lemma set_ancestors:
  "d \<in> set (ancestors c) \<longleftrightarrow> d = c \<or> (\<exists>b. base_class c = Some b \<and> d \<in> set (ancestors b))"
  by (subst ancestors.simps) (auto split: option.splits)

lemma ancestors_depth: "d \<in> set (ancestors c) \<Longrightarrow> d = c \<or> class_depth d < class_depth c"
proof (induction c rule: ancestors.induct)
  case (1 c)
  show ?case
  proof (cases "d = c")
    case False
    with "1.prems" obtain b where b: "base_class c = Some b" "d \<in> set (ancestors b)"
      by (auto simp: set_ancestors [of d c])
    then have "d = b \<or> class_depth d < class_depth b" by (rule "1.IH")
    with base_class_depth [OF b(1)] show ?thesis by auto
  qed simp
qed

lemma ancestors_trans: "d \<in> set (ancestors c) \<Longrightarrow> e \<in> set (ancestors d) \<Longrightarrow> e \<in> set (ancestors c)"
proof (induction c rule: ancestors.induct)
  case (1 c)
  then show ?case
    by (auto simp: set_ancestors [of d c] set_ancestors [of e c])
qed

lemma ancestors_antisym: "d \<in> set (ancestors c) \<Longrightarrow> c \<in> set (ancestors d) \<Longrightarrow> c = d"
  using ancestors_depth [of d c] ancestors_depth [of c d] by auto

text \<open>The subclass relation is the library's order, so its automation applies to it.\<close>

instantiation exn_class :: order
begin

definition less_eq_exn_class :: "exn_class \<Rightarrow> exn_class \<Rightarrow> bool" where
  "less_eq_exn_class c d = List.member (ancestors c) d"

definition less_exn_class :: "exn_class \<Rightarrow> exn_class \<Rightarrow> bool" where
  "less_exn_class c d = (c \<le> d \<and> c \<noteq> (d :: exn_class))"

instance
proof
  fix c d e :: exn_class
  show "c \<le> c"
    by (simp add: less_eq_exn_class_def set_ancestors [of c c])
  show "c \<le> d \<Longrightarrow> d \<le> e \<Longrightarrow> c \<le> e"
    unfolding less_eq_exn_class_def List.member_iff by (rule ancestors_trans)
  show "c \<le> d \<Longrightarrow> d \<le> c \<Longrightarrow> c = d"
    unfolding less_eq_exn_class_def List.member_iff by (rule ancestors_antisym)
  show "c < d \<longleftrightarrow> c \<le> d \<and> \<not> d \<le> c"
    unfolding less_exn_class_def less_eq_exn_class_def List.member_iff
    using ancestors_antisym [of d c] by blast
qed

end

text \<open>Every subclass question on two named classes is decided by \<open>simp add: subclass_simps\<close>.\<close>

lemmas subclass_simps = less_eq_exn_class_def ancestors.simps

section \<open>Raised exceptions\<close>

datatype exn = Exn (exn_class: exn_class) (exn_msg: "fpart list")

definition isinstance :: "exn \<Rightarrow> exn_class \<Rightarrow> bool" where
  "isinstance e c = (exn_class e \<le> c)"

lemma isinstance_Exn [simp]: "isinstance (Exn c m) d = (c \<le> d)"
  by (simp add: isinstance_def)

lemma isinstance_BaseException [simp]: "isinstance e BaseException"
  by (cases e; cases "exn_class e") (auto simp: isinstance_def subclass_simps)

type_synonym 'a res = "exn + 'a"

abbreviation raiseE :: "exn_class \<Rightarrow> fpart list \<Rightarrow> 'a res" where
  "raiseE c m \<equiv> Inl (Exn c m)"

end
