(* ===== verification/Py_Text.thy ===== *)
theory Py_Text
  imports Py_Errors "HOL-Library.Word"
begin

text \<open>
  The text operations of Python's \<open>str\<close> and \<open>bytes\<close> that the client relies on, as executable
  functions on code points and bytes: strict UTF-8 (\<open>str.encode\<close>, \<open>bytes.decode\<close>), \<open>str.rstrip\<close>,
  \<open>str.split\<close> without arguments, \<open>str.startswith\<close>, \<open>int(s)\<close> and \<open>str(n)\<close>.  The lemmas are the round
  trips (UTF-8 both ways, decimal numerals) and what \<open>split\<close> guarantees of its fields.
\<close>

type_synonym byte = "8 word"

section \<open>UTF-8\<close>

definition is_surrogate :: "nat \<Rightarrow> bool" where
  "is_surrogate c \<longleftrightarrow> 0xD800 \<le> c \<and> c \<le> 0xDFFF"

definition is_scalar :: "nat \<Rightarrow> bool" where
  "is_scalar c \<longleftrightarrow> c \<le> 0x10FFFF \<and> \<not> is_surrogate c"

definition byte_of :: "nat \<Rightarrow> byte" where
  "byte_of n = of_nat n"

definition utf8_char :: "nat \<Rightarrow> byte list" where
  "utf8_char c =
    (if c < 0x80 then [byte_of c]
     else if c < 0x800 then [byte_of (0xC0 + c div 64), byte_of (0x80 + c mod 64)]
     else if c < 0x10000 then
       [byte_of (0xE0 + c div 4096), byte_of (0x80 + c div 64 mod 64), byte_of (0x80 + c mod 64)]
     else
       [byte_of (0xF0 + c div 262144), byte_of (0x80 + c div 4096 mod 64),
        byte_of (0x80 + c div 64 mod 64), byte_of (0x80 + c mod 64)])"

text \<open>\<^verbatim>\<open>s.encode("utf-8")\<close>: lone surrogates cannot be encoded.\<close>

definition utf8_encode :: "pystr \<Rightarrow> byte list res" where
  "utf8_encode s =
    (if list_all is_scalar s then Inr (concat (map utf8_char s))
     else raiseE UnicodeEncodeError [Txt (lit ''surrogates not allowed'')])"

definition is_cont :: "byte \<Rightarrow> bool" where
  "is_cont b \<longleftrightarrow> 0x80 \<le> unat b \<and> unat b < 0xC0"

definition low6 :: "byte \<Rightarrow> nat" where
  "low6 b = unat b - 0x80"

text \<open>\<^verbatim>\<open>raw.decode("utf-8")\<close> in strict mode: overlong forms, surrogates and values above
  U+10FFFF are errors, and so is a truncated sequence.\<close>

fun utf8_decode :: "byte list \<Rightarrow> pystr option" where
  "utf8_decode [] = Some []"
| "utf8_decode (b # bs) =
    (let n = unat b in
     if n < 0x80 then map_option ((#) n) (utf8_decode bs)
     else if n < 0xC2 then None
     else if n < 0xE0 then
       (case bs of
          c1 # r \<Rightarrow>
            if is_cont c1 then map_option ((#) ((n - 0xC0) * 64 + low6 c1)) (utf8_decode r) else None
        | _ \<Rightarrow> None)
     else if n < 0xF0 then
       (case bs of
          c1 # c2 # r \<Rightarrow>
            let v = (n - 0xE0) * 4096 + low6 c1 * 64 + low6 c2 in
            if is_cont c1 \<and> is_cont c2 \<and> 0x800 \<le> v \<and> \<not> is_surrogate v
            then map_option ((#) v) (utf8_decode r) else None
        | _ \<Rightarrow> None)
     else if n < 0xF5 then
       (case bs of
          c1 # c2 # c3 # r \<Rightarrow>
            let v = (n - 0xF0) * 262144 + low6 c1 * 4096 + low6 c2 * 64 + low6 c3 in
            if is_cont c1 \<and> is_cont c2 \<and> is_cont c3 \<and> 0x10000 \<le> v \<and> v \<le> 0x10FFFF
            then map_option ((#) v) (utf8_decode r) else None
        | _ \<Rightarrow> None)
     else None)"

declare utf8_decode.simps [simp del]

lemma utf8_decode_Nil [simp]: "utf8_decode [] = Some []"
  by (simp add: utf8_decode.simps)

lemma unat_byte_of: "n < 256 \<Longrightarrow> unat (byte_of n) = n"
  by (simp add: byte_of_def unat_of_nat)

lemma byte_of_unat [simp]: "byte_of (unat b) = b"
  by (simp add: byte_of_def)

lemma unat_byte_lt: "unat (b :: byte) < 256"
  using unsigned_less [of b] by simp

lemma byte_of_eqI: "n = unat b \<Longrightarrow> byte_of n = b"
  by simp

lemma is_cont_byte_of [simp]: "n < 64 \<Longrightarrow> is_cont (byte_of (0x80 + n))"
  by (simp add: is_cont_def unat_byte_of)

lemma low6_byte_of [simp]: "n < 64 \<Longrightarrow> low6 (byte_of (0x80 + n)) = n"
  by (simp add: low6_def unat_byte_of)

subsection \<open>Decoding undoes encoding\<close>

lemma split_64: "c div 64 * 64 + c mod 64 = (c :: nat)"
  by simp

lemma split_4096: "c div 4096 * 4096 + c div 64 mod 64 * 64 + c mod 64 = (c :: nat)"
proof -
  have "c div 64 = c div 4096 * 64 + c div 64 mod 64"
    using div_mult_mod_eq [of "c div 64" 64] by (simp add: div_mult2_eq [symmetric])
  then show ?thesis using split_64 [of c] by linarith
qed

lemma split_262144:
  "c div 262144 * 262144 + c div 4096 mod 64 * 4096 + c div 64 mod 64 * 64 + c mod 64 = (c :: nat)"
proof -
  have "c div 4096 = c div 262144 * 64 + c div 4096 mod 64"
    using div_mult_mod_eq [of "c div 4096" 64] by (simp add: div_mult2_eq [symmetric])
  then show ?thesis using split_4096 [of c] by linarith
qed

lemma utf8_decode_char:
  assumes "is_scalar c"
  shows "utf8_decode (utf8_char c @ bs) = map_option ((#) c) (utf8_decode bs)"
proof -
  consider "c < 0x80" | "0x80 \<le> c" "c < 0x800" | "0x800 \<le> c" "c < 0x10000" | "0x10000 \<le> c"
    by linarith
  then show ?thesis
  proof cases
    case 1
    then show ?thesis by (simp add: utf8_char_def utf8_decode.simps(2) unat_byte_of)
  next
    case 2
    then have "2 \<le> c div 64" "c div 64 < 32" by auto
    with 2 show ?thesis
      by (simp add: utf8_char_def utf8_decode.simps(2) unat_byte_of split_64)
  next
    case 3
    then have "c div 4096 < 16" by auto
    with 3 assms show ?thesis
      by (simp add: utf8_char_def utf8_decode.simps(2) unat_byte_of split_4096 is_scalar_def)
  next
    case 4
    with assms have "c div 262144 < 5" "c \<le> 0x10FFFF" by (auto simp: is_scalar_def)
    with 4 show ?thesis
      by (simp add: utf8_char_def utf8_decode.simps(2) unat_byte_of split_262144)
  qed
qed

lemma utf8_decode_encode: "utf8_encode s = Inr bs \<Longrightarrow> utf8_decode bs = Some s"
proof (induction s arbitrary: bs)
  case Nil
  then show ?case by (simp add: utf8_encode_def)
next
  case (Cons c s)
  then show ?case
    by (auto simp: utf8_encode_def utf8_decode_char split: if_splits)
qed

lemma utf8_encode_inj: "utf8_encode s = Inr bs \<Longrightarrow> utf8_encode t = Inr bs \<Longrightarrow> s = t"
  using utf8_decode_encode [of s bs] utf8_decode_encode [of t bs] by simp

subsection \<open>Encoding undoes decoding\<close>

lemma is_contE:
  assumes "is_cont b"
  obtains n where "n < 64" "b = byte_of (0x80 + n)" "low6 b = n"
proof
  show "low6 b < 64" "b = byte_of (0x80 + low6 b)" "low6 b = low6 b"
    using assms by (auto simp: is_cont_def low6_def intro!: byte_of_eqI [symmetric])
qed

lemma utf8_char_2:
  assumes "0xC2 \<le> unat b" "unat b < 0xE0" "is_cont c1"
  defines "v \<equiv> (unat b - 0xC0) * 64 + low6 c1"
  shows "is_scalar v \<and> utf8_char v = [b, c1]"
proof -
  from assms(3) obtain k where k: "k < 64" "c1 = byte_of (0x80 + k)" "low6 c1 = k" by (rule is_contE)
  have "v div 64 = unat b - 0xC0" "v mod 64 = k"
    using assms(1) k by (auto simp: v_def)
  moreover have "0x80 \<le> v" "v < 0x800" using assms(1,2) k by (auto simp: v_def)
  ultimately show ?thesis
    using assms(1) k by (auto simp: utf8_char_def is_scalar_def is_surrogate_def)
qed

lemma horner64: "l < 64 \<Longrightarrow> (x * 64 + l) div 64 = (x :: nat)" "l < 64 \<Longrightarrow> (x * 64 + l) mod 64 = l"
  by auto

lemma div_4096: "v div 4096 = v div 64 div (64 :: nat)" and div_262144: "v div 262144 = v div 64 div 64 div (64 :: nat)"
  by (simp_all add: div_mult2_eq [symmetric])

lemma utf8_char_3:
  assumes "0xE0 \<le> unat b" "unat b < 0xF0" "is_cont c1" "is_cont c2"
  defines "v \<equiv> (unat b - 0xE0) * 4096 + low6 c1 * 64 + low6 c2"
  assumes "0x800 \<le> v" "\<not> is_surrogate v"
  shows "is_scalar v \<and> utf8_char v = [b, c1, c2]"
proof -
  from assms(3) obtain k where k: "k < 64" "c1 = byte_of (0x80 + k)" "low6 c1 = k" by (rule is_contE)
  from assms(4) obtain l where l: "l < 64" "c2 = byte_of (0x80 + l)" "low6 c2 = l" by (rule is_contE)
  define m where "m = unat b - 0xE0"
  have v: "v = m * 4096 + k * 64 + l" using k l by (simp add: v_def m_def)
  have h: "v = (m * 64 + k) * 64 + l" unfolding v by simp
  have "v div 4096 = m" "v div 64 mod 64 = k" "v mod 64 = l"
    using k(1) l(1) by (simp_all only: h div_4096 horner64)
  moreover have "v < 0x10000" using assms(1,2) k l v by (auto simp: m_def)
  ultimately show ?thesis
    using assms(1,6,7) k l by (auto simp: utf8_char_def is_scalar_def m_def)
qed

lemma utf8_char_4:
  assumes "0xF0 \<le> unat b" "is_cont c1" "is_cont c2" "is_cont c3"
  defines "v \<equiv> (unat b - 0xF0) * 262144 + low6 c1 * 4096 + low6 c2 * 64 + low6 c3"
  assumes "0x10000 \<le> v" "v \<le> 0x10FFFF"
  shows "is_scalar v \<and> utf8_char v = [b, c1, c2, c3]"
proof -
  from assms(2) obtain k where k: "k < 64" "c1 = byte_of (0x80 + k)" "low6 c1 = k" by (rule is_contE)
  from assms(3) obtain l where l: "l < 64" "c2 = byte_of (0x80 + l)" "low6 c2 = l" by (rule is_contE)
  from assms(4) obtain n where n: "n < 64" "c3 = byte_of (0x80 + n)" "low6 c3 = n" by (rule is_contE)
  define m where "m = unat b - 0xF0"
  have v: "v = m * 262144 + k * 4096 + l * 64 + n" using k l n by (simp add: v_def m_def)
  have h: "v = ((m * 64 + k) * 64 + l) * 64 + n" unfolding v by simp
  have "v div 262144 = m" "v div 4096 mod 64 = k" "v div 64 mod 64 = l" "v mod 64 = n"
    using k(1) l(1) n(1) by (simp_all only: h div_4096 div_262144 horner64)
  then show ?thesis
    using assms(1,6,7) k l n by (auto simp: utf8_char_def is_scalar_def is_surrogate_def m_def)
qed

lemma utf8_char_1: "unat b < 0x80 \<Longrightarrow> is_scalar (unat b) \<and> utf8_char (unat b) = [b]"
  by (simp add: utf8_char_def is_scalar_def is_surrogate_def)

lemma utf8_encode_decode: "utf8_decode bs = Some s \<Longrightarrow> utf8_encode s = Inr bs"
proof (induction bs arbitrary: s rule: length_induct)
  case (1 bs)
  note IH = "1.IH" [rule_format]
  have step: "utf8_encode s = Inr bs"
    if "bs = utf8_char v @ r" "is_scalar v" "s = v # t" "utf8_decode r = Some t" "utf8_char v \<noteq> []"
    for v r t
  proof -
    from that have "utf8_encode t = Inr r" by (intro IH) auto
    with that show ?thesis by (auto simp: utf8_encode_def split: if_splits)
  qed
  show ?case
  proof (cases bs)
    case Nil
    with "1.prems" show ?thesis by (simp add: utf8_encode_def)
  next
    case (Cons b r)
    note dec = "1.prems" [unfolded Cons utf8_decode.simps(2) Let_def]
    consider "unat b < 0x80" | "0xC2 \<le> unat b" "unat b < 0xE0" | "0xE0 \<le> unat b" "unat b < 0xF0"
      | "0xF0 \<le> unat b"
      using dec by (auto split: if_splits)
    then show ?thesis
    proof cases
      case 1
      with dec obtain t where "s = unat b # t" "utf8_decode r = Some t" by auto
      then show ?thesis using step [of "unat b" r t] utf8_char_1 [OF 1] Cons by simp
    next
      case 2
      with dec obtain c1 r1 t where r: "r = c1 # r1" "is_cont c1" "utf8_decode r1 = Some t"
        "s = ((unat b - 0xC0) * 64 + low6 c1) # t"
        by (auto split: list.splits if_splits)
      then show ?thesis using step [of _ r1 t] utf8_char_2 [OF 2 r(2)] Cons by simp
    next
      case 3
      with dec obtain c1 c2 r1 t where r: "r = c1 # c2 # r1" "is_cont c1" "is_cont c2"
        "0x800 \<le> (unat b - 0xE0) * 4096 + low6 c1 * 64 + low6 c2"
        "\<not> is_surrogate ((unat b - 0xE0) * 4096 + low6 c1 * 64 + low6 c2)"
        "utf8_decode r1 = Some t" "s = ((unat b - 0xE0) * 4096 + low6 c1 * 64 + low6 c2) # t"
        by (auto split: list.splits if_splits)
      then show ?thesis using step [of _ r1 t] utf8_char_3 [OF 3 r(2,3,4,5)] Cons by simp
    next
      case 4
      with dec obtain c1 c2 c3 r1 t where r: "r = c1 # c2 # c3 # r1" "is_cont c1" "is_cont c2" "is_cont c3"
        "0x10000 \<le> (unat b - 0xF0) * 262144 + low6 c1 * 4096 + low6 c2 * 64 + low6 c3"
        "(unat b - 0xF0) * 262144 + low6 c1 * 4096 + low6 c2 * 64 + low6 c3 \<le> 0x10FFFF"
        "utf8_decode r1 = Some t"
        "s = ((unat b - 0xF0) * 262144 + low6 c1 * 4096 + low6 c2 * 64 + low6 c3) # t"
        by (auto split: list.splits if_splits)
      then show ?thesis using step [of _ r1 t] utf8_char_4 [OF 4 r(2,3,4,5,6)] Cons by simp
    qed
  qed
qed

section \<open>White space: \<^verbatim>\<open>rstrip\<close>, \<^verbatim>\<open>split\<close>, \<^verbatim>\<open>startswith\<close>\<close>

definition is_space :: "nat \<Rightarrow> bool" where
  "is_space c \<longleftrightarrow> (9 \<le> c \<and> c \<le> 13) \<or> (0x1C \<le> c \<and> c \<le> 0x20) \<or> c = 0x85 \<or> c = 0xA0 \<or> c = 0x1680
     \<or> (0x2000 \<le> c \<and> c \<le> 0x200A) \<or> c = 0x2028 \<or> c = 0x2029 \<or> c = 0x202F \<or> c = 0x205F \<or> c = 0x3000"

text \<open>\<^verbatim>\<open>s.rstrip(chars)\<close>\<close>

definition rstrip :: "nat list \<Rightarrow> pystr \<Rightarrow> pystr" where
  "rstrip cs s = rev (dropWhile (\<lambda>c. List.member cs c) (rev s))"

definition starts_with :: "pystr \<Rightarrow> pystr \<Rightarrow> bool" where
  "starts_with s p \<longleftrightarrow> take (length p) s = p"

text \<open>\<^verbatim>\<open>s.split()\<close>: runs of white space separate, empty fields are dropped; \<open>cur\<close> is the field being
  read.\<close>

fun split_from :: "pystr \<Rightarrow> pystr \<Rightarrow> pystr list" where
  "split_from cur [] = (if cur = [] then [] else [cur])"
| "split_from cur (c # s) =
    (if is_space c then (if cur = [] then split_from [] s else cur # split_from [] s)
     else split_from (cur @ [c]) s)"

definition py_split :: "pystr \<Rightarrow> pystr list" where
  "py_split s = split_from [] s"

fun join_sp :: "pystr list \<Rightarrow> pystr" where
  "join_sp [] = []"
| "join_sp [x] = x"
| "join_sp (x # xs) = x @ 0x20 # join_sp xs"

definition is_field :: "pystr \<Rightarrow> bool" where
  "is_field f \<longleftrightarrow> f \<noteq> [] \<and> list_all (\<lambda>c. \<not> is_space c) f"

lemma is_space_blank [simp]: "is_space 0x20"
  by (simp add: is_space_def)

lemma split_from_fields:
  "list_all (\<lambda>c. \<not> is_space c) cur \<Longrightarrow> f \<in> set (split_from cur s) \<Longrightarrow> is_field f"
  by (induction cur s rule: split_from.induct) (auto simp: is_field_def split: if_splits)

lemma py_split_fields: "f \<in> set (py_split s) \<Longrightarrow> is_field f"
  unfolding py_split_def by (rule split_from_fields) simp_all

lemma py_split_mid: "py_split s = [a, b, c] \<Longrightarrow> is_field b"
  using py_split_fields [of b s] by simp

lemma split_from_word:
  "list_all (\<lambda>c. \<not> is_space c) f \<Longrightarrow> split_from cur (f @ s) = split_from (cur @ f) s"
  by (induction f arbitrary: cur) auto

lemma py_split_join: "list_all is_field fs \<Longrightarrow> py_split (join_sp fs) = fs"
proof (induction fs rule: join_sp.induct)
  case (2 x)
  then show ?case using split_from_word [of x "[]" "[]"] by (simp add: py_split_def is_field_def)
next
  case (3 x y xs)
  then show ?case
    using split_from_word [of x "[]" "0x20 # join_sp (y # xs)"]
    by (simp add: py_split_def is_field_def)
qed (simp add: py_split_def)

lemma starts_with_append [simp]: "starts_with (p @ s) p"
  by (simp add: starts_with_def)

lemma starts_withD: "starts_with s p \<Longrightarrow> s = p @ drop (length p) s"
  by (metis append_take_drop_id starts_with_def)

lemma rstrip_id: "s = [] \<or> \<not> List.member cs (last s) \<Longrightarrow> rstrip cs s = s"
  by (cases s rule: rev_cases) (auto simp: rstrip_def)

lemma rstrip_snoc: "List.member cs c \<Longrightarrow> rstrip cs (s @ [c]) = rstrip cs s"
  by (simp add: rstrip_def)

section \<open>Decimal integers: \<^verbatim>\<open>str(n)\<close> and \<^verbatim>\<open>int(s)\<close>\<close>

text \<open>The interpreter refuses to convert between text and integers of more than 4300 digits.\<close>

definition MAX_STR_DIGITS :: nat where
  "MAX_STR_DIGITS = 4300"

fun nat_digits :: "nat \<Rightarrow> nat list" where
  "nat_digits n = (if n < 10 then [n] else nat_digits (n div 10) @ [n mod 10])"

declare nat_digits.simps [simp del]

definition int_text :: "int \<Rightarrow> pystr" where
  "int_text n = (if n < 0 then [0x2D] else []) @ map ((+) 0x30) (nat_digits (nat \<bar>n\<bar>))"

definition py_str_int :: "int \<Rightarrow> pystr res" where
  "py_str_int n =
    (if MAX_STR_DIGITS < length (nat_digits (nat \<bar>n\<bar>))
     then raiseE ValueError [Txt (lit ''Exceeds the limit (4300 digits) for integer string conversion'')]
     else Inr (int_text n))"

text \<open>The code points of value zero of Unicode's decimal digit ranges (category Nd, Unicode 15.0, as in
  Python 3.12); each range is ten consecutive code points.\<close>

definition nd_zeros :: "nat list" where
  "nd_zeros =
    [48, 1632, 1776, 1984, 2406, 2534, 2662, 2790, 2918, 3046, 3174, 3302, 3430, 3558, 3664,
     3792, 3872, 4160, 4240, 6112, 6160, 6470, 6608, 6784, 6800, 6992, 7088, 7232, 7248, 42528,
     43216, 43264, 43472, 43504, 43600, 44016, 65296, 66720, 68912, 69734, 69872, 69942, 70096,
     70384, 70736, 70864, 71248, 71360, 71472, 71904, 72016, 72784, 73040, 73120, 73552, 92768,
     92864, 93008, 120782, 120792, 120802, 120812, 120822, 123200, 123632, 124144, 125264,
     130032]"

definition decimal_digit :: "nat \<Rightarrow> nat option" where
  "decimal_digit c = map_option (\<lambda>z. c - z) (List.find (\<lambda>z. z \<le> c \<and> c < z + 10) nd_zeros)"

text \<open>Digits with single underscores between them; \<open>need\<close> says that a digit must come next.\<close>

fun digits_of :: "bool \<Rightarrow> pystr \<Rightarrow> nat list option" where
  "digits_of need [] = (if need then None else Some [])"
| "digits_of need (c # s) =
    (if c = 0x5F then (if need then None else digits_of True s)
     else (case decimal_digit c of
             None \<Rightarrow> None
           | Some d \<Rightarrow> map_option ((#) d) (digits_of False s)))"

definition horner10 :: "nat list \<Rightarrow> nat" where
  "horner10 ds = fold (\<lambda>d n. n * 10 + d) ds 0"

definition unsigned_int :: "pystr \<Rightarrow> nat option" where
  "unsigned_int s =
    (case digits_of True s of
       None \<Rightarrow> None
     | Some ds \<Rightarrow> if MAX_STR_DIGITS < length ds then None else Some (horner10 ds))"

definition int_strip :: "pystr \<Rightarrow> pystr" where
  "int_strip s =
    (let sp = (\<lambda>c. is_space c \<and> \<not> (0x1C \<le> c \<and> c \<le> 0x1F))
     in rev (dropWhile sp (rev (dropWhile sp s))))"

text \<open>\<^verbatim>\<open>int(s)\<close>; \<open>None\<close> stands for its \<^verbatim>\<open>ValueError\<close>.\<close>

definition py_int :: "pystr \<Rightarrow> int option" where
  "py_int s =
    (case int_strip s of
       [] \<Rightarrow> None
     | c # r \<Rightarrow>
         if c = 0x2D then map_option (\<lambda>n. - int n) (unsigned_int r)
         else if c = 0x2B then map_option int (unsigned_int r)
         else map_option int (unsigned_int (c # r)))"

subsection \<open>\<open>int\<close> undoes \<open>str\<close>\<close>

lemma nat_digits_nonempty [simp]: "nat_digits n \<noteq> []"
  by (subst nat_digits.simps) simp

lemma nat_digits_small: "d \<in> set (nat_digits n) \<Longrightarrow> d < 10"
proof (induction n rule: nat_digits.induct)
  case (1 n)
  then show ?case by (cases "n < 10") (auto simp: nat_digits.simps [of n])
qed

lemma length_nat_digits: "n < 10 ^ k \<Longrightarrow> 0 < k \<Longrightarrow> length (nat_digits n) \<le> k"
proof (induction k arbitrary: n)
  case (Suc k)
  show ?case
  proof (cases "n < 10")
    case False
    then have "0 < k" using Suc.prems(1) by (cases k) auto
    moreover have "n div 10 < 10 ^ k" using Suc.prems(1) by auto
    ultimately show ?thesis using Suc.IH [of "n div 10"] False by (simp add: nat_digits.simps [of n])
  qed (simp add: nat_digits.simps [of n])
qed simp

lemma horner10_snoc [simp]: "horner10 (ds @ [d]) = horner10 ds * 10 + d"
  by (simp add: horner10_def)

lemma horner10_nat_digits: "horner10 (nat_digits n) = n"
proof (induction n rule: nat_digits.induct)
  case (1 n)
  show ?case
  proof (cases "n < 10")
    case True
    then show ?thesis by (simp add: nat_digits.simps [of n] horner10_def)
  next
    case False
    with "1.IH" show ?thesis by (simp add: nat_digits.simps [of n])
  qed
qed

lemma decimal_digit_ascii: "d < 10 \<Longrightarrow> decimal_digit (0x30 + d) = Some d"
  by (simp add: decimal_digit_def nd_zeros_def)

lemma digits_of_text:
  "list_all (\<lambda>d. d < 10) ds \<Longrightarrow> \<not> need \<or> ds \<noteq> [] \<Longrightarrow>
    digits_of need (map ((+) 0x30) ds) = Some ds"
proof (induction ds arbitrary: need)
  case (Cons d ds)
  then show ?case using decimal_digit_ascii [of d] by simp
qed simp

lemma unsigned_int_text:
  "length (nat_digits n) \<le> MAX_STR_DIGITS \<Longrightarrow> unsigned_int (map ((+) 0x30) (nat_digits n)) = Some n"
  using digits_of_text [of "nat_digits n" True] nat_digits_small [of _ n]
  by (simp add: unsigned_int_def list_all_iff horner10_nat_digits)

lemma digit_char_not_space: "d < 10 \<Longrightarrow> \<not> is_space (0x30 + d)"
  by (simp add: is_space_def)

lemma int_text_not_space: "c \<in> set (int_text n) \<Longrightarrow> \<not> is_space c"
proof -
  assume "c \<in> set (int_text n)"
  then consider "c = 0x2D" | d where "d < 10" "c = 0x30 + d"
    using nat_digits_small [of _ "nat \<bar>n\<bar>"] by (auto simp: int_text_def split: if_splits)
  then show "\<not> is_space c"
    by cases (simp_all add: digit_char_not_space is_space_def)
qed

lemma int_text_nonempty [simp]: "int_text n \<noteq> []"
  by (simp add: int_text_def)

lemma is_field_int_text: "is_field (int_text n)"
  by (auto simp: is_field_def list_all_iff dest: int_text_not_space)

lemma dropWhile_hd: "xs \<noteq> [] \<Longrightarrow> \<not> P (hd xs) \<Longrightarrow> dropWhile P xs = xs"
  by (cases xs) auto

lemma int_strip_field: "is_field s \<Longrightarrow> int_strip s = s"
  by (simp add: int_strip_def is_field_def list_all_iff dropWhile_hd hd_rev)

lemma int_text_cases:
  obtains "n < 0" "int_text n = 0x2D # map ((+) 0x30) (nat_digits (nat (- n)))"
  | "0 \<le> n" "int_text n = map ((+) 0x30) (nat_digits (nat n))"
  by (cases "n < 0") (auto simp: int_text_def)

lemma digit_text_hd:
  obtains d r where "map ((+) 0x30) (nat_digits n) = (0x30 + d) # r" "d < 10"
  using nat_digits_small [of _ n] by (cases "nat_digits n") auto

lemma py_int_int_text:
  assumes "length (nat_digits (nat \<bar>n\<bar>)) \<le> MAX_STR_DIGITS"
  shows "py_int (int_text n) = Some n"
proof (cases n rule: int_text_cases)
  case 1
  then have "int_strip (int_text n) = 0x2D # map ((+) 0x30) (nat_digits (nat (- n)))"
    using int_strip_field [OF is_field_int_text, of n] by simp
  with 1 assms show ?thesis by (simp add: py_int_def unsigned_int_text)
next
  case 2
  obtain d r where d: "map ((+) 0x30) (nat_digits (nat n)) = (0x30 + d) # r" "d < 10"
    by (rule digit_text_hd)
  have "unsigned_int ((0x30 + d) # r) = Some (nat n)"
    using unsigned_int_text [of "nat n"] 2 assms d(1) by simp
  moreover have "int_strip (int_text n) = (0x30 + d) # r"
    using int_strip_field [OF is_field_int_text, of n] 2 d(1) by simp
  ultimately show ?thesis using 2 by (simp add: py_int_def)
qed

lemma py_str_int_roundtrip: "py_str_int n = Inr s \<Longrightarrow> py_int s = Some n"
  by (auto simp: py_str_int_def py_int_int_text split: if_splits)

lemma py_str_int_field: "py_str_int n = Inr s \<Longrightarrow> is_field s"
  by (auto simp: py_str_int_def is_field_int_text split: if_splits)

lemma py_str_int_small:
  "\<bar>n\<bar> < 10 ^ k \<Longrightarrow> 0 < k \<Longrightarrow> k \<le> MAX_STR_DIGITS \<Longrightarrow> py_str_int n = Inr (int_text n)"
  using length_nat_digits [of "nat \<bar>n\<bar>" k] by (simp add: py_str_int_def nat_less_iff)

end
