(* ===== verification/Py_Values.thy ===== *)
theory Py_Values
  imports Complex_Main Py_Text
begin

text \<open>
  Python values as the client's dynamic checks see them.  The public functions are annotated with
  \<open>int\<close> or \<open>str\<close>, but the validators test \<open>isinstance\<close> themselves, so their arguments are values of
  any class; \<open>bool\<close> is a subclass of \<open>int\<close>.  A finite float is the rational number it stands for.
\<close>

datatype pyfloat = Fin rat | PInf | NInf | NaN

datatype pyval =
    VNone | VBool bool | VInt int | VFloat pyfloat | VStr pystr
  | VList "pyval list" | VTuple "pyval list" | VDict "(pystr \<times> pyval) list" | VOther

definition is_None :: "pyval \<Rightarrow> bool" where
  "is_None v = (case v of VNone \<Rightarrow> True | _ \<Rightarrow> False)"

definition isinstance_bool :: "pyval \<Rightarrow> bool" where
  "isinstance_bool v = (case v of VBool _ \<Rightarrow> True | _ \<Rightarrow> False)"

definition isinstance_int :: "pyval \<Rightarrow> bool" where
  "isinstance_int v = (case v of VInt _ \<Rightarrow> True | VBool _ \<Rightarrow> True | _ \<Rightarrow> False)"

definition isinstance_float :: "pyval \<Rightarrow> bool" where
  "isinstance_float v = (case v of VFloat _ \<Rightarrow> True | _ \<Rightarrow> False)"

definition isinstance_str :: "pyval \<Rightarrow> bool" where
  "isinstance_str v = (case v of VStr _ \<Rightarrow> True | _ \<Rightarrow> False)"

definition isinstance_dict :: "pyval \<Rightarrow> bool" where
  "isinstance_dict v = (case v of VDict _ \<Rightarrow> True | _ \<Rightarrow> False)"

lemmas class_tests = is_None_def isinstance_bool_def isinstance_int_def isinstance_float_def
  isinstance_str_def isinstance_dict_def

text \<open>The integer a value carries, read by the code only after its class was tested.\<close>

definition int_val :: "pyval \<Rightarrow> int" where
  "int_val v = (case v of VInt n \<Rightarrow> n | VBool b \<Rightarrow> of_bool b | _ \<Rightarrow> 0)"

text \<open>A value annotated \<^verbatim>\<open>int | None\<close> after its validator accepted it.\<close>

definition opt_int :: "pyval \<Rightarrow> int option" where
  "opt_int v = (if is_None v then None else Some (int_val v))"

definition is_finite :: "pyfloat \<Rightarrow> bool" where
  "is_finite x = (case x of Fin _ \<Rightarrow> True | _ \<Rightarrow> False)"

text \<open>Order comparisons of a number with a rational constant; a comparison with NaN is false.\<close>

definition num_le :: "pyval \<Rightarrow> rat \<Rightarrow> bool" where
  "num_le v r = (case v of VInt n \<Rightarrow> of_int n \<le> r | VBool b \<Rightarrow> of_bool b \<le> r
     | VFloat x \<Rightarrow> (case x of Fin q \<Rightarrow> q \<le> r | NInf \<Rightarrow> True | _ \<Rightarrow> False) | _ \<Rightarrow> False)"

definition num_ge :: "pyval \<Rightarrow> rat \<Rightarrow> bool" where
  "num_ge v r = (case v of VInt n \<Rightarrow> r \<le> of_int n | VBool b \<Rightarrow> r \<le> of_bool b
     | VFloat x \<Rightarrow> (case x of Fin q \<Rightarrow> r \<le> q | PInf \<Rightarrow> True | _ \<Rightarrow> False) | _ \<Rightarrow> False)"

definition num_eq :: "pyval \<Rightarrow> rat \<Rightarrow> bool" where
  "num_eq v r \<longleftrightarrow> num_le v r \<and> num_ge v r"

definition num_less :: "pyval \<Rightarrow> rat \<Rightarrow> bool" where
  "num_less v r \<longleftrightarrow> num_le v r \<and> \<not> num_ge v r"

definition num_greater :: "pyval \<Rightarrow> rat \<Rightarrow> bool" where
  "num_greater v r \<longleftrightarrow> num_ge v r \<and> \<not> num_le v r"

definition is_number :: "pyval \<Rightarrow> bool" where
  "is_number v \<longleftrightarrow> isinstance_int v \<or> isinstance_float v"

text \<open>The rational value of a finite number.\<close>

definition rat_val :: "pyval \<Rightarrow> rat" where
  "rat_val v = (case v of VFloat (Fin q) \<Rightarrow> q | _ \<Rightarrow> of_int (int_val v))"

text \<open>\<^verbatim>\<open>d.get(k)\<close> on a dict with distinct keys.\<close>

definition dict_get :: "pyval \<Rightarrow> pystr \<Rightarrow> pyval" where
  "dict_get d k = (case d of VDict kvs \<Rightarrow>
     (case map_of kvs k of None \<Rightarrow> VNone | Some v \<Rightarrow> v) | _ \<Rightarrow> VNone)"

lemma strict_intE:
  assumes "\<not> (isinstance_bool v \<or> \<not> isinstance_int v)"
  obtains n where "v = VInt n"
  using assms by (cases v) (auto simp: class_tests)

lemma is_str_iff: "isinstance_str v \<longleftrightarrow> (\<exists>s. v = VStr s)"
  by (cases v) (simp_all add: class_tests)

lemma strict_int_iff: "\<not> (isinstance_bool v \<or> \<not> isinstance_int v) \<longleftrightarrow> (\<exists>n. v = VInt n)"
  by (cases v) (simp_all add: class_tests)

lemma strict_int_VInt [simp]: "isinstance_int (VInt n)" "\<not> isinstance_bool (VInt n)"
  by (simp_all add: class_tests)

lemma int_val_VInt [simp]: "int_val (VInt n) = n"
  by (simp add: int_val_def)

lemma opt_int_simps [simp]: "opt_int VNone = None" "opt_int (VInt n) = Some n"
  by (simp_all add: opt_int_def is_None_def)

end
