(* ===== verification/Validators.thy ===== *)
theory Validators
  imports Py_Values
begin

text \<open>
  The validators of \<open>_protocol.py\<close>: each is a function into \<open>unit res\<close> that raises exactly where the
  code does, in the code's order.  The lemmas characterise when each accepts, and which class it
  raises otherwise.
\<close>

named_theorems validator_iff \<open>exact acceptance conditions of the validators\<close>

definition MAX_LINE_BYTES :: nat where "MAX_LINE_BYTES = 256"
definition MAX_AUTH_TOKEN_BYTES :: nat where "MAX_AUTH_TOKEN_BYTES = 64 * 1024"
definition MAX_RESPONSE_LINE_BYTES :: nat where "MAX_RESPONSE_LINE_BYTES = 1 * 1024 * 1024"
definition MAX_PROTOCOL_SECONDS :: int where "MAX_PROTOCOL_SECONDS = 9223372036"

lemmas limits = MAX_LINE_BYTES_def MAX_AUTH_TOKEN_BYTES_def MAX_RESPONSE_LINE_BYTES_def
  MAX_PROTOCOL_SECONDS_def

section \<open>Lines, keys and tokens\<close>

definition byte_len :: "pystr \<Rightarrow> nat res" where
  "byte_len s = bindE (utf8_encode s) (\<lambda>b. Inr (length b))"

definition has_whitespace :: "pystr \<Rightarrow> bool" where
  "has_whitespace s = list_ex (\<lambda>c. List.member s c) [0x20, 0x09, 0x0A, 0x0D]"

definition check_no_newlines :: "pystr \<Rightarrow> pystr \<Rightarrow> unit res" where
  "check_no_newlines name v =
    raise_if (List.member v 0x0A \<or> List.member v 0x0D)
      (Exn ValueError [Txt name, Txt (lit '' must not contain newlines'')])"

definition validate_protocol_line :: "pystr \<Rightarrow> pystr \<Rightarrow> bool \<Rightarrow> unit res" where
  "validate_protocol_line name v allow_empty =
    seqE (raise_if (\<not> allow_empty \<and> v = [])
           (Exn ValueError [Txt name, Txt (lit '' must not be empty'')]))
    (seqE (check_no_newlines name v)
    (bindE (byte_len v) (\<lambda>n.
      raise_if (MAX_LINE_BYTES < n)
        (Exn ValueError [Txt name, Txt (lit '' too long (max ''), Num (int MAX_LINE_BYTES),
           Txt (lit '' bytes)'')]))))"

definition validate_key :: "pystr \<Rightarrow> pystr \<Rightarrow> unit res" where
  "validate_key name v =
    seqE (validate_protocol_line name v False)
      (raise_if (has_whitespace v)
        (Exn ValueError [Txt name, Txt (lit '' must not contain whitespace'')]))"

definition validate_token :: "pystr \<Rightarrow> unit res" where
  "validate_token token =
    seqE (validate_protocol_line (lit ''token'') token False)
      (raise_if (has_whitespace token)
        (Exn ValueError [Txt (lit ''token must not contain whitespace'')]))"

definition validate_auth_token :: "pystr \<Rightarrow> unit res" where
  "validate_auth_token token =
    seqE (check_no_newlines (lit ''auth token'') token)
    (bindE (byte_len token) (\<lambda>n.
      raise_if (MAX_AUTH_TOKEN_BYTES < n)
        (Exn ValueError [Txt (lit ''auth token too long (max ''), Num (int MAX_AUTH_TOKEN_BYTES),
           Txt (lit '' bytes)'')])))"

section \<open>Numbers\<close>

definition validate_int :: "pystr \<Rightarrow> pyval \<Rightarrow> unit res" where
  "validate_int name v =
    raise_if (isinstance_bool v \<or> \<not> isinstance_int v)
      (Exn BuiltinTypeError [Txt name, Txt (lit '' must be an integer'')])"

definition validate_seconds_range :: "pystr \<Rightarrow> int \<Rightarrow> int \<Rightarrow> unit res" where
  "validate_seconds_range name v min_value =
    seqE (raise_if (v < min_value)
           (Exn ValueError [Txt name, Txt (lit '' must be >= ''), Num min_value]))
      (raise_if (v > MAX_PROTOCOL_SECONDS)
        (Exn ValueError [Txt name, Txt (lit '' too large (max ''), Num MAX_PROTOCOL_SECONDS,
           Txt (lit '')'')]))"

definition validate_timeout_s :: "pystr \<Rightarrow> pyval \<Rightarrow> unit res" where
  "validate_timeout_s name v =
    seqE (validate_int name v) (validate_seconds_range name (int_val v) 0)"

definition validate_lease_ttl_s :: "pyval \<Rightarrow> unit res" where
  "validate_lease_ttl_s v =
    (if is_None v then Inr ()
     else seqE (validate_int (lit ''lease_ttl_s'') v)
            (validate_seconds_range (lit ''lease_ttl_s'') (int_val v) 1))"

definition validate_semaphore_limit :: "pyval \<Rightarrow> unit res" where
  "validate_semaphore_limit limit =
    seqE (validate_int (lit ''limit'') limit)
      (raise_if (int_val limit \<le> 0) (Exn ValueError [Txt (lit ''limit must be > 0'')]))"

definition validate_connect_timeout_s :: "pyval \<Rightarrow> unit res" where
  "validate_connect_timeout_s v =
    seqE (raise_if (isinstance_bool v \<or> \<not> (isinstance_int v \<or> isinstance_float v))
           (Exn BuiltinTypeError [Txt (lit ''connect_timeout_s must be a number'')]))
    (seqE (raise_if (case v of VFloat x \<Rightarrow> \<not> is_finite x | _ \<Rightarrow> False)
           (Exn ValueError [Txt (lit ''connect_timeout_s must be finite'')]))
    (seqE (raise_if (num_le v 0) (Exn ValueError [Txt (lit ''connect_timeout_s must be > 0'')]))
      (raise_if (num_greater v (of_int MAX_PROTOCOL_SECONDS))
        (Exn ValueError [Txt (lit ''connect_timeout_s too large (max ''), Num MAX_PROTOCOL_SECONDS,
           Txt (lit '')'')]))))"

section \<open>Lock and semaphore prefixes\<close>

definition validate_prefix :: "pystr \<Rightarrow> unit res" where
  "validate_prefix prefix =
    raise_if (\<not> List.member [[], lit ''s''] prefix)
      (Exn ValueError [Txt (lit (''cmd_prefix must be '' @ quoted [] @ '' or '' @ quoted ''s'' @ '', got '')),
         Repr prefix])"

definition require_limit_for_semaphore :: "pyval \<Rightarrow> unit res" where
  "require_limit_for_semaphore limit =
    seqE (raise_if (is_None limit)
           (Exn ValueError [Txt (lit (''limit is required when cmd_prefix='' @ quoted ''s'' @ '' (semaphore)''))]))
      (validate_semaphore_limit limit)"

definition validate_prefix_limit :: "pystr \<Rightarrow> pyval \<Rightarrow> unit res" where
  "validate_prefix_limit prefix limit =
    seqE (validate_prefix prefix)
      (if prefix = lit ''s'' then require_limit_for_semaphore limit
       else raise_if (\<not> is_None limit)
              (Exn ValueError [Txt (lit (''limit must not be set when cmd_prefix='' @ quoted [] @ '' (lock)''))]))"

section \<open>What the validators accept\<close>

text \<open>The size of a text on the wire, for text that can be encoded at all.\<close>

definition encodable :: "pystr \<Rightarrow> bool" where
  "encodable s = list_all is_scalar s"

definition wire_size :: "pystr \<Rightarrow> nat" where
  "wire_size s = sum_list (map (\<lambda>c. length (utf8_char c)) s)"

lemma byte_len_eq:
  "byte_len s = (if encodable s then Inr (wire_size s)
     else raiseE UnicodeEncodeError [Txt (lit ''surrogates not allowed'')])"
  by (simp add: byte_len_def utf8_encode_def encodable_def wire_size_def length_concat comp_def)

lemma check_no_newlines_iff [validator_iff]:
  "check_no_newlines name v = Inr u \<longleftrightarrow> 0x0A \<notin> set v \<and> 0x0D \<notin> set v"
  by (simp add: check_no_newlines_def res_simps)

lemma validate_protocol_line_iff [validator_iff]:
  "validate_protocol_line name v allow_empty = Inr u \<longleftrightarrow>
    (allow_empty \<or> v \<noteq> []) \<and> 0x0A \<notin> set v \<and> 0x0D \<notin> set v \<and> encodable v \<and> wire_size v \<le> MAX_LINE_BYTES"
  by (auto simp: validate_protocol_line_def res_simps validator_iff byte_len_eq)

lemma has_whitespace_iff: "has_whitespace s \<longleftrightarrow> (\<exists>c \<in> {0x20, 0x09, 0x0A, 0x0D}. c \<in> set s)"
  by (simp add: has_whitespace_def)

lemma validate_key_iff [validator_iff]:
  "validate_key name v = Inr u \<longleftrightarrow>
    v \<noteq> [] \<and> set v \<inter> {0x20, 0x09, 0x0A, 0x0D} = {} \<and> encodable v \<and> wire_size v \<le> MAX_LINE_BYTES"
  by (auto simp: validate_key_def res_simps validator_iff has_whitespace_iff)

lemma validate_token_iff [validator_iff]:
  "validate_token v = Inr u \<longleftrightarrow>
    v \<noteq> [] \<and> set v \<inter> {0x20, 0x09, 0x0A, 0x0D} = {} \<and> encodable v \<and> wire_size v \<le> MAX_LINE_BYTES"
  by (auto simp: validate_token_def res_simps validator_iff has_whitespace_iff)

lemma validate_auth_token_iff [validator_iff]:
  "validate_auth_token v = Inr u \<longleftrightarrow>
    0x0A \<notin> set v \<and> 0x0D \<notin> set v \<and> encodable v \<and> wire_size v \<le> MAX_AUTH_TOKEN_BYTES"
  by (auto simp: validate_auth_token_def res_simps validator_iff byte_len_eq)

lemma validate_int_iff [validator_iff]: "validate_int name v = Inr u \<longleftrightarrow> (\<exists>n. v = VInt n)"
  by (cases v) (auto simp: validate_int_def res_simps class_tests)

lemma validate_seconds_range_iff [validator_iff]:
  "validate_seconds_range name n m = Inr u \<longleftrightarrow> m \<le> n \<and> n \<le> MAX_PROTOCOL_SECONDS"
  by (auto simp: validate_seconds_range_def res_simps)

lemma validate_timeout_s_iff [validator_iff]:
  "validate_timeout_s name v = Inr u \<longleftrightarrow> (\<exists>n. v = VInt n \<and> 0 \<le> n \<and> n \<le> MAX_PROTOCOL_SECONDS)"
  by (auto simp: validate_timeout_s_def res_simps validator_iff)

lemma validate_lease_ttl_s_iff [validator_iff]:
  "validate_lease_ttl_s v = Inr u \<longleftrightarrow>
    v = VNone \<or> (\<exists>n. v = VInt n \<and> 1 \<le> n \<and> n \<le> MAX_PROTOCOL_SECONDS)"
  by (cases v) (auto simp: validate_lease_ttl_s_def res_simps validator_iff is_None_def)

lemma validate_semaphore_limit_iff [validator_iff]:
  "validate_semaphore_limit v = Inr u \<longleftrightarrow> (\<exists>n. v = VInt n \<and> 0 < n)"
  by (auto simp: validate_semaphore_limit_def res_simps validator_iff)

lemma validate_connect_timeout_s_iff [validator_iff]:
  "validate_connect_timeout_s v = Inr u \<longleftrightarrow>
    (\<exists>n. v = VInt n \<and> 0 < n \<and> n \<le> MAX_PROTOCOL_SECONDS)
    \<or> (\<exists>q. v = VFloat (Fin q) \<and> 0 < q \<and> q \<le> of_int MAX_PROTOCOL_SECONDS)"
  by (cases v)
    (auto simp: validate_connect_timeout_s_def res_simps class_tests num_le_def num_ge_def
      num_greater_def is_finite_def not_le split: pyfloat.splits)

lemma validate_prefix_iff [validator_iff]:
  "validate_prefix p = Inr u \<longleftrightarrow> p = [] \<or> p = lit ''s''"
  by (auto simp: validate_prefix_def res_simps)

lemma validate_prefix_limit_iff [validator_iff]:
  "validate_prefix_limit p limit = Inr u \<longleftrightarrow>
    (p = [] \<and> limit = VNone) \<or> (p = lit ''s'' \<and> (\<exists>n. limit = VInt n \<and> 0 < n))"
  by (cases limit)
    (auto simp: validate_prefix_limit_def res_simps validator_iff require_limit_for_semaphore_def
      is_None_def)

section \<open>What the validators raise\<close>

text \<open>A caller sees \<open>ValueError\<close> (or its subclass for lone surrogates) or \<open>TypeError\<close>, nothing else.\<close>

lemma byte_len_error: "byte_len s = Inl e \<Longrightarrow> isinstance e ValueError"
  by (auto simp: byte_len_eq subclass_simps split: if_splits)

lemma line_error: "validate_protocol_line name v b = Inl e \<Longrightarrow> isinstance e ValueError"
  by (auto simp: validate_protocol_line_def check_no_newlines_def res_simps dest: byte_len_error)

lemma key_error: "validate_key name v = Inl e \<Longrightarrow> isinstance e ValueError"
  by (auto simp: validate_key_def res_simps dest: line_error)

lemma token_error: "validate_token v = Inl e \<Longrightarrow> isinstance e ValueError"
  by (auto simp: validate_token_def res_simps dest: line_error)

lemma auth_token_error: "validate_auth_token v = Inl e \<Longrightarrow> isinstance e ValueError"
  by (auto simp: validate_auth_token_def check_no_newlines_def res_simps dest: byte_len_error)

lemma seconds_error:
  "validate_timeout_s name v = Inl e \<Longrightarrow>
    exn_class e = (if \<exists>n. v = VInt n then ValueError else BuiltinTypeError)"
  by (cases v) (auto simp: validate_timeout_s_def validate_int_def validate_seconds_range_def
    res_simps class_tests)

lemma lease_error:
  "validate_lease_ttl_s v = Inl e \<Longrightarrow>
    exn_class e = (if \<exists>n. v = VInt n then ValueError else BuiltinTypeError)"
  by (cases v) (auto simp: validate_lease_ttl_s_def validate_int_def validate_seconds_range_def
    res_simps class_tests)

lemma limit_error:
  "validate_semaphore_limit v = Inl e \<Longrightarrow>
    exn_class e = (if \<exists>n. v = VInt n then ValueError else BuiltinTypeError)"
  by (cases v) (auto simp: validate_semaphore_limit_def validate_int_def res_simps class_tests)

end
