(* ===== verification/Encoders.thy ===== *)
theory Encoders
  imports Validators
begin

text \<open>
  The encoders of \<open>_protocol.py\<close>: the frame of a command (\<open>encode_lines\<close>), the argument builders and
  the \<open>make_*_arg\<close> helpers that compose validate, build and validate-line.  The lemmas show that a
  frame splits back into exactly the lines it was made of, and that every argument the helpers
  accept splits back into the numbers it was built from.
\<close>

section \<open>Frames\<close>

definition encode_lines :: "pystr list \<Rightarrow> byte list res" where
  "encode_lines ls =
    seqE (forE (check_no_newlines (lit ''protocol argument'')) ls)
      (utf8_encode (concat (map (\<lambda>ln. ln @ [0x0A]) ls)))"

text \<open>The reader's side of the framing: bytes up to each line feed, decoded one line at a time.\<close>

fun byte_lines :: "byte list \<Rightarrow> byte list \<Rightarrow> byte list list" where
  "byte_lines cur [] = (if cur = [] then [] else [cur])"
| "byte_lines cur (b # bs) = (if b = 0x0A then cur # byte_lines [] bs else byte_lines (cur @ [b]) bs)"

definition frame_lines :: "byte list \<Rightarrow> pystr option list" where
  "frame_lines f = map utf8_decode (byte_lines [] f)"

lemma byte_of_LF: "byte_of n = 0x0A \<Longrightarrow> n mod 256 = 10"
proof -
  assume "byte_of n = 0x0A"
  then have "unat (byte_of n) = unat (0x0A :: byte)" by simp
  then show ?thesis by (simp add: byte_of_def unat_of_nat)
qed

lemma utf8_char_no_LF: "is_scalar c \<Longrightarrow> c \<noteq> 0x0A \<Longrightarrow> 0x0A \<notin> set (utf8_char c)"
proof
  assume c: "is_scalar c" "c \<noteq> 0x0A" and mem: "0x0A \<in> set (utf8_char c)"
  then show False
    by (auto simp: utf8_char_def is_scalar_def dest!: byte_of_LF split: if_splits)
qed

lemma byte_lines_word: "0x0A \<notin> set w \<Longrightarrow> byte_lines cur (w @ bs) = byte_lines (cur @ w) bs"
  by (induction w arbitrary: cur) auto

lemma utf8_encode_append:
  "utf8_encode (s @ t) = bindE (utf8_encode s) (\<lambda>a. bindE (utf8_encode t) (\<lambda>b. Inr (a @ b)))"
  by (simp add: utf8_encode_def)

lemma utf8_encode_no_LF:
  "utf8_encode s = Inr bs \<Longrightarrow> 0x0A \<notin> set s \<Longrightarrow> 0x0A \<notin> set bs"
  using utf8_char_no_LF by (fastforce simp: utf8_encode_def list_all_iff split: if_splits)

lemma utf8_encode_LF: "utf8_encode [0x0A] = Inr [0x0A]"
  by (simp add: utf8_encode_def is_scalar_def is_surrogate_def utf8_char_def byte_of_def)

lemma frame_lines_encode:
  assumes "utf8_encode (concat (map (\<lambda>ln. ln @ [0x0A]) ls)) = Inr f" "\<forall>ln \<in> set ls. 0x0A \<notin> set ln"
  shows "frame_lines f = map Some ls"
  using assms
proof (induction ls arbitrary: f)
  case Nil
  then show ?case by (simp add: utf8_encode_def frame_lines_def)
next
  case (Cons ln ls)
  then obtain a b where ab: "utf8_encode ln = Inr a"
    "utf8_encode (concat (map (\<lambda>ln. ln @ [0x0A]) ls)) = Inr b" "f = a @ 0x0A # b"
    using utf8_encode_append [of "ln @ [0x0A]"] utf8_encode_append [of ln "[0x0A]"]
    by (auto simp: res_simps utf8_encode_LF)
  with Cons have "frame_lines b = map Some ls" "0x0A \<notin> set a"
    using utf8_encode_no_LF by auto
  with ab show ?case
    using byte_lines_word [of a "[]" "0x0A # b"] utf8_decode_encode [OF ab(1)]
    by (simp add: frame_lines_def)
qed

section \<open>Command arguments\<close>

definition append_optional_int :: "pystr list \<Rightarrow> int option \<Rightarrow> pystr list res" where
  "append_optional_int parts v =
    (case v of None \<Rightarrow> Inr parts | Some n \<Rightarrow> bindE (py_str_int n) (\<lambda>t. Inr (parts @ [t])))"

definition build_acquire_arg :: "int \<Rightarrow> int option \<Rightarrow> int option \<Rightarrow> pystr res" where
  "build_acquire_arg timeout_s limit lease_ttl_s =
    bindE (py_str_int timeout_s) (\<lambda>t.
    bindE (append_optional_int [t] limit) (\<lambda>parts.
    bindE (append_optional_int parts lease_ttl_s) (\<lambda>parts.
    Inr (join_sp parts))))"

definition build_renew_arg :: "pystr \<Rightarrow> int option \<Rightarrow> pystr res" where
  "build_renew_arg token lease_ttl_s =
    (case lease_ttl_s of
       None \<Rightarrow> Inr token
     | Some n \<Rightarrow> bindE (py_str_int n) (\<lambda>t. Inr (token @ lit '' '' @ t)))"

definition build_enqueue_arg :: "int option \<Rightarrow> int option \<Rightarrow> pystr res" where
  "build_enqueue_arg limit lease_ttl_s =
    bindE (append_optional_int [] limit) (\<lambda>parts.
    bindE (append_optional_int parts lease_ttl_s) (\<lambda>parts.
    Inr (join_sp parts)))"

definition build_wait_arg :: "int \<Rightarrow> pystr res" where
  "build_wait_arg timeout_s = py_str_int timeout_s"

definition cmd_name :: "pystr \<Rightarrow> pystr \<Rightarrow> pystr res" where
  "cmd_name prefix op = seqE (validate_prefix prefix) (Inr (prefix @ op))"

definition op_label :: "pystr \<Rightarrow> pystr \<Rightarrow> pystr" where
  "op_label prefix op = (if prefix = lit ''s'' then lit ''sem_'' @ op else op)"

definition make_acquire_arg :: "pyval \<Rightarrow> int option \<Rightarrow> pyval \<Rightarrow> pystr res" where
  "make_acquire_arg timeout_s limit lease_ttl_s =
    seqE (validate_timeout_s (lit ''acquire_timeout_s'') timeout_s)
    (seqE (validate_lease_ttl_s lease_ttl_s)
    (bindE (build_acquire_arg (int_val timeout_s) limit (opt_int lease_ttl_s)) (\<lambda>arg.
    seqE (validate_protocol_line (lit ''acquire argument'') arg True) (Inr arg))))"

definition make_renew_arg :: "pystr \<Rightarrow> pyval \<Rightarrow> pystr res" where
  "make_renew_arg token lease_ttl_s =
    seqE (validate_token token)
    (seqE (validate_lease_ttl_s lease_ttl_s)
    (bindE (build_renew_arg token (opt_int lease_ttl_s)) (\<lambda>arg.
    seqE (validate_protocol_line (lit ''renew argument'') arg True) (Inr arg))))"

definition make_enqueue_arg :: "int option \<Rightarrow> pyval \<Rightarrow> pystr res" where
  "make_enqueue_arg limit lease_ttl_s =
    seqE (validate_lease_ttl_s lease_ttl_s)
    (bindE (build_enqueue_arg limit (opt_int lease_ttl_s)) (\<lambda>arg.
    seqE (validate_protocol_line (lit ''enqueue argument'') arg True) (Inr arg)))"

definition make_wait_arg :: "pyval \<Rightarrow> pystr res" where
  "make_wait_arg timeout_s =
    seqE (validate_timeout_s (lit ''wait_timeout_s'') timeout_s)
    (bindE (build_wait_arg (int_val timeout_s)) (\<lambda>arg.
    seqE (validate_protocol_line (lit ''wait argument'') arg True) (Inr arg)))"

section \<open>Arguments split back into their numbers\<close>

definition opt_list :: "'a option \<Rightarrow> 'a list" where
  "opt_list v = (case v of None \<Rightarrow> [] | Some a \<Rightarrow> [a])"

lemma opt_list_simps [simp]: "opt_list None = []" "opt_list (Some a) = [a]"
  by (simp_all add: opt_list_def)

lemma append_optional_int_eq_Inr:
  "append_optional_int parts v = Inr parts' \<Longrightarrow>
    \<exists>ts. parts' = parts @ ts \<and> map py_int ts = map Some (opt_list v) \<and> list_all is_field ts"
  by (auto simp: append_optional_int_def res_simps py_str_int_roundtrip py_str_int_field
      split: option.splits)

lemma build_acquire_arg_fields:
  assumes "build_acquire_arg t limit lease = Inr arg"
  shows "map py_int (py_split arg) = map Some (t # opt_list limit @ opt_list lease)"
    and "list_all is_field (py_split arg)"
proof -
  from assms obtain s p q where s: "py_str_int t = Inr s" and p: "append_optional_int [s] limit = Inr p"
    and q: "append_optional_int p lease = Inr q" and arg: "arg = join_sp q"
    by (auto simp: build_acquire_arg_def res_simps)
  from append_optional_int_eq_Inr [OF p] append_optional_int_eq_Inr [OF q]
  obtain u v where "q = s # u @ v" "map py_int u = map Some (opt_list limit)" "list_all is_field u"
    "map py_int v = map Some (opt_list lease)" "list_all is_field v"
    by auto
  with s arg show "map py_int (py_split arg) = map Some (t # opt_list limit @ opt_list lease)"
    and "list_all is_field (py_split arg)"
    using py_str_int_field [OF s] py_str_int_roundtrip [OF s] by (simp_all add: py_split_join)
qed

lemma build_enqueue_arg_fields:
  assumes "build_enqueue_arg limit lease = Inr arg"
  shows "map py_int (py_split arg) = map Some (opt_list limit @ opt_list lease)"
proof -
  from assms obtain p q where p: "append_optional_int [] limit = Inr p"
    and q: "append_optional_int p lease = Inr q" and arg: "arg = join_sp q"
    by (auto simp: build_enqueue_arg_def res_simps)
  from append_optional_int_eq_Inr [OF p] append_optional_int_eq_Inr [OF q]
  obtain u v where "q = u @ v" "map py_int u = map Some (opt_list limit)" "list_all is_field u"
    "map py_int v = map Some (opt_list lease)" "list_all is_field v"
    by auto
  with arg show ?thesis by (simp add: py_split_join)
qed

lemma make_acquire_argD:
  assumes "make_acquire_arg t limit lease = Inr arg"
  obtains n where "t = VInt n" "0 \<le> n" "n \<le> MAX_PROTOCOL_SECONDS"
    "lease = VNone \<or> (\<exists>l. lease = VInt l \<and> 1 \<le> l \<and> l \<le> MAX_PROTOCOL_SECONDS)"
    "build_acquire_arg n limit (opt_int lease) = Inr arg"
    "validate_protocol_line (lit ''acquire argument'') arg True = Inr ()"
  using assms by (auto simp: make_acquire_arg_def res_simps validate_timeout_s_iff validate_lease_ttl_s_iff)

lemma make_wait_argD:
  assumes "make_wait_arg t = Inr arg"
  obtains n where "t = VInt n" "0 \<le> n" "n \<le> MAX_PROTOCOL_SECONDS" "arg = int_text n"
  using assms
  by (auto simp: make_wait_arg_def res_simps validate_timeout_s_iff build_wait_arg_def py_str_int_def
      split: if_splits)

text \<open>An accepted argument has no line feed: framing it cannot add a line.\<close>

lemma make_arg_no_LF:
  "make_acquire_arg t limit lease = Inr arg \<Longrightarrow> 0x0A \<notin> set arg"
  "make_renew_arg token lease = Inr arg \<Longrightarrow> 0x0A \<notin> set arg"
  "make_enqueue_arg limit lease = Inr arg \<Longrightarrow> 0x0A \<notin> set arg"
  "make_wait_arg t = Inr arg \<Longrightarrow> 0x0A \<notin> set arg"
  by (auto simp: make_acquire_arg_def make_renew_arg_def make_enqueue_arg_def make_wait_arg_def
      res_simps validate_protocol_line_iff)

end
