(* ===== verification/Decoders.thy ===== *)
theory Decoders
  imports Encoders
begin

text \<open>
  The decoders of \<open>_protocol.py\<close>: the status table, the \<open>parse_*\<close> functions and their helpers.  The
  JSON reader of the standard library is the argument \<open>loads\<close> of the stats decoder.  The lemmas
  classify every response line: which lines are accepted and with what value, and which exception
  class every other line gives.
\<close>

section \<open>Status to exception\<close>

definition STATUS_ERRORS :: "(pystr \<times> exn_class) list" where
  "STATUS_ERRORS =
    [(lit ''error_auth'', AuthError),
     (lit ''error_max_locks'', MaxLocksError),
     (lit ''error_max_waiters'', MaxWaitersError),
     (lit ''error_limit_mismatch'', LimitMismatchError),
     (lit ''error_not_enqueued'', NotQueuedError),
     (lit ''error_already_enqueued'', AlreadyQueuedError),
     (lit ''error_lease_expired'', LeaseExpiredError),
     (lit ''error_draining'', DrainingError)]"

definition status_class :: "pystr \<Rightarrow> exn_class" where
  "status_class resp = (case map_of STATUS_ERRORS resp of None \<Rightarrow> DflockdError | Some c \<Rightarrow> c)"

definition status_error :: "pystr \<Rightarrow> pystr \<Rightarrow> exn" where
  "status_error operation resp =
    Exn (status_class resp) [Txt operation, Txt (lit '' failed: ''), Repr resp]"

definition raise_status_error :: "pystr \<Rightarrow> pystr \<Rightarrow> 'a res" where
  "raise_status_error operation resp = Inl (status_error operation resp)"

definition raise_auth_error :: "pystr \<Rightarrow> 'a res" where
  "raise_auth_error resp =
    (if resp = lit ''error_draining''
     then raiseE DrainingError [Txt (lit ''authentication failed: ''), Repr resp]
     else raiseE PermissionError [Txt (lit ''authentication failed: ''), Repr resp])"

section \<open>Fields\<close>

definition bad_response :: "pystr \<Rightarrow> pystr \<Rightarrow> exn" where
  "bad_response op resp = Exn RuntimeError [Txt (lit ''bad ''), Txt op, Txt (lit '' response: ''), Repr resp]"

definition parse_int_field :: "pystr \<Rightarrow> pystr \<Rightarrow> pystr \<Rightarrow> int \<Rightarrow> int res" where
  "parse_int_field raw op resp min_value =
    (case py_int raw of
       None \<Rightarrow> Inl (bad_response op resp)
     | Some v \<Rightarrow>
         if v < min_value \<or> v > MAX_PROTOCOL_SECONDS then Inl (bad_response op resp) else Inr v)"

definition decode_token_lease :: "pystr \<Rightarrow> pystr \<Rightarrow> pystr \<Rightarrow> (pystr \<times> int) res" where
  "decode_token_lease resp status op =
    (let parts = py_split resp in
     if length parts \<noteq> 3 \<or> parts ! 0 \<noteq> status then Inl (bad_response op resp)
     else bindE (parse_int_field (parts ! 2) op resp 1) (\<lambda>n. Inr (parts ! 1, n)))"

definition decode_remaining :: "pystr \<Rightarrow> pystr \<Rightarrow> int res" where
  "decode_remaining resp op =
    (let parts = py_split resp in
     if length parts \<noteq> 2 \<or> parts ! 0 \<noteq> lit ''ok'' then Inl (bad_response op resp)
     else parse_int_field (parts ! 1) op resp 0)"

section \<open>Responses\<close>

definition parse_grant_response :: "pystr \<Rightarrow> pystr \<Rightarrow> (pystr \<times> int) res" where
  "parse_grant_response resp op =
    (if resp = lit ''timeout'' then raiseE DflockdTimeoutError [Txt (lit ''timeout in ''), Txt op]
     else if \<not> starts_with resp (lit ''ok '') then raise_status_error op resp
     else decode_token_lease resp (lit ''ok'') op)"

definition parse_renew_response :: "pystr \<Rightarrow> pystr \<Rightarrow> int res" where
  "parse_renew_response resp op =
    (if \<not> starts_with resp (lit ''ok'') then raise_status_error op resp
     else decode_remaining resp op)"

definition parse_enqueue_response ::
  "pystr \<Rightarrow> pystr \<Rightarrow> (pystr \<times> pystr option \<times> int option) res" where
  "parse_enqueue_response resp op =
    (if resp = lit ''queued'' then Inr (lit ''queued'', None, None)
     else if starts_with resp (lit ''acquired '') then
       bindE (decode_token_lease resp (lit ''acquired'') op)
         (\<lambda>(token, lease). Inr (lit ''acquired'', Some token, Some lease))
     else raise_status_error op resp)"

definition parse_release_response :: "pystr \<Rightarrow> pystr \<Rightarrow> unit res" where
  "parse_release_response resp op =
    (if resp \<noteq> lit ''ok'' then raise_status_error op resp else Inr ())"

definition parse_auth_response :: "pystr \<Rightarrow> unit res" where
  "parse_auth_response resp = (if resp \<noteq> lit ''ok'' then raise_auth_error resp else Inr ())"

section \<open>Stats\<close>

definition STATS_LIST_FIELDS :: "pystr list" where
  "STATS_LIST_FIELDS = [lit ''locks'', lit ''semaphores'', lit ''idle_locks'', lit ''idle_semaphores'']"

definition bad_stats :: "pystr \<Rightarrow> exn" where
  "bad_stats payload = Exn RuntimeError [Txt (lit ''bad stats response: ''), Repr payload]"

definition is_dict_list :: "pyval \<Rightarrow> bool" where
  "is_dict_list v = (case v of VList vs \<Rightarrow> \<not> list_ex (\<lambda>x. \<not> isinstance_dict x) vs | _ \<Rightarrow> False)"

definition validate_stats_result :: "pyval \<Rightarrow> pystr \<Rightarrow> pyval res" where
  "validate_stats_result decoded payload =
    seqE (raise_if (\<not> isinstance_dict decoded) (bad_stats payload))
    (let connections = dict_get decoded (lit ''connections'') in
     seqE (raise_if (isinstance_bool connections \<or> \<not> isinstance_int connections
                     \<or> int_val connections < 0) (bad_stats payload))
     (seqE (forE (\<lambda>field. raise_if (\<not> is_dict_list (dict_get decoded field)) (bad_stats payload))
              STATS_LIST_FIELDS)
       (Inr decoded)))"

definition decode_stats_json :: "(pystr \<Rightarrow> pyval res) \<Rightarrow> pystr \<Rightarrow> pyval res" where
  "decode_stats_json loads payload =
    (case loads payload of
       Inl e \<Rightarrow> if isinstance e JSONDecodeError then Inl (bad_stats payload) else Inl e
     | Inr decoded \<Rightarrow> validate_stats_result decoded payload)"

definition parse_stats_response :: "(pystr \<Rightarrow> pyval res) \<Rightarrow> pystr \<Rightarrow> pyval res" where
  "parse_stats_response loads resp =
    (if \<not> starts_with resp (lit ''ok '') then raise_status_error (lit ''stats'') resp
     else decode_stats_json loads (drop 3 resp))"

section \<open>Soundness: what an accepted line contains\<close>

lemma parse_int_field_iff:
  "parse_int_field raw op resp m = Inr n \<longleftrightarrow> py_int raw = Some n \<and> m \<le> n \<and> n \<le> MAX_PROTOCOL_SECONDS"
  by (auto simp: parse_int_field_def not_less split: option.splits)

lemma parse_int_field_error: "parse_int_field raw op resp m = Inl e \<Longrightarrow> e = bad_response op resp"
  by (auto simp: parse_int_field_def split: option.splits if_splits)

lemma list3_conv: "length xs = 3 \<and> xs ! 0 = a \<longleftrightarrow> (\<exists>b c. xs = [a, b, c])"
  by (auto simp: numeral_3_eq_3 length_Suc_conv)

lemma list2_conv: "length xs = 2 \<and> xs ! 0 = a \<longleftrightarrow> (\<exists>b. xs = [a, b])"
  by (auto simp: numeral_2_eq_2 length_Suc_conv)

lemma decode_token_lease_iff:
  "decode_token_lease resp status op = Inr (tok, n) \<longleftrightarrow>
    (\<exists>raw. py_split resp = [status, tok, raw] \<and> py_int raw = Some n \<and> 1 \<le> n \<and> n \<le> MAX_PROTOCOL_SECONDS)"
proof (cases "length (py_split resp) = 3 \<and> py_split resp ! 0 = status")
  case True
  then obtain b c where "py_split resp = [status, b, c]" unfolding list3_conv by blast
  then show ?thesis by (auto simp: decode_token_lease_def res_simps parse_int_field_iff)
next
  case False
  then show ?thesis by (auto simp: decode_token_lease_def)
qed

lemma decode_token_lease_error:
  "decode_token_lease resp status op = Inl e \<Longrightarrow> e = bad_response op resp"
  by (auto simp: decode_token_lease_def Let_def res_simps dest: parse_int_field_error split: if_splits)

lemma decode_remaining_iff:
  "decode_remaining resp op = Inr n \<longleftrightarrow>
    (\<exists>raw. py_split resp = [lit ''ok'', raw] \<and> py_int raw = Some n \<and> 0 \<le> n \<and> n \<le> MAX_PROTOCOL_SECONDS)"
proof (cases "length (py_split resp) = 2 \<and> py_split resp ! 0 = lit ''ok''")
  case True
  then obtain b where "py_split resp = [lit ''ok'', b]" unfolding list2_conv by blast
  then show ?thesis by (auto simp: decode_remaining_def parse_int_field_iff)
next
  case False
  then show ?thesis by (auto simp: decode_remaining_def)
qed

lemma decode_remaining_error: "decode_remaining resp op = Inl e \<Longrightarrow> e = bad_response op resp"
  by (auto simp: decode_remaining_def Let_def dest: parse_int_field_error split: if_splits)

lemma parse_grant_iff:
  "parse_grant_response resp op = Inr (tok, n) \<longleftrightarrow>
    starts_with resp (lit ''ok '') \<and>
    (\<exists>raw. py_split resp = [lit ''ok'', tok, raw] \<and> py_int raw = Some n \<and> 1 \<le> n \<and> n \<le> MAX_PROTOCOL_SECONDS)"
  by (auto simp: parse_grant_response_def decode_token_lease_iff raise_status_error_def starts_with_def)

lemma grant_token_field:
  "parse_grant_response resp op = Inr (tok, n) \<Longrightarrow> is_field tok"
  using py_split_fields [of tok resp] by (auto simp: parse_grant_iff)

lemma parse_renew_iff:
  "parse_renew_response resp op = Inr n \<longleftrightarrow>
    starts_with resp (lit ''ok'') \<and>
    (\<exists>raw. py_split resp = [lit ''ok'', raw] \<and> py_int raw = Some n \<and> 0 \<le> n \<and> n \<le> MAX_PROTOCOL_SECONDS)"
  by (auto simp: parse_renew_response_def decode_remaining_iff raise_status_error_def)

lemma parse_enqueue_cases:
  assumes "parse_enqueue_response resp op = Inr (status, tok, lease)"
  obtains "resp = lit ''queued''" "status = lit ''queued''" "tok = None" "lease = None"
  | t n raw where "status = lit ''acquired''" "tok = Some t" "lease = Some n"
      "py_split resp = [lit ''acquired'', t, raw]" "py_int raw = Some n" "1 \<le> n" "n \<le> MAX_PROTOCOL_SECONDS"
  using assms
  by (auto simp: parse_enqueue_response_def raise_status_error_def res_simps decode_token_lease_iff
      simp del: lit_Cons split: if_splits)

section \<open>Errors: which class every other line gives\<close>

lemma status_class_cases: "status_class resp = DflockdError \<or> base_class (status_class resp) = Some DflockdError"
  by (simp add: status_class_def STATUS_ERRORS_def del: lit_Cons)

lemma status_class_le: "status_class resp \<le> DflockdError"
  using status_class_cases [of resp] by (cases "status_class resp") (auto simp: subclass_simps)

lemma status_error_isinstance: "isinstance (status_error op resp) DflockdError"
  by (simp add: status_error_def status_class_le)

lemma parse_grant_error:
  assumes "parse_grant_response resp op = Inl e"
  shows "exn_class e =
    (if resp = lit ''timeout'' then DflockdTimeoutError
     else if \<not> starts_with resp (lit ''ok '') then status_class resp
     else RuntimeError)"
  using assms
  by (auto simp: parse_grant_response_def raise_status_error_def status_error_def bad_response_def
      simp del: lit_Cons dest!: decode_token_lease_error split: if_splits)

lemma parse_renew_error:
  assumes "parse_renew_response resp op = Inl e"
  shows "exn_class e = (if \<not> starts_with resp (lit ''ok'') then status_class resp else RuntimeError)"
  using assms
  by (auto simp: parse_renew_response_def raise_status_error_def status_error_def bad_response_def
      simp del: lit_Cons dest!: decode_remaining_error split: if_splits)

lemma parse_enqueue_error:
  assumes "parse_enqueue_response resp op = Inl e"
  shows "exn_class e = (if \<not> starts_with resp (lit ''acquired '') then status_class resp else RuntimeError)"
  using assms
  by (auto simp: parse_enqueue_response_def raise_status_error_def status_error_def bad_response_def
      res_simps simp del: lit_Cons dest!: decode_token_lease_error split: if_splits)

lemma parse_release_iff: "parse_release_response resp op = Inr u \<longleftrightarrow> resp = lit ''ok''"
  by (simp add: parse_release_response_def raise_status_error_def del: lit_Cons)

lemma parse_release_error: "parse_release_response resp op = Inl e \<Longrightarrow> e = status_error op resp"
  by (auto simp: parse_release_response_def raise_status_error_def split: if_splits)

lemma parse_auth_iff: "parse_auth_response resp = Inr u \<longleftrightarrow> resp = lit ''ok''"
  by (simp add: parse_auth_response_def raise_auth_error_def del: lit_Cons)

text \<open>A decoder of a server line never raises the exception that stands for a granted wait's timeout,
  except on the server's own \<open>timeout\<close> line.\<close>

lemma not_timeout_class:
  "\<not> status_class resp \<le> DflockdTimeoutError" "\<not> RuntimeError \<le> DflockdTimeoutError"
  using status_class_cases [of resp]
  by (cases "status_class resp"; auto simp: subclass_simps)+

end
