(* ===== verification/Fencing.thy ===== *)
theory Fencing
  imports Encoders
begin

text \<open>
  \<open>fence_from_token\<close> and \<open>token_for_log\<close> of \<open>_protocol.py\<close>: the 64-bit fence prefix of a grant token
  and the redacted label for logs.  The lemmas show that the fence is the number the server printed,
  that it stays below \<open>2 ^ 64\<close>, and that it orders lower-case tokens as their text does.
\<close>

section \<open>Definitions\<close>

definition hex_val :: "nat \<Rightarrow> nat option" where
  "hex_val c =
    (if 0x30 \<le> c \<and> c \<le> 0x39 then Some (c - 0x30)
     else if 0x61 \<le> c \<and> c \<le> 0x66 then Some (c - 0x61 + 10)
     else if 0x41 \<le> c \<and> c \<le> 0x46 then Some (c - 0x41 + 10)
     else None)"

definition FENCE_TOKEN_RE :: "pystr \<Rightarrow> bool" where
  "FENCE_TOKEN_RE s \<longleftrightarrow> length s = 32 \<and> list_all (\<lambda>c. hex_val c \<noteq> None) s"

text \<open>\<^verbatim>\<open>int(s, 16)\<close> on hexadecimal digits\<close>

definition hex_nat :: "pystr \<Rightarrow> nat" where
  "hex_nat s = fold (\<lambda>c n. n * 16 + (case hex_val c of None \<Rightarrow> 0 | Some d \<Rightarrow> d)) s 0"

definition fence_from_token :: "pystr \<Rightarrow> int res" where
  "fence_from_token token =
    seqE (raise_if (length token \<noteq> 32)
           (Exn ValueError [Txt (lit ''token must be 32 hex characters, got ''), Num (int (length token))]))
    (seqE (raise_if (\<not> FENCE_TOKEN_RE token)
           (Exn ValueError [Txt (lit ''token is not hexadecimal: ''), Repr token]))
      (Inr (int (hex_nat (take 16 token)))))"

definition token_for_log :: "pystr option \<Rightarrow> pystr" where
  "token_for_log token =
    (case token of
       None \<Rightarrow> lit ''<none>''
     | Some t \<Rightarrow> if length t \<le> 8 then lit ''<redacted>'' else take 8 t @ lit ''...'')"

section \<open>The fence is the number the server printed\<close>

text \<open>The server's side: \<open>k\<close> lower-case hexadecimal digits of \<open>n\<close>, most significant first.\<close>

definition hex_char :: "nat \<Rightarrow> nat" where
  "hex_char d = (if d < 10 then 0x30 + d else 0x61 + (d - 10))"

fun hex_text :: "nat \<Rightarrow> nat \<Rightarrow> pystr" where
  "hex_text 0 n = []"
| "hex_text (Suc k) n = hex_text k (n div 16) @ [hex_char (n mod 16)]"

lemma hex_text_numeral [simp]:
  "hex_text (numeral k) n = hex_text (pred_numeral k) (n div 16) @ [hex_char (n mod 16)]"
  by (simp only: numeral_eq_Suc [of k] hex_text.simps)

lemma hex_val_char [simp]: "d < 16 \<Longrightarrow> hex_val (hex_char d) = Some d"
  by (auto simp: hex_val_def hex_char_def)

lemma hex_val_lt: "hex_val c = Some d \<Longrightarrow> d < 16"
  by (auto simp: hex_val_def split: if_splits)

lemma hex_nat_snoc:
  "hex_nat (s @ [c]) = hex_nat s * 16 + (case hex_val c of None \<Rightarrow> 0 | Some d \<Rightarrow> d)"
  by (simp add: hex_nat_def)

lemma length_hex_text [simp]: "length (hex_text k n) = k"
  by (induction k arbitrary: n) auto

lemma hex_text_digits: "list_all (\<lambda>c. hex_val c \<noteq> None) (hex_text k n)"
  by (induction k arbitrary: n) auto

lemma hex_nat_text: "n < 16 ^ k \<Longrightarrow> hex_nat (hex_text k n) = n"
proof (induction k arbitrary: n)
  case 0
  then show ?case by (simp add: hex_nat_def)
next
  case (Suc k)
  then have "n div 16 < 16 ^ k" by auto
  then show ?case by (simp add: hex_nat_snoc Suc.IH)
qed

lemma hex_nat_bound: "hex_nat s < 16 ^ length s"
proof (induction s rule: rev_induct)
  case (snoc c s)
  have "(case hex_val c of None \<Rightarrow> 0 | Some d \<Rightarrow> d) < 16"
    by (auto dest: hex_val_lt split: option.splits)
  with snoc show ?case by (simp add: hex_nat_snoc)
qed (simp add: hex_nat_def)

lemma fence_from_token_iff:
  "fence_from_token token = Inr f \<longleftrightarrow> FENCE_TOKEN_RE token \<and> f = int (hex_nat (take 16 token))"
  by (auto simp: fence_from_token_def res_simps FENCE_TOKEN_RE_def)

section \<open>Order\<close>

text \<open>A lower-case hexadecimal digit, as the server prints them.\<close>

definition lower_hex :: "nat \<Rightarrow> bool" where
  "lower_hex c \<longleftrightarrow> (0x30 \<le> c \<and> c \<le> 0x39) \<or> (0x61 \<le> c \<and> c \<le> 0x66)"

lemma lower_hexE:
  assumes "lower_hex c"
  obtains d where "d < 16" "c = hex_char d"
proof
  define d where "d = (if c \<le> 0x39 then c - 0x30 else c - 0x61 + 10)"
  show "d < 16" "c = hex_char d"
    using assms by (auto simp: lower_hex_def hex_char_def d_def)
qed

lemma hex_char_less: "d < 16 \<Longrightarrow> e < 16 \<Longrightarrow> hex_char d < hex_char e \<longleftrightarrow> d < e"
  by (auto simp: hex_char_def)

lemma hex_nat_Cons:
  "hex_nat (c # s) = (case hex_val c of None \<Rightarrow> 0 | Some d \<Rightarrow> d) * 16 ^ length s + hex_nat s"
proof (induction s rule: rev_induct)
  case (snoc x s)
  then show ?case using hex_nat_snoc [of "c # s" x] by (simp add: hex_nat_snoc algebra_simps)
qed (simp add: hex_nat_def)

lemma hex_nat_less_iff:
  "length s = length t \<Longrightarrow> list_all lower_hex s \<Longrightarrow> list_all lower_hex t \<Longrightarrow>
    hex_nat s < hex_nat t \<longleftrightarrow> ord_class.lexordp s t"
proof (induction s t rule: list_induct2)
  case (Cons c s e t)
  from Cons.prems obtain a b where a: "a < 16" "c = hex_char a" and b: "b < 16" "e = hex_char b"
    by (auto elim!: lower_hexE)
  have bound: "hex_nat s < 16 ^ length s" "hex_nat t < 16 ^ length s"
    using hex_nat_bound [of s] hex_nat_bound [of t] Cons.hyps by auto
  have nat: "hex_nat (c # s) = a * 16 ^ length s + hex_nat s"
    "hex_nat (e # t) = b * 16 ^ length s + hex_nat t"
    using a b Cons.hyps by (simp_all add: hex_nat_Cons)
  consider "a < b" | "a = b" | "b < a" by linarith
  then show ?case
  proof cases
    case 1
    then have "(a + 1) * 16 ^ length s \<le> b * 16 ^ length s" by (intro mult_right_mono) auto
    with bound nat have "hex_nat (c # s) < hex_nat (e # t)" by (simp add: algebra_simps)
    with 1 a b show ?thesis by (simp add: hex_char_less)
  next
    case 2
    with a b nat Cons show ?thesis by simp
  next
    case 3
    then have "(b + 1) * 16 ^ length s \<le> a * 16 ^ length s" by (intro mult_right_mono) auto
    with bound nat have "hex_nat (e # t) < hex_nat (c # s)" by (simp add: algebra_simps)
    with 3 a b show ?thesis
      using hex_char_less [of a b] hex_char_less [of b a] by auto
  qed
qed simp

end
