(* ===== verification/Sharding.thy ===== *)
theory Sharding
  imports Validators
begin

unbundle bit_operations_syntax

text \<open>
  \<open>sharding.py\<close>: the checks of server endpoints and of a strategy's index, and the CRC-32 strategy.
  \<open>zlib.crc32\<close> is the reflected CRC with polynomial \<open>0xEDB88320\<close>, computed bit by bit on 32-bit words.
  The lemmas show that the default strategy always yields an index the check accepts.
\<close>

definition MAX_TCP_PORT :: int where "MAX_TCP_PORT = 65535"

definition DEFAULT_SERVERS :: pyval where
  "DEFAULT_SERVERS = VTuple [VTuple [VStr (lit ''127.0.0.1''), VInt 6388]]"

section \<open>Endpoints\<close>

definition str_val :: "pyval \<Rightarrow> pystr" where
  "str_val v = (case v of VStr s \<Rightarrow> s | _ \<Rightarrow> [])"

definition validate_server_endpoint :: "pyval \<Rightarrow> pyval \<Rightarrow> (pystr \<times> int) res" where
  "validate_server_endpoint host port =
    seqE (raise_if (\<not> isinstance_str host)
           (Exn BuiltinTypeError [Txt (lit ''server host must be a string'')]))
    (seqE (raise_if (str_val host = []) (Exn ValueError [Txt (lit ''server host must not be empty'')]))
    (seqE (raise_if (list_ex (\<lambda>c. List.member (str_val host) c) [0x20, 0x09, 0x0A, 0x0D])
           (Exn ValueError [Txt (lit ''server host must not contain whitespace'')]))
    (seqE (raise_if (isinstance_bool port \<or> \<not> isinstance_int port)
           (Exn BuiltinTypeError [Txt (lit ''server port must be an integer'')]))
    (seqE (raise_if (\<not> (0 < int_val port \<and> int_val port \<le> MAX_TCP_PORT))
           (Exn ValueError [Txt (lit ''server port must be between 1 and ''), Num MAX_TCP_PORT]))
      (Inr (str_val host, int_val port))))))"

definition seq_items :: "pyval \<Rightarrow> pyval list option" where
  "seq_items v = (case v of VList xs \<Rightarrow> Some xs | VTuple xs \<Rightarrow> Some xs | _ \<Rightarrow> None)"

definition validate_server :: "pyval \<Rightarrow> unit res" where
  "validate_server server =
    (case server of
       VTuple [host, port] \<Rightarrow> bindE (validate_server_endpoint host port) (\<lambda>_. Inr ())
     | _ \<Rightarrow> raiseE BuiltinTypeError [Txt (lit ''servers must contain (host, port) tuples'')])"

definition validate_servers :: "pyval \<Rightarrow> unit res" where
  "validate_servers servers =
    (case seq_items servers of
       None \<Rightarrow> raiseE ValueError [Txt (lit ''servers must be a non-empty list or tuple'')]
     | Some xs \<Rightarrow>
         seqE (raise_if (xs = [])
                (Exn ValueError [Txt (lit ''servers must be a non-empty list or tuple'')]))
           (forE validate_server xs))"

definition validate_shard_index :: "pyval \<Rightarrow> int \<Rightarrow> int res" where
  "validate_shard_index index num_servers =
    seqE (raise_if (isinstance_bool index \<or> \<not> isinstance_int index)
           (Exn BuiltinTypeError [Txt (lit ''sharding_strategy must return an integer index'')]))
    (if \<not> (0 \<le> int_val index \<and> int_val index < num_servers)
     then bindE (py_str_int (int_val index)) (\<lambda>t.
       raiseE IndexError [Txt (lit ''sharding_strategy returned index ''), Txt t,
         Txt (lit '', but there are ''), Num num_servers, Txt (lit '' servers'')])
     else Inr (int_val index))"

section \<open>CRC-32\<close>

type_synonym u32 = "32 word"

definition crc_bit :: "u32 \<Rightarrow> u32" where
  "crc_bit c = (if bit c 0 then drop_bit 1 c XOR 0xEDB88320 else drop_bit 1 c)"

definition crc_byte :: "byte \<Rightarrow> u32 \<Rightarrow> u32" where
  "crc_byte b c = (crc_bit ^^ 8) (c XOR ucast b)"

definition crc32 :: "byte list \<Rightarrow> u32" where
  "crc32 bs = NOT (fold crc_byte bs (NOT 0))"

definition stable_hash_shard :: "pystr \<Rightarrow> int \<Rightarrow> pyval res" where
  "stable_hash_shard key num_servers =
    seqE (raise_if (num_servers \<le> 0) (Exn ValueError [Txt (lit ''num_servers must be > 0'')]))
      (bindE (utf8_encode key) (\<lambda>bs. Inr (VInt (uint (crc32 bs) mod num_servers))))"

section \<open>What the checks accept\<close>

lemma validate_server_endpoint_iff [validator_iff]:
  "validate_server_endpoint host port = Inr (h, p) \<longleftrightarrow>
    host = VStr h \<and> port = VInt p \<and> h \<noteq> [] \<and> set h \<inter> {0x20, 0x09, 0x0A, 0x0D} = {} \<and> 0 < p \<and> p \<le> MAX_TCP_PORT"
  unfolding validate_server_endpoint_def res_simps strict_int_iff not_not is_str_iff
  by (auto simp: str_val_def int_val_def)

lemma validate_server_iff:
  "validate_server s = Inr u \<longleftrightarrow> (\<exists>h p. s = VTuple [VStr h, VInt p] \<and>
     validate_server_endpoint (VStr h) (VInt p) = Inr (h, p))"
  by (auto simp: validate_server_def res_simps validator_iff split: pyval.splits list.splits)

lemma validate_servers_iff [validator_iff]:
  "validate_servers servers = Inr u \<longleftrightarrow>
    (\<exists>xs. seq_items servers = Some xs \<and> xs \<noteq> [] \<and> (\<forall>s \<in> set xs. validate_server s = Inr ()))"
  by (auto simp: validate_servers_def res_simps split: option.splits)

lemma validate_shard_index_iff [validator_iff]:
  "validate_shard_index index n = Inr i \<longleftrightarrow> index = VInt i \<and> 0 \<le> i \<and> i < n"
  by (cases index) (auto simp: validate_shard_index_def res_simps class_tests int_val_def)

lemma validate_shard_index_error:
  "validate_shard_index index n = Inl e \<Longrightarrow>
    exn_class e = (case index of
      VInt i \<Rightarrow> if okE (py_str_int i) then IndexError else ValueError | _ \<Rightarrow> BuiltinTypeError)"
  by (cases index)
    (auto simp: validate_shard_index_def res_simps class_tests int_val_def py_str_int_def
      split: if_splits)

lemma stable_hash_shard_index:
  "0 < n \<Longrightarrow> encodable key \<Longrightarrow>
    \<exists>i. stable_hash_shard key n = Inr (VInt i) \<and> validate_shard_index (VInt i) n = Inr i"
  by (auto simp: stable_hash_shard_def utf8_encode_def encodable_def validator_iff)

text \<open>The published check value of CRC-32, shared with the Go and TypeScript clients.\<close>

lemma crc_byte_unfold:
  "crc_byte b c = crc_bit (crc_bit (crc_bit (crc_bit (crc_bit (crc_bit (crc_bit (crc_bit (c XOR ucast b))))))))"
  by (simp add: crc_byte_def eval_nat_numeral)

lemma crc32_check_value: "crc32 (map byte_of (lit ''123456789'')) = 0xCBF43926"
proof -
  note step = crc_byte_unfold crc_bit_def
  have c0: "crc_byte 0x31 (- 1) = 0x7C231048" by (simp add: step)
  have c1: "crc_byte 0x32 0x7C231048 = 0xB0ACBB32" by (simp add: step)
  have c2: "crc_byte 0x33 0xB0ACBB32 = 0x77B79C2D" by (simp add: step)
  have c3: "crc_byte 0x34 0x77B79C2D = 0x641C1F5C" by (simp add: step)
  have c4: "crc_byte 0x35 0x641C1F5C = 0x340AC5E3" by (simp add: step)
  have c5: "crc_byte 0x36 0x340AC5E3 = 0xF68D2C9E" by (simp add: step)
  have c6: "crc_byte 0x37 0xF68D2C9E = 0xAFFC9660" by (simp add: step)
  have c7: "crc_byte 0x38 0xAFFC9660 = 0x651F2550" by (simp add: step)
  have c8: "crc_byte 0x39 0x651F2550 = 0x340BC6D9" by (simp add: step)
  show ?thesis by (simp add: crc32_def byte_of_def c0 c1 c2 c3 c4 c5 c6 c7 c8)
qed

end
