(* ===== verification/Py_Float.thy ===== *)
theory Py_Float
  imports Py_Values "HOL-Library.Log_Nat"
begin

text \<open>
  The double-precision arithmetic the client uses: sums of a timeout and the I/O slack, and the
  product of a lease and the renew ratio.  A finite double is the rational it stands for, and \<open>fl\<close>
  rounds a rational to the nearest double, ties to even, with a 53-bit significand (gradual underflow
  below \<open>2 powi (-1022)\<close>; the values here stay far below the overflow threshold).  Two facts
  matter to the components: rounding never crosses an integer below \<open>2 ^ 53\<close>, and the product of such an
  integer, from two on, and a double below one stays below the integer.
\<close>

definition round_half_even :: "rat \<Rightarrow> int" where
  "round_half_even x =
    (let n = \<lfloor>x\<rfloor>; d = x - of_int n
     in if d < 1 / 2 then n else if 1 / 2 < d then n + 1 else if even n then n else n + 1)"

text \<open>The exponent \<open>e\<close> with \<open>2 powi e \<le> x < 2 powi (e + 1)\<close>, for a positive \<open>x\<close>.\<close>

definition fl_exp :: "rat \<Rightarrow> int" where
  "fl_exp x = (if 1 \<le> x then bitlen \<lfloor>x\<rfloor> - 1 else - bitlen (\<lceil>1 / x\<rceil> - 1))"

definition fl_ulp :: "rat \<Rightarrow> rat" where
  "fl_ulp x = 2 powi (max (fl_exp x) (- 1022) - 52)"

definition fl :: "rat \<Rightarrow> rat" where
  "fl x =
    (if x = 0 then 0
     else if 0 < x then of_int (round_half_even (x / fl_ulp x)) * fl_ulp x
     else - (of_int (round_half_even (- x / fl_ulp (- x))) * fl_ulp (- x)))"

text \<open>Float addition and multiplication; an integer operand is converted (rounded) first.\<close>

definition fl_add :: "rat \<Rightarrow> rat \<Rightarrow> rat" where
  "fl_add x y = fl (fl x + fl y)"

definition fl_mult :: "rat \<Rightarrow> rat \<Rightarrow> rat" where
  "fl_mult x y = fl (fl x * fl y)"

section \<open>Rounding to the nearest integer\<close>

lemma round_half_even_le: "x \<le> of_int n \<Longrightarrow> round_half_even x \<le> n"
proof -
  assume x: "x \<le> of_int n"
  then have fl_le: "\<lfloor>x\<rfloor> \<le> n" by linarith
  show ?thesis
  proof (cases "\<lfloor>x\<rfloor> = n")
    case True
    with x have "x - of_int \<lfloor>x\<rfloor> = 0" by linarith
    with True show ?thesis by (simp add: round_half_even_def)
  next
    case False
    with fl_le show ?thesis by (auto simp: round_half_even_def Let_def)
  qed
qed

lemma round_half_even_ge: "of_int n \<le> x \<Longrightarrow> n \<le> round_half_even x"
proof -
  assume "of_int n \<le> x"
  then have "n \<le> \<lfloor>x\<rfloor>" by linarith
  then show ?thesis by (auto simp: round_half_even_def Let_def)
qed

section \<open>Rounding never crosses a small integer\<close>

lemma fl_ulp_pos: "0 < fl_ulp x"
  by (simp add: fl_ulp_def)

lemma fl_exp_below:
  assumes "0 < x" "x < 2 ^ k" "0 < k"
  shows "fl_exp x \<le> int k - 1"
proof (cases "1 \<le> x")
  case True
  then have pos: "0 < \<lfloor>x\<rfloor>" by simp
  have "bitlen \<lfloor>x\<rfloor> \<le> int k"
  proof (rule ccontr)
    assume "\<not> bitlen \<lfloor>x\<rfloor> \<le> int k"
    then have "k \<le> nat (bitlen \<lfloor>x\<rfloor> - 1)" by simp
    then have "(2 :: int) ^ k \<le> 2 ^ nat (bitlen \<lfloor>x\<rfloor> - 1)" by (intro power_increasing) simp_all
    also have "\<dots> \<le> \<lfloor>x\<rfloor>" using bitlen_bounds [OF pos] by simp
    finally have "of_int (2 ^ k) \<le> x" by (simp only: le_floor_iff)
    with assms(2) show False by simp
  qed
  with True show ?thesis by (simp add: fl_exp_def)
next
  case False
  then show ?thesis using bitlen_nonneg [of "\<lceil>1 / x\<rceil> - 1"] assms(3) by (simp add: fl_exp_def)
qed

lemma fl_exp_small: "0 < x \<Longrightarrow> x < 2 ^ 53 \<Longrightarrow> fl_exp x \<le> 52"
  using fl_exp_below [of x 53] by simp

text \<open>Below \<open>2 ^ 64\<close> the rounding error is at most half of \<open>2 ^ 11\<close>.\<close>

lemma round_half_even_error: "\<bar>of_int (round_half_even x) - x\<bar> \<le> 1 / 2"
proof -
  have "of_int \<lfloor>x\<rfloor> \<le> x" "x < of_int \<lfloor>x\<rfloor> + 1" by linarith+
  then show ?thesis unfolding round_half_even_def Let_def by (auto simp: abs_le_iff)
qed

lemma fl_error:
  assumes "0 < x" "x < 2 ^ 64"
  shows "\<bar>fl x - x\<bar> \<le> 1024"
proof -
  have e: "max (fl_exp x) (- 1022) - 52 \<le> 11" using fl_exp_below [of x 64] assms by simp
  have "fl_ulp x \<le> 2 powi 11"
    unfolding fl_ulp_def by (intro power_int_increasing e) simp
  then have u: "0 < fl_ulp x" "fl_ulp x \<le> 2048" by (simp_all add: fl_ulp_pos)
  define y where "y = x / fl_ulp x"
  have "fl x - x = (of_int (round_half_even y) - y) * fl_ulp x"
    using u(1) assms(1) by (simp add: fl_def y_def left_diff_distrib)
  then have "\<bar>fl x - x\<bar> = \<bar>of_int (round_half_even y) - y\<bar> * fl_ulp x"
    using u(1) by (simp add: abs_mult)
  also have "\<dots> \<le> (1 / 2) * 2048"
    using round_half_even_error [of y] u by (intro mult_mono) simp_all
  finally show ?thesis by simp
qed

text \<open>The spacing of the doubles below \<open>2 ^ 53\<close> divides one.\<close>

lemma inverse_ulp:
  assumes "0 < x" "x < 2 ^ 53"
  obtains k :: nat where "1 / fl_ulp x = of_int (2 ^ k)"
proof
  define m where "m = max (fl_exp x) (- 1022) - 52"
  have "m \<le> 0" using fl_exp_small [OF assms] by (simp add: m_def)
  then have "(2 :: rat) powi m = inverse (2 ^ nat (- m))"
    by (cases "m = 0") (auto simp: power_int_def power_inverse [symmetric] simp del: power_inverse)
  then show "1 / fl_ulp x = of_int (2 ^ nat (- m))"
    by (simp add: fl_ulp_def m_def divide_inverse)
qed

lemma fl_le_int:
  assumes "0 < x" "x < 2 ^ 53" "x \<le> of_int n"
  shows "fl x \<le> of_int n"
proof -
  from assms(1,2) obtain k where k: "1 / fl_ulp x = of_int (2 ^ k)" by (rule inverse_ulp)
  have "x / fl_ulp x \<le> of_int n * (1 / fl_ulp x)"
    using assms(3) fl_ulp_pos [of x] by (simp add: divide_right_mono)
  also have "\<dots> = of_int (n * 2 ^ k)" unfolding k by simp
  finally have "round_half_even (x / fl_ulp x) \<le> n * 2 ^ k" by (rule round_half_even_le)
  then have "of_int (round_half_even (x / fl_ulp x)) \<le> (of_int (n * 2 ^ k) :: rat)"
    by (simp only: of_int_le_iff)
  also have "\<dots> = of_int n * (1 / fl_ulp x)" unfolding k by simp
  finally have "of_int (round_half_even (x / fl_ulp x)) * fl_ulp x \<le> of_int n"
    using fl_ulp_pos [of x] by (simp add: pos_le_divide_eq)
  with assms(1) show ?thesis by (simp add: fl_def)
qed

lemma fl_ge_int:
  assumes "0 < x" "x < 2 ^ 53" "of_int n \<le> x"
  shows "of_int n \<le> fl x"
proof -
  from assms(1,2) obtain k where k: "1 / fl_ulp x = of_int (2 ^ k)" by (rule inverse_ulp)
  have "of_int (n * 2 ^ k) = of_int n * (1 / fl_ulp x)" unfolding k by simp
  also have "\<dots> \<le> x / fl_ulp x"
    using assms(3) fl_ulp_pos [of x] by (simp add: divide_right_mono)
  finally have "n * 2 ^ k \<le> round_half_even (x / fl_ulp x)" by (rule round_half_even_ge)
  then have "(of_int (n * 2 ^ k) :: rat) \<le> of_int (round_half_even (x / fl_ulp x))"
    by (simp only: of_int_le_iff)
  moreover have "(of_int (n * 2 ^ k) :: rat) = of_int n * (1 / fl_ulp x)" unfolding k by simp
  ultimately have "of_int n \<le> of_int (round_half_even (x / fl_ulp x)) * fl_ulp x"
    using fl_ulp_pos [of x] by (simp add: pos_divide_le_eq)
  with assms(1) show ?thesis by (simp add: fl_def)
qed

lemma fl_0 [simp]: "fl 0 = 0"
  by (simp add: fl_def)

lemma fl_int: "0 \<le> n \<Longrightarrow> n < 2 ^ 53 \<Longrightarrow> fl (of_int n) = of_int n"
proof (cases "n = 0")
  case False
  assume "0 \<le> n" "n < 2 ^ 53"
  moreover have "(of_int n :: rat) < 2 ^ 53 \<longleftrightarrow> n < 2 ^ 53"
    using of_int_less_iff [where ?'a = rat, of n "2 ^ 53"] by simp
  ultimately show ?thesis
    using False fl_le_int [of "of_int n" n] fl_ge_int [of "of_int n" n] by simp
qed simp

lemma fl_nonneg: "0 \<le> x \<Longrightarrow> x < 2 ^ 53 \<Longrightarrow> 0 \<le> fl x"
  using fl_ge_int [of x 0] by (cases "x = 0") auto

text \<open>Rounding a number between two integers stays between them.\<close>

lemma fl_between:
  assumes "of_int m \<le> x" "x \<le> of_int n" "0 \<le> m" "n < 2 ^ 53"
  shows "of_int m \<le> fl x \<and> fl x \<le> of_int n"
proof (cases "x = 0")
  case False
  have "(of_int n :: rat) < 2 ^ 53"
    using assms(4) of_int_less_iff [where ?'a = rat, of n "2 ^ 53"] by simp
  moreover have "0 < x" using False assms(1,3) by (metis le_less_trans less_le of_int_0_le_iff order_refl)
  ultimately show ?thesis
    using assms fl_le_int [of x n] fl_ge_int [of x m] by (auto intro: le_less_trans)
qed (use assms in auto)

section \<open>A product with a double below one\<close>

lemma double_below_one:
  assumes "1 / 2 \<le> q" "q < 1" "fl q = q"
  shows "q \<le> 1 - 1 / 2 ^ 53"
proof -
  have "1 < 1 / q" "1 / q \<le> 2" using assms by (simp_all add: pos_le_divide_eq pos_divide_le_eq divide_simps)
  then have "\<lceil>1 / q\<rceil> = 2" by (simp add: ceiling_eq_iff)
  then have "fl_exp q = - 1" using assms(2) by (simp add: fl_exp_def bitlen_def floorlog_def)
  then have u: "fl_ulp q = 1 / 2 ^ 53"
    by (simp add: fl_ulp_def power_int_def power_one_over)
  have "fl q = of_int (round_half_even (q / fl_ulp q)) * fl_ulp q" using assms(1) by (simp add: fl_def)
  then have "of_int (round_half_even (q * 2 ^ 53)) = q * 2 ^ 53"
    unfolding assms(3) u by (simp add: field_simps)
  moreover from this assms(2) have "of_int (round_half_even (q * 2 ^ 53)) < (of_int (2 ^ 53) :: rat)" by simp
  then have "of_int (round_half_even (q * 2 ^ 53)) \<le> (of_int (2 ^ 53 - 1) :: rat)"
    unfolding of_int_less_iff of_int_le_iff by simp
  ultimately show ?thesis by simp
qed

lemma fl_ulp_le:
  assumes "1 \<le> x"
  shows "2 ^ 52 * fl_ulp x \<le> of_int \<lfloor>x\<rfloor>"
proof -
  have pos: "0 < \<lfloor>x\<rfloor>" using assms by simp
  have "1 \<le> bitlen \<lfloor>x\<rfloor>" using pos by (metis bitlen_le_iff_power bitlen_nonneg less_le int_one_le_iff_zero_less bitlen_eq_zero_iff not_less)
  then obtain k where k: "bitlen \<lfloor>x\<rfloor> - 1 = int k" by (metis diff_ge_0_iff_ge nonneg_int_cases)
  have "2 ^ 52 * fl_ulp x = 2 powi (bitlen \<lfloor>x\<rfloor> - 1)"
    using assms k by (simp add: fl_ulp_def fl_exp_def power_int_diff)
  also have "\<dots> = of_int (2 ^ k)" by (simp add: k)
  also have "\<dots> \<le> of_int \<lfloor>x\<rfloor>" using bitlen_bounds [OF pos] k by (simp only: of_int_le_iff) simp
  finally show ?thesis .
qed

lemma fl_mult_less:
  assumes n: "2 \<le> n" "n < 2 ^ 53" and q: "0 < q" "q < 1" "fl q = q"
  shows "fl (of_int n * q) < of_int n"
proof (cases "q < 1 / 2")
  case True
  have "of_int n * q \<le> of_int n / 2" using True n(1) by simp
  also have "of_int n / 2 \<le> (of_int (n - 1) :: rat)" using n(1) by simp
  finally have x: "of_int n * q \<le> of_int (n - 1)" .
  have "0 < of_int n * q" using n(1) q(1) by simp
  moreover have "of_int n * q < 2 ^ 53"
    using x n(2) of_int_less_iff [where ?'a = rat, of n "2 ^ 53"] by simp
  ultimately show ?thesis using fl_le_int [OF _ _ x] by simp
next
  case False
  define x where "x = of_int n * q"
  have gap: "of_int n / 2 ^ 53 \<le> of_int n - x"
    using double_below_one [OF _ q(2,3)] False n(1) by (simp add: x_def field_simps)
  have "2 * (1 / 2) \<le> of_int n * q" using False n(1) by (intro mult_mono) simp_all
  then have x: "1 \<le> x" "x < of_int n" using n(1) q(2) by (simp_all add: x_def)
  have "\<lfloor>x\<rfloor> < n" using x(2) by (simp add: floor_less_iff)
  have u: "0 < fl_ulp x" "2 ^ 52 * fl_ulp x < of_int n"
    using fl_ulp_le [OF x(1)] \<open>\<lfloor>x\<rfloor> < n\<close> of_int_less_iff [where ?'a = rat, of "\<lfloor>x\<rfloor>" n]
    by (simp_all add: fl_ulp_pos)
  have "fl x - x = (of_int (round_half_even (x / fl_ulp x)) - x / fl_ulp x) * fl_ulp x"
    using u(1) x(1) by (simp add: fl_def left_diff_distrib)
  also have "\<dots> \<le> (1 / 2) * fl_ulp x"
    by (rule mult_right_mono [OF abs_le_D1 [OF round_half_even_error] less_imp_le [OF u(1)]])
  also have "\<dots> < of_int n / 2 ^ 53" using u(2) by simp
  also have "\<dots> \<le> of_int n - x" by (rule gap)
  finally show ?thesis by (simp add: x_def)
qed

end
