(* ===== verification/Client_Config.thy ===== *)
theory Client_Config
  imports Sharding Py_Float
begin

text \<open>
  The configuration of a \<open>DistributedLock\<close> or \<open>DistributedSemaphore\<close> (the dataclass fields both
  clients share), its checks at construction, the choice of a server, and the renewal interval.
\<close>

datatype kind = LockKind | SemaphoreKind pyval

record config =
  cf_key :: pystr
  cf_acquire_timeout_s :: pyval
  cf_lease_ttl_s :: pyval
  cf_servers :: pyval
  cf_sharding_strategy :: "pystr \<Rightarrow> int \<Rightarrow> pyval res"
  cf_renew_ratio :: pyval
  cf_ssl_context :: bool
  cf_auth_token :: "pystr option"
  cf_connect_timeout_s :: pyval
  cf_kind :: kind

section \<open>Construction\<close>

definition validate_renew_ratio :: "pyval \<Rightarrow> unit res" where
  "validate_renew_ratio ratio =
    seqE (raise_if (\<not> is_number ratio) (Exn BuiltinTypeError [Txt (lit ''not supported between instances'')]))
      (raise_if (\<not> (num_greater ratio 0 \<and> num_less ratio 1))
        (Exn ValueError [Txt (lit ''renew_ratio must be between 0 and 1 (exclusive)'')]))"

definition base_post_init :: "config \<Rightarrow> unit res" where
  "base_post_init cfg =
    seqE (validate_key (lit ''key'') (cf_key cfg))
    (seqE (validate_timeout_s (lit ''acquire_timeout_s'') (cf_acquire_timeout_s cfg))
    (seqE (validate_lease_ttl_s (cf_lease_ttl_s cfg))
    (seqE (validate_connect_timeout_s (cf_connect_timeout_s cfg))
    (seqE (validate_servers (cf_servers cfg))
      (validate_renew_ratio (cf_renew_ratio cfg))))))"

definition post_init :: "config \<Rightarrow> unit res" where
  "post_init cfg =
    (case cf_kind cfg of
       LockKind \<Rightarrow> base_post_init cfg
     | SemaphoreKind limit \<Rightarrow> seqE (validate_semaphore_limit limit) (base_post_init cfg))"

text \<open>The dataclass defaults.\<close>

definition default_config :: "pystr \<Rightarrow> config" where
  "default_config key =
    \<lparr>cf_key = key, cf_acquire_timeout_s = VInt 10, cf_lease_ttl_s = VNone,
     cf_servers = VList [VTuple [VStr (lit ''127.0.0.1''), VInt 6388]],
     cf_sharding_strategy = stable_hash_shard, cf_renew_ratio = VFloat (Fin (1 / 2)),
     cf_ssl_context = False, cf_auth_token = None, cf_connect_timeout_s = VFloat (Fin 10),
     cf_kind = LockKind\<rparr>"

section \<open>Server choice\<close>

text \<open>\<^verbatim>\<open>host, port = server\<close>\<close>

definition unpack_pair :: "pyval \<Rightarrow> (pyval \<times> pyval) res" where
  "unpack_pair v =
    (case v of
       VTuple [host, port] \<Rightarrow> Inr (host, port)
     | _ \<Rightarrow> raiseE BuiltinTypeError [Txt (lit ''cannot unpack'')])"

definition pick_server :: "config \<Rightarrow> (pyval \<times> pyval) res" where
  "pick_server cfg =
    (case seq_items (cf_servers cfg) of
       None \<Rightarrow> raiseE BuiltinTypeError [Txt (lit ''object has no len()'')]
     | Some servers \<Rightarrow>
         bindE (cf_sharding_strategy cfg (cf_key cfg) (int (length servers))) (\<lambda>index.
         bindE (validate_shard_index index (int (length servers))) (\<lambda>idx.
         unpack_pair (servers ! nat idx))))"

section \<open>Renewal interval\<close>

definition DEFAULT_LEASE_FALLBACK_S :: int where "DEFAULT_LEASE_FALLBACK_S = 30"

definition renew_interval :: "int \<Rightarrow> rat \<Rightarrow> rat" where
  "renew_interval lease_s ratio =
    (let lease = (if lease_s > 0 then lease_s else DEFAULT_LEASE_FALLBACK_S)
     in max 1 (fl_mult (of_int lease) ratio))"

section \<open>Lemmas\<close>

lemma validate_renew_ratio_iff [validator_iff]:
  "validate_renew_ratio v = Inr u \<longleftrightarrow> (\<exists>q. v = VFloat (Fin q) \<and> 0 < q \<and> q < 1)"
  by (cases v)
    (auto simp: validate_renew_ratio_def res_simps class_tests is_number_def num_greater_def
      num_less_def num_ge_def num_le_def split: pyfloat.splits)

lemma base_post_init_iff:
  "base_post_init cfg = Inr u \<longleftrightarrow>
    validate_key (lit ''key'') (cf_key cfg) = Inr () \<and>
    validate_timeout_s (lit ''acquire_timeout_s'') (cf_acquire_timeout_s cfg) = Inr () \<and>
    validate_lease_ttl_s (cf_lease_ttl_s cfg) = Inr () \<and>
    validate_connect_timeout_s (cf_connect_timeout_s cfg) = Inr () \<and>
    validate_servers (cf_servers cfg) = Inr () \<and>
    validate_renew_ratio (cf_renew_ratio cfg) = Inr ()"
  by (auto simp: base_post_init_def res_simps)

lemma post_init_base: "post_init cfg = Inr u \<Longrightarrow> base_post_init cfg = Inr ()"
  by (auto simp: post_init_def res_simps split: kind.splits)

lemma unpack_pair_iff: "unpack_pair v = Inr (h, p) \<longleftrightarrow> v = VTuple [h, p]"
  by (auto simp: unpack_pair_def split: pyval.splits list.splits)

text \<open>Whatever the strategy returns, the server picked is one of the configured ones.\<close>

lemma pick_server_member:
  assumes "pick_server cfg = Inr (h, p)"
  shows "\<exists>xs. seq_items (cf_servers cfg) = Some xs \<and> VTuple [h, p] \<in> set xs"
proof -
  from assms obtain xs idx where xs: "seq_items (cf_servers cfg) = Some xs"
    and i: "0 \<le> idx" "idx < int (length xs)" and "xs ! nat idx = VTuple [h, p]"
    by (auto simp: pick_server_def res_simps validate_shard_index_iff unpack_pair_iff
        split: option.splits)
  moreover have "nat idx < length xs" using i by linarith
  ultimately show ?thesis by (metis nth_mem)
qed

end
