(* ===== verification/Protocol_Properties.thy ===== *)
theory Protocol_Properties
  imports Decoders Fencing Client_Config
begin

text \<open>
  The properties of \<open>_protocol.py\<close>, \<open>sharding.py\<close> and the construction of a lock: framing, argument
  round trips, the exact classification of response lines, fencing tokens, server choice.  The proofs
  rest on the \<open>*_iff\<close> and \<open>*_error\<close> lemmas of the component theories.
\<close>

section \<open>Helper lemmas\<close>

lemma wire_size_append [simp]: "wire_size (s @ t) = wire_size s + wire_size t"
  by (simp add: wire_size_def)

lemma encodable_append [simp]: "encodable (s @ t) \<longleftrightarrow> encodable s \<and> encodable t"
  by (simp add: encodable_def)

lemma utf8_encode_eq_Inr:
  "utf8_encode s = Inr f \<longleftrightarrow> encodable s \<and> f = concat (map utf8_char s)"
  by (auto simp: utf8_encode_def encodable_def)

lemma length_utf8_encode: "utf8_encode s = Inr f \<Longrightarrow> length f = wire_size s"
  by (simp add: utf8_encode_eq_Inr wire_size_def length_concat comp_def)

lemma encodable_concat: "encodable (concat xss) \<longleftrightarrow> list_all encodable xss"
  by (induction xss) (auto simp: encodable_def)

lemma encode_lines_eq_Inr:
  "encode_lines ls = Inr f \<longleftrightarrow>
    (\<forall>ln \<in> set ls. 0x0A \<notin> set ln \<and> 0x0D \<notin> set ln \<and> encodable ln) \<and>
    f = concat (map utf8_char (concat (map (\<lambda>ln. ln @ [0x0A]) ls)))"
  by (auto simp: encode_lines_def res_simps validator_iff utf8_encode_eq_Inr encodable_concat
      list_all_iff encodable_def is_scalar_def is_surrogate_def)

lemma encode_lines_frame:
  "encode_lines ls = Inr f \<Longrightarrow> frame_lines f = map Some ls"
  by (rule frame_lines_encode) (auto simp: encode_lines_def res_simps validator_iff)

lemma ascii_wire_size: "list_all (\<lambda>c. c < 0x80) s \<Longrightarrow> encodable s \<and> wire_size s = length s"
  by (induction s)
    (auto simp: encodable_def wire_size_def is_scalar_def is_surrogate_def utf8_char_def)

lemma int_text_ascii: "list_all (\<lambda>c. c < 0x80) (int_text n)"
  by (auto simp: int_text_def list_all_iff dest!: nat_digits_small)

lemma length_int_text:
  assumes "0 \<le> n" "n < 10 ^ k" "0 < k"
  shows "length (int_text n) \<le> k"
proof -
  have "nat n < 10 ^ k" using assms by (simp add: nat_less_iff)
  from length_nat_digits [OF this assms(3)] show ?thesis using assms(1) by (simp add: int_text_def)
qed

lemma int_text_line:
  assumes "0 \<le> n" "n < 10 ^ k" "0 < k" "k \<le> MAX_STR_DIGITS"
  shows "py_str_int n = Inr (int_text n)" "encodable (int_text n)" "wire_size (int_text n) \<le> k"
    "0x0A \<notin> set (int_text n)" "0x0D \<notin> set (int_text n)"
proof -
  show "py_str_int n = Inr (int_text n)" using assms by (intro py_str_int_small) auto
  show "encodable (int_text n)" "wire_size (int_text n) \<le> k"
    using ascii_wire_size [OF int_text_ascii] length_int_text [OF assms(1-3)] by simp_all
  show "0x0A \<notin> set (int_text n)" "0x0D \<notin> set (int_text n)"
    using int_text_not_space [of "0x0A" n] int_text_not_space [of "0x0D" n]
    by (auto simp: is_space_def)
qed

lemma protocol_seconds_small: "n \<le> MAX_PROTOCOL_SECONDS \<Longrightarrow> n < 10 ^ 10"
  by (simp add: limits)

lemma join_sp_wire:
  "ts \<noteq> [] \<Longrightarrow> wire_size (join_sp ts) + 1 = sum_list (map (\<lambda>t. wire_size t + 1) ts)"
proof (induction ts rule: join_sp.induct)
  case (3 x y xs)
  have "wire_size (0x20 # s) = wire_size s + 1" for s
    by (simp add: wire_size_def utf8_char_def)
  with 3 show ?case by simp
qed simp_all

lemma join_sp_safe:
  "\<forall>t \<in> set ts. encodable t \<and> 0x0A \<notin> set t \<and> 0x0D \<notin> set t \<Longrightarrow>
    encodable (join_sp ts) \<and> 0x0A \<notin> set (join_sp ts) \<and> 0x0D \<notin> set (join_sp ts)"
  by (induction ts rule: join_sp.induct)
    (auto simp: encodable_def is_scalar_def is_surrogate_def)

lemma build_acquire_arg_accepted:
  assumes n: "0 \<le> n" "n \<le> MAX_PROTOCOL_SECONDS"
    and l: "\<And>l. limit = Some l \<Longrightarrow> 0 < l \<and> l < 10 ^ 234"
    and s: "\<And>m. lease = Some m \<Longrightarrow> 1 \<le> m \<and> m \<le> MAX_PROTOCOL_SECONDS"
  shows "\<exists>arg. build_acquire_arg n limit lease = Inr arg \<and> validate_protocol_line name arg True = Inr ()"
proof -
  define K :: nat where "K = 234"
  have K: "0 < K" "K \<le> MAX_STR_DIGITS" "K \<le> 234" by (simp_all add: K_def MAX_STR_DIGITS_def)
  have ten: "(0 :: nat) < 10" "10 \<le> MAX_STR_DIGITS" by (simp_all add: MAX_STR_DIGITS_def)
  have lim: "0 \<le> l" "l < 10 ^ K" if "limit = Some l" for l
    using l [OF that] by (simp_all only: K_def less_imp_le)
  define ts where "ts = map int_text (n # opt_list limit @ opt_list lease)"
  note tn = int_text_line [OF n(1) protocol_seconds_small [OF n(2)] ten]
  have tl: "py_str_int l = Inr (int_text l)" "encodable (int_text l)" "wire_size (int_text l) \<le> K"
    "0x0A \<notin> set (int_text l)" "0x0D \<notin> set (int_text l)" if "limit = Some l" for l
    by (rule int_text_line [OF lim [OF that] K(1,2)])+
  have ts: "py_str_int m = Inr (int_text m)" "encodable (int_text m)" "wire_size (int_text m) \<le> 10"
    "0x0A \<notin> set (int_text m)" "0x0D \<notin> set (int_text m)" if "lease = Some m" for m
    using int_text_line [OF _ protocol_seconds_small ten, of m] s [OF that] by simp_all
  have "build_acquire_arg n limit lease = Inr (join_sp ts)"
    using tn(1) tl(1) ts(1) by (cases limit; cases lease)
      (simp_all add: build_acquire_arg_def append_optional_int_def ts_def)
  moreover have "\<forall>t \<in> set ts. encodable t \<and> 0x0A \<notin> set t \<and> 0x0D \<notin> set t"
    using tn(2,4,5) tl(2,4,5) ts(2,4,5)
    by (cases limit; cases lease) (simp_all add: ts_def)
  moreover have "wire_size (join_sp ts) \<le> MAX_LINE_BYTES"
    using join_sp_wire [of ts] tn(3) tl(3) ts(3) K(3)
    by (cases limit; cases lease) (force simp: ts_def limits)+
  ultimately show ?thesis using join_sp_safe [of ts] by (simp add: validator_iff)
qed

section \<open>Requests\<close>

text \<open>
  C32. A frame carries its lines and nothing else: a reader that cuts the bytes at line feeds and
  decodes each piece gets back exactly the lines \<open>encode_lines\<close> was given, so no two sequences of lines
  share a frame and no argument can smuggle in a further protocol line.
\<close>

theorem encode_lines_roundtrip:
  assumes "encode_lines ls = Inr f"
  shows "frame_lines f = map Some ls \<and> (\<forall>ls'. encode_lines ls' = Inr f \<longrightarrow> ls' = ls)"
proof -
  have "ls' = ls" if "encode_lines ls' = Inr f" for ls'
  proof -
    have "map Some ls' = map Some ls"
      using encode_lines_frame [OF that] encode_lines_frame [OF assms] by simp
    then show ?thesis using map_injective by (metis inj_Some)
  qed
  with encode_lines_frame [OF assms] show ?thesis by blast
qed

theorem encode_lines_roundtrip_witness:
  "\<exists>f. encode_lines [lit ''l'', [0x6B, 0xE9], lit ''10''] = Inr f \<and>
    frame_lines f = map Some [lit ''l'', [0x6B, 0xE9], lit ''10'']"
proof -
  have "\<exists>f. encode_lines [lit ''l'', [0x6B, 0xE9], lit ''10''] = Inr f"
    by (simp add: encode_lines_eq_Inr encodable_def is_scalar_def is_surrogate_def)
  then obtain f where f: "encode_lines [lit ''l'', [0x6B, 0xE9], lit ''10''] = Inr f" by blast
  from encode_lines_roundtrip [OF f] f show ?thesis by blast
qed

text \<open>
  An accepted acquire always reaches the wire: when the prefix and limit, the key and the
  argument pass their validators, the frame encodes, has exactly the three lines command, key and
  argument, and stays within two protocol lines and five bytes.
\<close>

lemma acquire_request_encodes:
  assumes "validate_prefix_limit prefix limit = Inr ()" "validate_key (lit ''key'') key = Inr ()"
    "make_acquire_arg t (opt_int limit) lease = Inr arg" "cmd_name prefix (lit ''l'') = Inr cmd"
  shows "\<exists>f. encode_lines [cmd, key, arg] = Inr f \<and> frame_lines f = map Some [cmd, key, arg]
    \<and> length f \<le> 2 * MAX_LINE_BYTES + 5"
proof -
  have cmd: "cmd = prefix @ lit ''l''" "prefix = [] \<or> prefix = lit ''s''"
    using assms(1,4) by (auto simp: cmd_name_def res_simps validator_iff)
  have arg: "validate_protocol_line (lit ''acquire argument'') arg True = Inr ()"
    using assms(3) by (elim make_acquire_argD)
  have ok: "\<forall>ln \<in> set [cmd, key, arg]. 0x0A \<notin> set ln \<and> 0x0D \<notin> set ln \<and> encodable ln"
    using assms(2) arg cmd by (auto simp: validator_iff encodable_def is_scalar_def is_surrogate_def)
  define f where "f = concat (map utf8_char (concat (map (\<lambda>ln. ln @ [0x0A]) [cmd, key, arg])))"
  have f: "encode_lines [cmd, key, arg] = Inr f" using ok unfolding f_def encode_lines_eq_Inr by blast
  have "length f = wire_size cmd + wire_size key + wire_size arg + 3"
    by (simp add: f_def wire_size_def length_concat comp_def utf8_char_def)
  moreover have "wire_size cmd \<le> 2"
    using cmd by (auto simp: wire_size_def utf8_char_def)
  moreover have "wire_size key \<le> MAX_LINE_BYTES" "wire_size arg \<le> MAX_LINE_BYTES"
    using assms(2) arg by (simp_all add: validator_iff)
  ultimately have "length f \<le> 2 * MAX_LINE_BYTES + 5" by simp
  with f encode_lines_frame [OF f] show ?thesis by blast
qed

text \<open>
  \<open>validate_key\<close> accepts exactly the non-empty keys without blank, tab, line feed or carriage
  return whose UTF-8 form exists and has at most 256 bytes, and rejects every other with a
  \<open>ValueError\<close>.
\<close>

lemma validate_key_exact:
  "case validate_key name key of
     Inr _ \<Rightarrow> key \<noteq> [] \<and> set key \<inter> {0x20, 0x09, 0x0A, 0x0D} = {} \<and>
       (\<exists>bs. utf8_encode key = Inr bs \<and> length bs \<le> MAX_LINE_BYTES)
   | Inl e \<Rightarrow> isinstance e ValueError \<and>
       \<not> (key \<noteq> [] \<and> set key \<inter> {0x20, 0x09, 0x0A, 0x0D} = {} \<and>
          (\<exists>bs. utf8_encode key = Inr bs \<and> length bs \<le> MAX_LINE_BYTES))"
proof (cases "validate_key name key")
  case (Inl e)
  then have "\<not> (key \<noteq> [] \<and> set key \<inter> {0x20, 0x09, 0x0A, 0x0D} = {} \<and> encodable key \<and>
    wire_size key \<le> MAX_LINE_BYTES)"
    using validate_key_iff [of name key "()"] by simp
  then have "\<not> (key \<noteq> [] \<and> set key \<inter> {0x20, 0x09, 0x0A, 0x0D} = {} \<and>
    (\<exists>bs. utf8_encode key = Inr bs \<and> length bs \<le> MAX_LINE_BYTES))"
    using length_utf8_encode [of key] by (auto simp: utf8_encode_eq_Inr)
  with Inl key_error [OF Inl] show ?thesis by simp
next
  case (Inr u)
  then have "key \<noteq> [] \<and> set key \<inter> {0x20, 0x09, 0x0A, 0x0D} = {} \<and>
    (\<exists>bs. utf8_encode key = Inr bs \<and> length bs \<le> MAX_LINE_BYTES)"
    using validate_key_iff [of name key "()"] length_utf8_encode [of key]
    by (auto simp: utf8_encode_eq_Inr)
  with Inr show ?thesis by simp
qed

text \<open>
  Round trip of the acquire argument: for a timeout and an optional lease in the protocol's
  range and an optional positive limit below \<open>10 ^ 234\<close>, \<open>make_acquire_arg\<close> succeeds, and a reader that
  splits the argument at white space and reads the integers gets the timeout, the limit and the
  lease, in this order.
\<close>

lemma make_acquire_arg_roundtrip:
  assumes "0 \<le> n" "n \<le> MAX_PROTOCOL_SECONDS"
    and "\<And>l. limit = Some l \<Longrightarrow> 0 < l \<and> l < 10 ^ 234"
    and "lease = VNone \<or> (\<exists>m. lease = VInt m \<and> 1 \<le> m \<and> m \<le> MAX_PROTOCOL_SECONDS)"
  shows "\<exists>arg. make_acquire_arg (VInt n) limit lease = Inr arg \<and>
    map py_int (py_split arg) = map Some (n # opt_list limit @ opt_list (opt_int lease))"
proof -
  have "\<exists>arg. build_acquire_arg n limit (opt_int lease) = Inr arg \<and>
    validate_protocol_line (lit ''acquire argument'') arg True = Inr ()"
    by (rule build_acquire_arg_accepted [OF assms(1-3)]) (use assms(4) in auto)
  then obtain arg where arg: "build_acquire_arg n limit (opt_int lease) = Inr arg"
    "validate_protocol_line (lit ''acquire argument'') arg True = Inr ()" by blast
  with assms(1,2,4) have "make_acquire_arg (VInt n) limit lease = Inr arg"
    by (simp add: make_acquire_arg_def validate_timeout_s_iff validate_lease_ttl_s_iff res_simps)
  with build_acquire_arg_fields(1) [OF arg(1)] show ?thesis by blast
qed

text \<open>
  Round trip of the renew argument: a token the decoder can have returned (a non-empty field
  without white space) and a lease in range come back as the token followed by the lease.
\<close>

lemma make_renew_arg_roundtrip:
  assumes "make_renew_arg token lease = Inr arg" "is_field token"
  shows "(case opt_int lease of
      None \<Rightarrow> py_split arg = [token]
    | Some m \<Rightarrow> \<exists>raw. py_split arg = [token, raw] \<and> py_int raw = Some m)
    \<and> wire_size arg \<le> MAX_LINE_BYTES"
proof (cases "opt_int lease")
  case None
  with assms have "arg = join_sp [token]" "wire_size arg \<le> MAX_LINE_BYTES"
    by (auto simp: make_renew_arg_def build_renew_arg_def res_simps validator_iff)
  with None assms(2) py_split_join [of "[token]"] show ?thesis by simp
next
  case (Some m)
  with assms obtain t where t: "py_str_int m = Inr t" "arg = join_sp [token, t]"
    "wire_size arg \<le> MAX_LINE_BYTES"
    by (auto simp: make_renew_arg_def build_renew_arg_def res_simps validate_protocol_line_iff)
  then have "py_split arg = [token, t]" "py_int t = Some m"
    using assms(2) py_str_int_field [OF t(1)] py_str_int_roundtrip [OF t(1)]
      py_split_join [of "[token, t]"] by simp_all
  with Some t(3) show ?thesis by simp
qed

section \<open>Responses\<close>

text \<open>
  Every acquire or wait response is classified: the grant that comes back is the token and the
  lease of an \<open>ok token lease\<close> line with a lease in the protocol's range; every other line raises, and
  the class is \<open>DflockdTimeoutError\<close> for the line \<open>timeout\<close>, the class of the status table for a line
  that does not start with \<open>ok\<close> and a blank, and \<open>RuntimeError\<close> for a malformed grant.
\<close>

lemma grant_response_classified:
  "case parse_grant_response resp op of
     Inr (tok, n) \<Rightarrow> starts_with resp (lit ''ok '') \<and> is_field tok \<and>
       1 \<le> n \<and> n \<le> MAX_PROTOCOL_SECONDS \<and>
       (\<exists>raw. py_split resp = [lit ''ok'', tok, raw] \<and> py_int raw = Some n)
   | Inl e \<Rightarrow> exn_class e =
       (if resp = lit ''timeout'' then DflockdTimeoutError
        else if \<not> starts_with resp (lit ''ok '') then status_class resp
        else RuntimeError)"
proof (cases "parse_grant_response resp op")
  case (Inl e)
  with parse_grant_error [OF Inl] show ?thesis by (simp del: lit_Cons)
next
  case (Inr g)
  then obtain tok n where g: "parse_grant_response resp op = Inr (tok, n)" by (cases g) simp
  then show ?thesis
    using parse_grant_iff [of resp op tok n] grant_token_field [of resp op tok n]
    by (auto simp del: lit_Cons)
qed

text \<open>
  The exception by which the client tells a timed-out wait from a failure is raised for the line
  \<open>timeout\<close> and for no other line of the server.
\<close>

lemma timeout_iff_timeout_line:
  "(\<exists>e. parse_grant_response resp op = Inl e \<and> isinstance e DflockdTimeoutError)
    \<longleftrightarrow> resp = lit ''timeout''"
proof
  assume "\<exists>e. parse_grant_response resp op = Inl e \<and> isinstance e DflockdTimeoutError"
  then obtain e where e: "parse_grant_response resp op = Inl e" "exn_class e \<le> DflockdTimeoutError"
    by (auto simp: isinstance_def)
  show "resp = lit ''timeout''"
    using parse_grant_error [OF e(1)] e(2) not_timeout_class(2) not_timeout_class(1) [of resp]
    by (auto simp del: lit_Cons split: if_splits)
next
  assume "resp = lit ''timeout''"
  then show "\<exists>e. parse_grant_response resp op = Inl e \<and> isinstance e DflockdTimeoutError"
    by (simp add: parse_grant_response_def del: lit_Cons)
qed

text \<open>The server's grant lines: a status word, the token and the lease, separated by single blanks.\<close>

definition grant_line :: "pystr \<Rightarrow> pystr \<Rightarrow> int \<Rightarrow> pystr" where
  "grant_line status tok n = join_sp [status, tok, int_text n]"

lemma grant_line_split:
  "is_field status \<Longrightarrow> is_field tok \<Longrightarrow> py_split (grant_line status tok n) = [status, tok, int_text n]"
  using py_split_join [of "[status, tok, int_text n]"]
  by (simp add: grant_line_def is_field_int_text)

lemma py_int_seconds: "0 \<le> n \<Longrightarrow> n \<le> MAX_PROTOCOL_SECONDS \<Longrightarrow> py_int (int_text n) = Some n"
  using int_text_line(1) [of n 10] protocol_seconds_small [of n]
  by (auto simp: MAX_STR_DIGITS_def dest: py_str_int_roundtrip)

lemma is_field_ok: "is_field (lit ''ok'')"
  by (simp add: is_field_def is_space_def)

lemma is_field_acquired: "is_field (lit ''acquired'')"
  by (simp add: is_field_def is_space_def)

text \<open>
  C33. Round trip of a grant: whatever token without white space and lease in range the server prints
  after \<open>ok\<close> (for acquire and wait) or \<open>acquired\<close> (for enqueue), the client returns that token and
  that lease.
\<close>

theorem grant_roundtrip:
  assumes "is_field tok" "1 \<le> n" "n \<le> MAX_PROTOCOL_SECONDS"
  shows "parse_grant_response (grant_line (lit ''ok'') tok n) op = Inr (tok, n)
    \<and> parse_enqueue_response (grant_line (lit ''acquired'') tok n) op = Inr (lit ''acquired'', Some tok, Some n)"
proof
  have int: "py_int (int_text n) = Some n" using assms by (simp add: py_int_seconds)
  have "starts_with (grant_line (lit ''ok'') tok n) (lit ''ok '')"
    by (simp add: grant_line_def starts_with_def)
  then show "parse_grant_response (grant_line (lit ''ok'') tok n) op = Inr (tok, n)"
    using grant_line_split [OF is_field_ok assms(1)] int assms(2,3) by (auto simp: parse_grant_iff)
  have "starts_with (grant_line (lit ''acquired'') tok n) (lit ''acquired '')"
    "grant_line (lit ''acquired'') tok n \<noteq> lit ''queued''"
    by (simp_all add: grant_line_def starts_with_def)
  moreover have "decode_token_lease (grant_line (lit ''acquired'') tok n) (lit ''acquired'') op = Inr (tok, n)"
    using grant_line_split [OF is_field_acquired assms(1)] int assms(2,3)
    by (auto simp: decode_token_lease_iff)
  ultimately show "parse_enqueue_response (grant_line (lit ''acquired'') tok n) op =
      Inr (lit ''acquired'', Some tok, Some n)"
    by (simp add: parse_enqueue_response_def del: lit_Cons)
qed

theorem grant_roundtrip_witness:
  "parse_grant_response (grant_line (lit ''ok'') (lit ''ab12'') 33) (lit ''acquire'') = Inr (lit ''ab12'', 33)"
proof -
  have "is_field (lit ''ab12'')" by (simp add: is_field_def is_space_def)
  then show ?thesis using grant_roundtrip [of "lit ''ab12''" 33] by (simp add: limits del: lit_Cons)
qed

text \<open>
  Every enqueue response is classified: \<open>queued\<close> gives the triple without token and lease, an
  \<open>acquired token lease\<close> line the token and a lease in range, every other line an exception: of the
  status table, or \<open>RuntimeError\<close> for a malformed grant.
\<close>

lemma enqueue_response_classified:
  "case parse_enqueue_response resp op of
     Inr (status, tok, lease) \<Rightarrow>
       resp = lit ''queued'' \<and> status = lit ''queued'' \<and> tok = None \<and> lease = None \<or>
       (\<exists>t n raw. status = lit ''acquired'' \<and> tok = Some t \<and> lease = Some n \<and> is_field t \<and>
          py_split resp = [lit ''acquired'', t, raw] \<and> py_int raw = Some n \<and>
          1 \<le> n \<and> n \<le> MAX_PROTOCOL_SECONDS)
   | Inl e \<Rightarrow> resp \<noteq> lit ''queued'' \<and> exn_class e =
       (if starts_with resp (lit ''acquired '') then RuntimeError else status_class resp)"
proof (cases "parse_enqueue_response resp op")
  case (Inl e)
  then have "resp \<noteq> lit ''queued''" by (auto simp: parse_enqueue_response_def)
  with Inl parse_enqueue_error [OF Inl] show ?thesis by (simp del: lit_Cons)
next
  case (Inr g)
  then obtain status tok lease where g: "parse_enqueue_response resp op = Inr (status, tok, lease)"
    by (cases g) simp
  then show ?thesis
    by (rule parse_enqueue_cases) (use g in \<open>auto simp del: lit_Cons dest: py_split_mid\<close>)
qed

text \<open>
  Every renew response is classified: the remaining lease, between zero and the protocol's
  maximum, of an \<open>ok remaining\<close> line; \<open>RuntimeError\<close> for any other line that starts with \<open>ok\<close>, the
  class of the status table for the rest, so that an expired lease is \<open>LeaseExpiredError\<close>.
\<close>

lemma renew_response_classified:
  "case parse_renew_response resp op of
     Inr n \<Rightarrow> 0 \<le> n \<and> n \<le> MAX_PROTOCOL_SECONDS \<and>
       (\<exists>raw. py_split resp = [lit ''ok'', raw] \<and> py_int raw = Some n)
   | Inl e \<Rightarrow> exn_class e =
       (if starts_with resp (lit ''ok'') then RuntimeError
        else if resp = lit ''error_lease_expired'' then LeaseExpiredError
        else status_class resp)"
proof (cases "parse_renew_response resp op")
  case (Inl e)
  then show ?thesis
    using parse_renew_error [OF Inl]
    by (auto simp: status_class_def STATUS_ERRORS_def starts_with_def)
next
  case (Inr n)
  then have "0 \<le> n \<and> n \<le> MAX_PROTOCOL_SECONDS \<and>
    (\<exists>raw. py_split resp = [lit ''ok'', raw] \<and> py_int raw = Some n)"
    unfolding parse_renew_iff by blast
  with Inr show ?thesis by simp
qed

text \<open>
  The status table is a bijection between the eight protocol statuses and the eight sentinel
  classes: two different statuses never give the same sentinel, any other line gives the base class
  itself, and every class is a \<open>DflockdError\<close>, none a timeout or a connection error.
\<close>

lemma status_table_exact:
  "(status_class resp = status_class resp' \<longrightarrow>
      resp = resp' \<or> status_class resp = DflockdError)
    \<and> (status_class resp = DflockdError \<longleftrightarrow> resp \<notin> fst ` set STATUS_ERRORS)
    \<and> status_class resp \<le> DflockdError
    \<and> \<not> status_class resp \<le> OSError
    \<and> status_error op resp = Exn (status_class resp) [Txt op, Txt (lit '' failed: ''), Repr resp]"
proof (intro conjI)
  have some: "(r, status_class r) \<in> set STATUS_ERRORS" if "map_of STATUS_ERRORS r \<noteq> None" for r
    using that by (auto simp: status_class_def dest: map_of_SomeD)
  have none: "status_class r = DflockdError" if "map_of STATUS_ERRORS r = None" for r
    using that by (simp add: status_class_def)
  have tab: "inj_on snd (set STATUS_ERRORS)" "DflockdError \<notin> snd ` set STATUS_ERRORS"
    by (simp_all add: STATUS_ERRORS_def)
  have dfl: "status_class r = DflockdError \<longleftrightarrow> map_of STATUS_ERRORS r = None" for r
    using some [of r] none [of r] tab(2) by (metis imageI snd_conv)
  then show "status_class resp = DflockdError \<longleftrightarrow> resp \<notin> fst ` set STATUS_ERRORS"
    by (simp add: map_of_eq_None_iff)
  show "status_class resp = status_class resp' \<longrightarrow> resp = resp' \<or> status_class resp = DflockdError"
  proof (intro impI, rule disjCI)
    assume same: "status_class resp = status_class resp'" and "status_class resp \<noteq> DflockdError"
    then have "(resp, status_class resp) \<in> set STATUS_ERRORS" "(resp', status_class resp) \<in> set STATUS_ERRORS"
      using some dfl by metis+
    then show "resp = resp'" using inj_onD [OF tab(1)] by fastforce
  qed
  show "status_class resp \<le> DflockdError" by (rule status_class_le)
  show "\<not> status_class resp \<le> OSError"
    using status_class_cases [of resp] by (cases "status_class resp") (auto simp: subclass_simps)
  show "status_error op resp = Exn (status_class resp) [Txt op, Txt (lit '' failed: ''), Repr resp]"
    by (simp add: status_error_def)
qed

text \<open>
  Authentication responses: exactly the line \<open>ok\<close> is accepted, the draining status keeps its
  sentinel, and everything else (\<open>error_auth\<close> included) is a \<open>PermissionError\<close>.
\<close>

lemma auth_response_classified:
  "case parse_auth_response resp of
     Inr _ \<Rightarrow> resp = lit ''ok''
   | Inl e \<Rightarrow> resp \<noteq> lit ''ok'' \<and>
       exn_class e = (if resp = lit ''error_draining'' then DrainingError else PermissionError)"
  by (simp add: parse_auth_response_def raise_auth_error_def del: lit_Cons)

text \<open>
  What \<open>stats\<close> returns has the documented shape, for every JSON reader: a dict whose
  \<open>connections\<close> is a non-negative integer and not a bool, and whose four list fields are lists of
  dicts.  A line without the \<open>ok\<close> prefix gives its status error, a decoded value of another shape a
  \<open>RuntimeError\<close>, and so does a \<open>JSONDecodeError\<close>; any other exception of the reader passes through.
\<close>

lemma validate_stats_result_error:
  "validate_stats_result d payload = Inl e \<Longrightarrow> e = bad_stats payload"
  by (auto simp: validate_stats_result_def Let_def res_simps dest!: forE_eq_Inl)

lemma validate_stats_result_ok:
  assumes "validate_stats_result d payload = Inr v"
  shows "v = d \<and> isinstance_dict v \<and> (\<exists>n. dict_get v (lit ''connections'') = VInt n \<and> 0 \<le> n) \<and>
    (\<forall>f \<in> set STATS_LIST_FIELDS. is_dict_list (dict_get v f))"
proof -
  have "v = d" "isinstance_dict d" "\<forall>f \<in> set STATS_LIST_FIELDS. is_dict_list (dict_get d f)"
    "\<not> isinstance_bool (dict_get d (lit ''connections''))"
    "isinstance_int (dict_get d (lit ''connections''))" "\<not> int_val (dict_get d (lit ''connections'')) < 0"
    using assms by (auto simp: validate_stats_result_def Let_def res_simps)
  then show ?thesis
    by (cases "dict_get d (lit ''connections'')") (auto simp: class_tests int_val_def)
qed

lemma stats_response_classified:
  "case parse_stats_response loads resp of
     Inr v \<Rightarrow> resp = lit ''ok '' @ drop 3 resp \<and> loads (drop 3 resp) = Inr v \<and> isinstance_dict v \<and>
       (\<exists>n. dict_get v (lit ''connections'') = VInt n \<and> 0 \<le> n) \<and>
       list_all (\<lambda>f. is_dict_list (dict_get v f)) STATS_LIST_FIELDS
   | Inl e \<Rightarrow>
       (if \<not> starts_with resp (lit ''ok '') then exn_class e = status_class resp
        else case loads (drop 3 resp) of
          Inr _ \<Rightarrow> exn_class e = RuntimeError
        | Inl e' \<Rightarrow> if isinstance e' JSONDecodeError then exn_class e = RuntimeError else e = e')"
proof (cases "parse_stats_response loads resp")
  case (Inl e)
  then have "if \<not> starts_with resp (lit ''ok '') then exn_class e = status_class resp
    else case loads (drop 3 resp) of
      Inr _ \<Rightarrow> exn_class e = RuntimeError
    | Inl e' \<Rightarrow> if isinstance e' JSONDecodeError then exn_class e = RuntimeError else e = e'"
    by (auto simp: parse_stats_response_def raise_status_error_def status_error_def decode_stats_json_def
        bad_stats_def simp del: lit_Cons dest!: validate_stats_result_error split: if_splits sum.splits)
  with Inl show ?thesis by simp
next
  case (Inr v)
  then obtain d where pre: "starts_with resp (lit ''ok '')" and d: "loads (drop 3 resp) = Inr d"
    "validate_stats_result d (drop 3 resp) = Inr v"
    by (auto simp: parse_stats_response_def raise_status_error_def decode_stats_json_def
        simp del: lit_Cons split: if_splits sum.splits)
  have "resp = lit ''ok '' @ drop 3 resp"
    using starts_withD [OF pre] by (simp add: numeral_3_eq_3)
  with d(1) validate_stats_result_ok [OF d(2)]
  have "resp = lit ''ok '' @ drop 3 resp \<and> loads (drop 3 resp) = Inr v \<and> isinstance_dict v \<and>
    (\<exists>n. dict_get v (lit ''connections'') = VInt n \<and> 0 \<le> n) \<and>
    list_all (\<lambda>f. is_dict_list (dict_get v f)) STATS_LIST_FIELDS"
    unfolding list_all_iff by metis
  with Inr show ?thesis by (simp del: lit_Cons)
qed

section \<open>Fencing tokens\<close>

text \<open>
  C40. The fence is the number the server printed: for the lower-case hexadecimal text of a 64-bit
  counter followed by any sixteen hexadecimal digits, \<open>fence_from_token\<close> returns that counter.
\<close>

theorem fence_roundtrip:
  assumes "n < 2 ^ 64" "length r = 16" "list_all (\<lambda>c. hex_val c \<noteq> None) r"
  shows "fence_from_token (hex_text 16 n @ r) = Inr (int n)"
  using assms hex_nat_text [of n 16] hex_text_digits [of 16 n]
  by (simp add: fence_from_token_iff FENCE_TOKEN_RE_def del: hex_text.simps hex_text_numeral)

theorem fence_roundtrip_witness:
  "fence_from_token (lit ''00000000000000ff'' @ lit ''0123456789abcdef'') = Inr 255"
proof -
  have "hex_text 16 255 = lit ''00000000000000ff''"
    by (simp add: hex_char_def)
  then show ?thesis
    using fence_roundtrip [of 255 "lit ''0123456789abcdef''"]
    by (simp add: hex_val_def del: hex_text.simps hex_text_numeral)
qed

text \<open>
  \<open>fence_from_token\<close> accepts exactly the texts of 32 hexadecimal digits, the fence is below
  \<open>2 ^ 64\<close>, and every other text is a \<open>ValueError\<close>.
\<close>

lemma fence_exact:
  "case fence_from_token token of
     Inr f \<Rightarrow> length token = 32 \<and> list_all (\<lambda>c. hex_val c \<noteq> None) token \<and>
       0 \<le> f \<and> f < 2 ^ 64 \<and> f = int (hex_nat (take 16 token))
   | Inl e \<Rightarrow> \<not> (length token = 32 \<and> list_all (\<lambda>c. hex_val c \<noteq> None) token) \<and> exn_class e = ValueError"
proof (cases "fence_from_token token")
  case (Inl e)
  then have "\<not> (length token = 32 \<and> list_all (\<lambda>c. hex_val c \<noteq> None) token) \<and> exn_class e = ValueError"
    by (auto simp: fence_from_token_def FENCE_TOKEN_RE_def res_simps)
  with Inl show ?thesis by simp
next
  case (Inr f)
  then have f: "FENCE_TOKEN_RE token" "f = int (hex_nat (take 16 token))"
    by (simp_all add: fence_from_token_iff)
  then have "hex_nat (take 16 token) < 16 ^ 16"
    using hex_nat_bound [of "take 16 token"] by (simp add: FENCE_TOKEN_RE_def)
  then have "f < 2 ^ 64" using f(2) by simp
  with Inr f show ?thesis by (simp add: FENCE_TOKEN_RE_def)
qed

text \<open>
  Fences order grants as the token texts do: on lower-case tokens, as the server issues them,
  one fence is less than the other exactly when the first sixteen characters compare less, so a store
  may compare the texts.
\<close>

lemma fence_order:
  assumes "fence_from_token a = Inr f" "fence_from_token b = Inr g"
    and "list_all lower_hex a" "list_all lower_hex b"
  shows "f < g \<longleftrightarrow> ord_class.lexordp (take 16 a) (take 16 b)"
proof -
  have "length (take 16 a) = length (take 16 b)" "f = int (hex_nat (take 16 a))"
    "g = int (hex_nat (take 16 b))"
    using assms(1,2) by (auto simp: fence_from_token_iff FENCE_TOKEN_RE_def)
  moreover have "list_all lower_hex (take 16 a)" "list_all lower_hex (take 16 b)"
    using assms(3,4) by (auto simp: list_all_iff dest: in_set_takeD)
  ultimately show ?thesis using hex_nat_less_iff [of "take 16 a" "take 16 b"] by simp
qed

text \<open>
  The label for logs hides the token: it is at most eleven characters, and two tokens of more
  than eight characters that agree on the first eight, or two of at most eight characters, have the
  same label.
\<close>

lemma token_for_log_redacts:
  "length (token_for_log (Some t)) \<le> 11 \<and>
    token_for_log (Some t) = token_for_log (Some (take 8 t @ (if length t \<le> 8 then [] else [x])))"
  by (auto simp: token_for_log_def)

section \<open>Server choice and construction\<close>

text \<open>
  The default strategy is total and in range on every accepted key: for any positive number of
  servers it returns an integer index that \<open>_validate_shard_index\<close> accepts, namely the CRC-32 of the
  key's UTF-8 bytes modulo the number of servers.
\<close>

lemma stable_hash_shard_valid:
  assumes "validate_key name key = Inr ()" "0 < n"
  shows "\<exists>bs i. utf8_encode key = Inr bs \<and> i = uint (crc32 bs) mod n \<and>
    stable_hash_shard key n = Inr (VInt i) \<and> validate_shard_index (VInt i) n = Inr i"
proof -
  have "encodable key" using assms(1) by (simp add: validator_iff)
  then obtain bs where bs: "utf8_encode key = Inr bs" by (simp add: utf8_encode_eq_Inr)
  with assms(2) show ?thesis by (simp add: stable_hash_shard_def validate_shard_index_iff)
qed

text \<open>A constructed lock can be dialled: the choice of a server succeeds on a configured endpoint.\<close>

lemma post_init_servers:
  assumes "post_init cfg = Inr ()"
  obtains xs where "seq_items (cf_servers cfg) = Some xs" "xs \<noteq> []"
    "\<And>s. s \<in> set xs \<Longrightarrow> validate_server s = Inr ()"
  using post_init_base [OF assms] by (auto simp: base_post_init_iff validate_servers_iff)

lemma picked_endpoint:
  assumes "post_init cfg = Inr ()" "cf_sharding_strategy cfg = stable_hash_shard"
  shows "\<exists>h p xs. pick_server cfg = Inr (VStr h, VInt p) \<and>
    seq_items (cf_servers cfg) = Some xs \<and> VTuple [VStr h, VInt p] \<in> set xs \<and>
    validate_server_endpoint (VStr h) (VInt p) = Inr (h, p) \<and>
    validate_connect_timeout_s (cf_connect_timeout_s cfg) = Inr ()"
proof -
  note base = post_init_base [OF assms(1), unfolded base_post_init_iff]
  obtain xs where xs: "seq_items (cf_servers cfg) = Some xs" "xs \<noteq> []"
    and ok: "\<And>s. s \<in> set xs \<Longrightarrow> validate_server s = Inr ()"
    using post_init_servers [OF assms(1)] by blast
  have "encodable (cf_key cfg)" using base by (simp add: validate_key_iff)
  then obtain i where i: "stable_hash_shard (cf_key cfg) (int (length xs)) = Inr (VInt i)"
    "validate_shard_index (VInt i) (int (length xs)) = Inr i"
    using stable_hash_shard_index [of "int (length xs)" "cf_key cfg"] xs(2) by auto
  then have "nat i < length xs" by (auto simp: validate_shard_index_iff)
  then have mem: "xs ! nat i \<in> set xs" by simp
  from ok [OF mem] obtain h p where hp: "xs ! nat i = VTuple [VStr h, VInt p]"
    "validate_server_endpoint (VStr h) (VInt p) = Inr (h, p)"
    by (auto simp: validate_server_iff)
  have "pick_server cfg = Inr (VStr h, VInt p)"
    using xs(1) i hp(1) assms(2) by (simp add: pick_server_def unpack_pair_def)
  with xs hp mem base show ?thesis by metis
qed

text \<open>So does every strategy that picks a server at all.\<close>

lemma picked_valid:
  assumes "post_init cfg = Inr ()" "pick_server cfg = Inr x"
  obtains h p where "pick_server cfg = Inr (VStr h, VInt p)" "validate_server_endpoint (VStr h) (VInt p) = Inr (h, p)"
proof -
  obtain h p where x: "x = (h, p)" by fastforce
  obtain xs where xs: "seq_items (cf_servers cfg) = Some xs" "VTuple [h, p] \<in> set xs"
    using pick_server_member [OF assms(2) [unfolded x]] by blast
  obtain ys where ys: "seq_items (cf_servers cfg) = Some ys" "\<forall>s \<in> set ys. validate_server s = Inr ()"
    using post_init_base [OF assms(1)] by (auto simp: base_post_init_iff validate_servers_iff)
  from ys(2) xs ys(1) have "validate_server (VTuple [h, p]) = Inr ()" by simp
  then obtain h' p' where "h = VStr h'" "p = VInt p'" "validate_server_endpoint (VStr h') (VInt p') = Inr (h', p')"
    unfolding validate_server_iff by blast
  with that assms(2) x show thesis by simp
qed

lemma half_ratio: "validate_renew_ratio (VFloat (Fin (1 / 2))) = Inr ()"
  unfolding validate_renew_ratio_iff by (intro exI [of _ "1 / 2"]) simp

lemma half_ratio_ex: "\<exists>q::rat. q * 2 = 1 \<and> 0 < q \<and> q < 1"
  by (intro exI [of _ "1 / 2"]) simp

lemma validate_server_exact:
  "validate_server s = Inr () \<longleftrightarrow> (\<exists>h p. s = VTuple [VStr h, VInt p] \<and> h \<noteq> [] \<and>
    set h \<inter> {0x20, 0x09, 0x0A, 0x0D} = {} \<and> 0 < p \<and> p \<le> MAX_TCP_PORT)"
  by (simp only: validate_server_iff validate_server_endpoint_iff simp_thms)

lemma base_post_init_exact:
  "base_post_init cfg = Inr () \<longleftrightarrow>
    validate_key (lit ''key'') (cf_key cfg) = Inr () \<and>
    (\<exists>n. cf_acquire_timeout_s cfg = VInt n \<and> 0 \<le> n \<and> n \<le> MAX_PROTOCOL_SECONDS) \<and>
    (cf_lease_ttl_s cfg = VNone \<or> (\<exists>n. cf_lease_ttl_s cfg = VInt n \<and> 1 \<le> n \<and> n \<le> MAX_PROTOCOL_SECONDS)) \<and>
    ((\<exists>n. cf_connect_timeout_s cfg = VInt n \<and> 0 < n \<and> n \<le> MAX_PROTOCOL_SECONDS) \<or>
     (\<exists>q. cf_connect_timeout_s cfg = VFloat (Fin q) \<and> 0 < q \<and> q \<le> of_int MAX_PROTOCOL_SECONDS)) \<and>
    (\<exists>xs. seq_items (cf_servers cfg) = Some xs \<and> xs \<noteq> [] \<and>
      list_all (\<lambda>s. \<exists>h p. s = VTuple [VStr h, VInt p] \<and> h \<noteq> [] \<and>
        set h \<inter> {0x20, 0x09, 0x0A, 0x0D} = {} \<and> 0 < p \<and> p \<le> MAX_TCP_PORT) xs) \<and>
    (\<exists>q. cf_renew_ratio cfg = VFloat (Fin q) \<and> 0 < q \<and> q < 1)"
  by (simp only: base_post_init_iff validate_timeout_s_iff validate_lease_ttl_s_iff
      validate_connect_timeout_s_iff validate_servers_iff validate_renew_ratio_iff
      validate_server_exact list_all_iff)

text \<open>
  C34. What the constructor accepts, exactly: a valid key, integer timeouts in range (no \<open>bool\<close>), a
  positive finite connect timeout, a non-empty list or tuple of endpoints, a finite float ratio
  strictly between 0 and 1, and for a semaphore a positive integer limit.
\<close>

theorem post_init_exact:
  "post_init cfg = Inr () \<longleftrightarrow>
    (case cf_kind cfg of LockKind \<Rightarrow> True | SemaphoreKind limit \<Rightarrow> (\<exists>n. limit = VInt n \<and> 0 < n)) \<and>
    validate_key (lit ''key'') (cf_key cfg) = Inr () \<and>
    (\<exists>n. cf_acquire_timeout_s cfg = VInt n \<and> 0 \<le> n \<and> n \<le> MAX_PROTOCOL_SECONDS) \<and>
    (cf_lease_ttl_s cfg = VNone \<or> (\<exists>n. cf_lease_ttl_s cfg = VInt n \<and> 1 \<le> n \<and> n \<le> MAX_PROTOCOL_SECONDS)) \<and>
    ((\<exists>n. cf_connect_timeout_s cfg = VInt n \<and> 0 < n \<and> n \<le> MAX_PROTOCOL_SECONDS) \<or>
     (\<exists>q. cf_connect_timeout_s cfg = VFloat (Fin q) \<and> 0 < q \<and> q \<le> of_int MAX_PROTOCOL_SECONDS)) \<and>
    (\<exists>xs. seq_items (cf_servers cfg) = Some xs \<and> xs \<noteq> [] \<and>
      list_all (\<lambda>s. \<exists>h p. s = VTuple [VStr h, VInt p] \<and> h \<noteq> [] \<and>
        set h \<inter> {0x20, 0x09, 0x0A, 0x0D} = {} \<and> 0 < p \<and> p \<le> MAX_TCP_PORT) xs) \<and>
    (\<exists>q. cf_renew_ratio cfg = VFloat (Fin q) \<and> 0 < q \<and> q < 1)"
proof (cases "cf_kind cfg")
  case LockKind
  then have "post_init cfg = base_post_init cfg" by (simp add: post_init_def)
  with LockKind show ?thesis by (simp only: base_post_init_exact kind.case simp_thms)
next
  case (SemaphoreKind limit)
  have "post_init cfg = Inr () \<longleftrightarrow> (\<exists>n. limit = VInt n \<and> 0 < n) \<and> base_post_init cfg = Inr ()"
    by (auto simp: post_init_def SemaphoreKind res_simps validate_semaphore_limit_iff)
  with SemaphoreKind show ?thesis by (simp only: base_post_init_exact kind.case simp_thms)
qed

text \<open>
  C35. The sleep between two renewals, in double arithmetic, for a ratio the constructor accepts (a double
  strictly between 0 and 1) and any lease a grant can report: lease times ratio up to rounding to a
  neighbouring integer, at least one second, and strictly shorter than the lease, so that the renewal is
  sent while the lease runs.  The exception is a lease of one second, whose renewal is sent when it ends.
\<close>

theorem renew_interval_bounds:
  assumes "validate_renew_ratio (VFloat (Fin ratio)) = Inr ()" "fl ratio = ratio"
    and "1 \<le> lease" "lease \<le> MAX_PROTOCOL_SECONDS"
  shows "max 1 (of_int \<lfloor>of_int lease * ratio\<rfloor>) \<le> renew_interval lease ratio \<and>
    renew_interval lease ratio \<le> max 1 (of_int \<lceil>of_int lease * ratio\<rceil>) \<and>
    (if lease = 1 then renew_interval lease ratio = 1 else renew_interval lease ratio < of_int lease)"
proof -
  have r: "0 < ratio" "ratio < 1" using assms(1) by (simp_all add: validator_iff)
  have small: "lease < 2 ^ 53" using assms(4) by (simp add: limits)
  have i: "renew_interval lease ratio = max 1 (fl (of_int lease * ratio))"
    using assms(2,3) small by (simp add: renew_interval_def fl_mult_def fl_int)
  have pos: "0 \<le> of_int lease * ratio" using assms(3) r(1) by simp
  have "of_int lease * ratio \<le> of_int lease * 1" using r assms(3) by (intro mult_left_mono) simp_all
  then have top: "\<lceil>of_int lease * ratio\<rceil> \<le> lease" by (simp add: ceiling_le_iff)
  have near: "of_int \<lfloor>of_int lease * ratio\<rfloor> \<le> fl (of_int lease * ratio) \<and>
      fl (of_int lease * ratio) \<le> of_int \<lceil>of_int lease * ratio\<rceil>"
    using pos le_less_trans [OF top small] by (intro fl_between) (simp_all only: of_int_floor_le le_of_int_ceiling zero_le_floor)
  moreover have "fl (of_int lease * ratio) < of_int lease" if "lease \<noteq> 1"
    using that assms(2,3) small r by (intro fl_mult_less) simp_all
  moreover have "fl (of_int lease * ratio) \<le> 1" if "lease = 1"
    using near r that assms(2) by simp
  ultimately have "if lease = 1 then renew_interval lease ratio = 1 else renew_interval lease ratio < of_int lease"
    using assms(3) unfolding i by (simp add: max_absorb1)
  moreover have "max 1 (of_int \<lfloor>of_int lease * ratio\<rfloor>) \<le> renew_interval lease ratio"
    "renew_interval lease ratio \<le> max 1 (of_int \<lceil>of_int lease * ratio\<rceil>)"
    unfolding i using near by (intro max.mono order_refl; simp)+
  ultimately show ?thesis by blast
qed

theorem renew_interval_bounds_witness:
  "max 1 (of_int \<lfloor>of_int 33 * (1 / 2 :: rat)\<rfloor>) \<le> renew_interval 33 (1 / 2) \<and> renew_interval 33 (1 / 2) < 33 \<and>
    renew_interval 1 (1 / 2) = 1"
proof -
  have half: "validate_renew_ratio (VFloat (Fin (1 / 2))) = Inr ()" "fl (1 / 2) = 1 / 2"
    by (simp add: validator_iff exI [of _ "1 / 2"])
      (simp add: fl_def fl_ulp_def fl_exp_def bitlen_def floorlog_def power_int_def power_one_over
        round_half_even_def)
  show ?thesis
    using renew_interval_bounds [OF half, of 33] renew_interval_bounds [OF half, of 1] by (simp add: limits)
qed

end
