(* ===== verification/Commands.thy ===== *)
theory Commands
  imports Decoders Fencing Py_Float
begin

text \<open>
  The low-level command functions.  \<open>_sync.py\<close> and \<open>_async.py\<close> hold the same bodies (validate, send
  one frame, parse one line) and differ in the transport only, so each body is one definition over
  the transport's \<open>command\<close>: \<open>acquire_via\<close>, \<open>release_via\<close> and so on; the two transports instantiate
  them.  What the bodies rely on is the locale \<open>line_transport\<close>; its lemmas, proved once, say what a
  command puts on the wire and when it puts nothing there.
\<close>

definition IO_SLACK_S :: rat where "IO_SLACK_S = 30"
definition RENEW_READ_TIMEOUT_S :: rat where "RENEW_READ_TIMEOUT_S = 5"
definition RELEASE_READ_TIMEOUT_S :: rat where "RELEASE_READ_TIMEOUT_S = IO_SLACK_S"

type_synonym 's command_fn = "nat \<Rightarrow> pystr \<Rightarrow> pystr \<Rightarrow> pystr \<Rightarrow> rat \<Rightarrow> (exn, 's, pystr) prog"

section \<open>The command functions\<close>

definition authenticate_via :: "'s command_fn \<Rightarrow> nat \<Rightarrow> pystr \<Rightarrow> (exn, 's, unit) prog" where
  "authenticate_via command conn auth_token =
    seqP (liftE (validate_auth_token auth_token))
    (bindP (command conn (lit ''auth'') (lit ''_'') auth_token IO_SLACK_S) (\<lambda>resp.
    liftE (parse_auth_response resp)))"

definition acquire_via ::
  "'s command_fn \<Rightarrow> nat \<Rightarrow> pystr \<Rightarrow> pyval \<Rightarrow> pyval \<Rightarrow> pystr \<Rightarrow> pyval \<Rightarrow> (exn, 's, pystr \<times> int) prog"
where
  "acquire_via command conn key acquire_timeout_s lease_ttl_s prefix limit =
    seqP (liftE (validate_prefix_limit prefix limit))
    (seqP (liftE (validate_key (lit ''key'') key))
    (bindP (liftE (make_acquire_arg acquire_timeout_s (opt_int limit) lease_ttl_s)) (\<lambda>arg.
    bindP (liftE (cmd_name prefix (lit ''l''))) (\<lambda>cmd.
    bindP (command conn cmd key arg (fl_add (of_int (int_val acquire_timeout_s)) IO_SLACK_S)) (\<lambda>resp.
    liftE (parse_grant_response resp (op_label prefix (lit ''acquire''))))))))"

definition release_via ::
  "'s command_fn \<Rightarrow> nat \<Rightarrow> pystr \<Rightarrow> pystr \<Rightarrow> pystr \<Rightarrow> (exn, 's, unit) prog"
where
  "release_via command conn key token prefix =
    seqP (liftE (validate_prefix prefix))
    (seqP (liftE (validate_key (lit ''key'') key))
    (seqP (liftE (validate_token token))
    (bindP (liftE (cmd_name prefix (lit ''r''))) (\<lambda>cmd.
    bindP (command conn cmd key token RELEASE_READ_TIMEOUT_S) (\<lambda>resp.
    liftE (parse_release_response resp (op_label prefix (lit ''release''))))))))"

definition renew_via ::
  "'s command_fn \<Rightarrow> nat \<Rightarrow> pystr \<Rightarrow> pystr \<Rightarrow> pyval \<Rightarrow> pystr \<Rightarrow> rat \<Rightarrow> (exn, 's, int) prog"
where
  "renew_via command conn key token lease_ttl_s prefix read_timeout =
    seqP (liftE (validate_prefix prefix))
    (seqP (liftE (validate_key (lit ''key'') key))
    (bindP (liftE (make_renew_arg token lease_ttl_s)) (\<lambda>arg.
    bindP (liftE (cmd_name prefix (lit ''n''))) (\<lambda>cmd.
    bindP (command conn cmd key arg read_timeout) (\<lambda>resp.
    liftE (parse_renew_response resp (op_label prefix (lit ''renew''))))))))"

definition enqueue_via ::
  "'s command_fn \<Rightarrow> nat \<Rightarrow> pystr \<Rightarrow> pyval \<Rightarrow> pystr \<Rightarrow> pyval \<Rightarrow>
    (exn, 's, pystr \<times> pystr option \<times> int option) prog"
where
  "enqueue_via command conn key lease_ttl_s prefix limit =
    seqP (liftE (validate_prefix_limit prefix limit))
    (seqP (liftE (validate_key (lit ''key'') key))
    (bindP (liftE (make_enqueue_arg (opt_int limit) lease_ttl_s)) (\<lambda>arg.
    bindP (liftE (cmd_name prefix (lit ''e''))) (\<lambda>cmd.
    bindP (command conn cmd key arg IO_SLACK_S) (\<lambda>resp.
    liftE (parse_enqueue_response resp (op_label prefix (lit ''enqueue''))))))))"

definition wait_via ::
  "'s command_fn \<Rightarrow> nat \<Rightarrow> pystr \<Rightarrow> pyval \<Rightarrow> pystr \<Rightarrow> (exn, 's, pystr \<times> int) prog"
where
  "wait_via command conn key wait_timeout_s prefix =
    seqP (liftE (validate_prefix prefix))
    (seqP (liftE (validate_key (lit ''key'') key))
    (bindP (liftE (make_wait_arg wait_timeout_s)) (\<lambda>arg.
    bindP (liftE (cmd_name prefix (lit ''w''))) (\<lambda>cmd.
    bindP (command conn cmd key arg (fl_add (of_int (int_val wait_timeout_s)) IO_SLACK_S)) (\<lambda>resp.
    liftE (parse_grant_response resp (op_label prefix (lit ''wait''))))))))"

definition stats_via ::
  "(pystr \<Rightarrow> pyval res) \<Rightarrow> 's command_fn \<Rightarrow> nat \<Rightarrow> (exn, 's, pyval) prog"
where
  "stats_via loads command conn =
    bindP (command conn (lit ''stats'') (lit ''_'') (lit ''_'') IO_SLACK_S) (\<lambda>resp.
    liftE (parse_stats_response loads resp))"

section \<open>The transport the functions rely on\<close>

text \<open>\<open>at_most_frame old new cmd key\<close>: the frames sent grew by nothing, or by one frame of that command.\<close>

definition at_most_frame :: "byte list list \<Rightarrow> byte list list \<Rightarrow> pystr \<Rightarrow> pystr \<Rightarrow> bool" where
  "at_most_frame old new cmd key \<longleftrightarrow>
    new = old \<or> (\<exists>f arg. new = old @ [f] \<and> frame_lines f = map Some [cmd, key, arg])"

lemma frame_of_command:
  assumes "encode_lines [cmd, key, arg] = Inr f"
  shows "frame_lines f = map Some [cmd, key, arg]"
proof (rule frame_lines_encode)
  show "utf8_encode (concat (map (\<lambda>ln. ln @ [0x0A]) [cmd, key, arg])) = Inr f"
    using assms by (simp add: encode_lines_def res_simps)
  show "\<forall>ln \<in> set [cmd, key, arg]. 0x0A \<notin> set ln"
    using assms by (auto simp: encode_lines_def res_simps check_no_newlines_iff)
qed

text \<open>A result that is no error but an ordinary \<open>Exception\<close>: so is every check and every decoder.\<close>

definition ordinary :: "'a res \<Rightarrow> bool" where
  "ordinary x \<longleftrightarrow> (\<forall>e. x = Inl e \<longrightarrow> isinstance e BuiltinException)"

lemma ordinary_simps [simp]:
  "ordinary (Inr a)" "ordinary (Inl e) \<longleftrightarrow> isinstance e BuiltinException"
  "ordinary (raise_if b e) \<longleftrightarrow> (b \<longrightarrow> isinstance e BuiltinException)"
  by (simp_all add: ordinary_def raise_if_def)

lemma ordinary_bindE: "ordinary x \<Longrightarrow> (\<And>a. ordinary (f a)) \<Longrightarrow> ordinary (bindE x f)"
  by (cases x) simp_all

lemma ordinary_forE: "(\<And>x. ordinary (f x)) \<Longrightarrow> ordinary (forE f xs)"
  by (induction xs) (simp_all add: ordinary_bindE)

lemma ordinary_checks:
  "ordinary (utf8_encode s)" "ordinary (check_no_newlines name v)" "ordinary (validate_prefix prefix)"
  "ordinary (cmd_name prefix op)" "ordinary (parse_release_response resp op)"
proof -
  show "ordinary (validate_prefix prefix)" by (simp add: validate_prefix_def subclass_simps)
  then show "ordinary (cmd_name prefix op)" unfolding cmd_name_def by (intro ordinary_bindE) simp_all
  have "status_class resp \<le> BuiltinException"
    using status_class_cases [of resp] by (cases "status_class resp") (auto simp: subclass_simps)
  then show "ordinary (parse_release_response resp op)"
    by (simp add: parse_release_response_def raise_status_error_def status_error_def del: lit_Cons)
qed (simp_all add: utf8_encode_def check_no_newlines_def subclass_simps)

lemma ordinary_lines:
  "ordinary (validate_key name v)" "ordinary (validate_token v)" "ordinary (encode_lines ls)"
  unfolding validate_key_def validate_token_def validate_protocol_line_def byte_len_def encode_lines_def
  by (intro ordinary_bindE ordinary_forE ordinary_checks; simp add: subclass_simps)+

text \<open>\<open>touch c s s'\<close> says that nothing but connection \<open>c\<close> and the script of the network differs.\<close>

locale line_transport =
  fixes command :: "'s command_fn"
    and live :: "'s \<Rightarrow> nat \<Rightarrow> bool"
    and sent :: "'s \<Rightarrow> nat \<Rightarrow> byte list list"
    and touch :: "nat \<Rightarrow> 's \<Rightarrow> 's \<Rightarrow> bool"
  assumes bad_line:
      "encode_lines [cmd, key, arg] = Inl e \<Longrightarrow> command c cmd key arg t s = (Inl e, s)"
    and reply:
      "encode_lines [cmd, key, arg] = Inr f \<Longrightarrow> command c cmd key arg t s = (Inr r, s') \<Longrightarrow>
        live s c \<and> live s' c \<and> sent s' c = sent s c @ [f]"
    and failure:
      "encode_lines [cmd, key, arg] = Inr f \<Longrightarrow> command c cmd key arg t s = (Inl e, s') \<Longrightarrow>
        \<not> live s' c \<and> (sent s' c = sent s c \<or> sent s' c = sent s c @ [f])"
    and command_touch: "command c cmd key arg t s = (x, s') \<Longrightarrow> touch c s s'"
    and touch_refl: "touch c s s"
begin

text \<open>A call that returns a response has sent exactly its own frame.\<close>

lemma command_reply:
  assumes "command c cmd key arg t s = (Inr r, s')"
  shows "\<exists>f. sent s' c = sent s c @ [f] \<and> frame_lines f = map Some [cmd, key, arg] \<and> live s' c"
proof (cases "encode_lines [cmd, key, arg]")
  case (Inl e)
  then show ?thesis using assms bad_line [OF Inl] by simp
next
  case (Inr f)
  then show ?thesis using reply [OF Inr assms] frame_of_command [OF Inr] by blast
qed

text \<open>A call that raises sends at most its own frame, and after an attempt to send the connection
  is dead.\<close>

lemma command_error:
  assumes "command c cmd key arg t s = (Inl e, s')"
  shows "at_most_frame (sent s c) (sent s' c) cmd key"
    and "s' = s \<and> encode_lines [cmd, key, arg] = Inl e \<or> \<not> live s' c"
proof -
  have "at_most_frame (sent s c) (sent s' c) cmd key \<and>
    (s' = s \<and> encode_lines [cmd, key, arg] = Inl e \<or> \<not> live s' c)"
  proof (cases "encode_lines [cmd, key, arg]")
    case (Inl e')
    then show ?thesis using assms bad_line [OF Inl] by (simp add: at_most_frame_def)
  next
    case (Inr f)
    from failure [OF Inr assms] frame_of_command [OF Inr] show ?thesis
      unfolding at_most_frame_def by blast
  qed
  then show "at_most_frame (sent s c) (sent s' c) cmd key"
    and "s' = s \<and> encode_lines [cmd, key, arg] = Inl e \<or> \<not> live s' c" by simp_all
qed

lemma command_frames:
  "command c cmd key arg t s = (x, s') \<Longrightarrow> at_most_frame (sent s c) (sent s' c) cmd key"
proof (cases x)
  case (Inl e)
  then show "command c cmd key arg t s = (x, s') \<Longrightarrow> ?thesis" by (auto intro: command_error(1))
next
  case (Inr r)
  assume "command c cmd key arg t s = (x, s')"
  with Inr show ?thesis using command_reply unfolding at_most_frame_def by blast
qed

text \<open>Every command function is some checks, one \<open>command\<close>, and a decoder; so it touches its own
  connection only and sends at most one frame.\<close>

lemma command_then:
  assumes "bindP (command c cmd key arg t) (\<lambda>r. liftE (p r)) s = (x, s')"
  shows "touch c s s' \<and> at_most_frame (sent s c) (sent s' c) cmd key"
proof -
  obtain y s1 where y: "command c cmd key arg t s = (y, s1)" by (rule prod.exhaust)
  with assms have "s' = s1" by (cases y) (auto simp: bindP_def)
  with y show ?thesis using command_touch command_frames by blast
qed

lemma no_frame: "touch c s s \<and> at_most_frame (sent s c) (sent s c) cmd key"
  by (simp add: touch_refl at_most_frame_def)

lemmas via_simps = bindP_liftE cmd_name_def command_then no_frame

lemma acquire_effect:
  "acquire_via command c key t lease prefix limit s = (x, s') \<Longrightarrow>
    touch c s s' \<and> at_most_frame (sent s c) (sent s' c) (prefix @ lit ''l'') key"
  by (auto simp: acquire_via_def via_simps res_simps split: sum.splits simp del: lit_Cons)

lemma release_effect:
  "release_via command c key tok prefix s = (x, s') \<Longrightarrow>
    touch c s s' \<and> at_most_frame (sent s c) (sent s' c) (prefix @ lit ''r'') key"
  by (auto simp: release_via_def via_simps res_simps split: sum.splits simp del: lit_Cons)

text \<open>Only the transport raises what is not an \<open>Exception\<close>, and then the connection is dead.\<close>

lemma release_interrupted:
  assumes "release_via command c key tok prefix s = (Inl e, s')" "\<not> isinstance e BuiltinException"
  shows "\<not> live s' c"
proof -
  have checks: "validate_prefix prefix = Inr ()" "validate_key (lit ''key'') key = Inr ()" "validate_token tok = Inr ()"
    using assms ordinary_checks(3) [of prefix] ordinary_lines(1) [of "lit ''key''" key] ordinary_lines(2) [of tok]
    by (auto simp: release_via_def bindP_liftE ordinary_def split: sum.splits)
  then have run: "bindP (command c (prefix @ lit ''r'') key tok RELEASE_READ_TIMEOUT_S)
      (\<lambda>resp. liftE (parse_release_response resp (op_label prefix (lit ''release'')))) s = (Inl e, s')"
    using assms(1) by (simp add: release_via_def bindP_liftE cmd_name_def del: lit_Cons)
  obtain y u where y: "command c (prefix @ lit ''r'') key tok RELEASE_READ_TIMEOUT_S s = (y, u)" by (rule prod.exhaust)
  show ?thesis
  proof (cases y)
    case (Inl e')
    with run y have "e' = e" "u = s'" by (simp_all add: bindP_def)
    with y Inl command_error(2) [of c "prefix @ lit ''r''" key tok RELEASE_READ_TIMEOUT_S s e s']
      ordinary_lines(3) [of "[prefix @ lit ''r'', key, tok]"] assms(2)
    show ?thesis by (auto simp: ordinary_def simp del: lit_Cons)
  next
    case (Inr r)
    with run y ordinary_checks(5) [of r "op_label prefix (lit ''release'')"] assms(2)
    show ?thesis by (auto simp: bindP_def liftE_def ordinary_def simp del: lit_Cons)
  qed
qed

lemma renew_effect:
  "renew_via command c key tok lease prefix t s = (x, s') \<Longrightarrow>
    touch c s s' \<and> at_most_frame (sent s c) (sent s' c) (prefix @ lit ''n'') key"
  by (auto simp: renew_via_def via_simps res_simps split: sum.splits simp del: lit_Cons)

lemma enqueue_effect:
  "enqueue_via command c key lease prefix limit s = (x, s') \<Longrightarrow>
    touch c s s' \<and> at_most_frame (sent s c) (sent s' c) (prefix @ lit ''e'') key"
  by (auto simp: enqueue_via_def via_simps res_simps split: sum.splits simp del: lit_Cons)

lemma wait_effect:
  "wait_via command c key t prefix s = (x, s') \<Longrightarrow>
    touch c s s' \<and> at_most_frame (sent s c) (sent s' c) (prefix @ lit ''w'') key"
  by (auto simp: wait_via_def via_simps res_simps split: sum.splits simp del: lit_Cons)

lemma authenticate_effect:
  "authenticate_via command c tok s = (x, s') \<Longrightarrow>
    touch c s s' \<and> at_most_frame (sent s c) (sent s' c) (lit ''auth'') (lit ''_'')"
  by (auto simp: authenticate_via_def via_simps res_simps split: sum.splits simp del: lit_Cons)

lemma authenticate_sends:
  assumes "authenticate_via command c tok s = (x, t)"
  shows "touch c s t \<and> (sent t c = sent s c \<and> x \<noteq> Inr () \<or>
    (\<exists>f. sent t c = sent s c @ [f] \<and> frame_lines f = map Some [lit ''auth'', lit ''_'', tok]))"
proof -
  obtain y u where run: "command c (lit ''auth'') (lit ''_'') tok IO_SLACK_S s = (y, u)" by (rule prod.exhaust)
  have cmd: "sent u c = sent s c \<and> (\<forall>r. y \<noteq> Inr r) \<or> 
      (\<exists>f. sent u c = sent s c @ [f] \<and> frame_lines f = map Some [lit ''auth'', lit ''_'', tok])"
  proof (cases "encode_lines [lit ''auth'', lit ''_'', tok]")
    case (Inl e)
    then have "y = Inl e" "u = s" using run by (simp_all add: bad_line del: lit_Cons)
    then show ?thesis by simp
  next
    case (Inr f)
    note f = frame_of_command [OF Inr]
    with reply [OF Inr] failure [OF Inr] run show ?thesis by (cases y) fastforce+
  qed
  have "touch c s u" using command_touch [OF run] .
  with cmd assms run show ?thesis
    by (cases y; cases "validate_auth_token tok") (auto simp: authenticate_via_def bindP_def touch_refl simp del: lit_Cons)
qed

text \<open>What a successful call put on the wire, and what it returns.\<close>

lemma acquire_reply:
  assumes "acquire_via command c key t lease prefix limit s = (Inr (tok, n), s')"
  shows "\<exists>f arg. sent s' c = sent s c @ [f] \<and> live s' c
    \<and> frame_lines f = map Some [prefix @ lit ''l'', key, arg]
    \<and> make_acquire_arg t (opt_int limit) lease = Inr arg
    \<and> is_field tok \<and> 1 \<le> n \<and> n \<le> MAX_PROTOCOL_SECONDS"
  using assms
  by (auto simp: acquire_via_def bindP_eq_Inr cmd_name_def res_simps parse_grant_iff
      dest!: command_reply dest: py_split_mid)

lemma acquire_rejected:
  assumes "validate_prefix_limit prefix limit = Inl e
    \<or> validate_prefix_limit prefix limit = Inr () \<and> validate_key (lit ''key'') key = Inl e
    \<or> validate_prefix_limit prefix limit = Inr () \<and> validate_key (lit ''key'') key = Inr ()
      \<and> make_acquire_arg t (opt_int limit) lease = Inl e"
  shows "acquire_via command c key t lease prefix limit s = (Inl e, s)"
  using assms by (auto simp: acquire_via_def bindP_def)

lemma wait_reply:
  assumes "wait_via command c key t prefix s = (Inr (tok, n), s')"
  shows "\<exists>f arg. sent s' c = sent s c @ [f] \<and> live s' c
    \<and> frame_lines f = map Some [prefix @ lit ''w'', key, arg]
    \<and> is_field tok \<and> 1 \<le> n \<and> n \<le> MAX_PROTOCOL_SECONDS"
  using assms
  by (auto simp: wait_via_def bindP_eq_Inr cmd_name_def res_simps parse_grant_iff
      dest!: command_reply dest: py_split_mid)

lemma release_reply:
  assumes "release_via command c key tok prefix s = (Inr (), s')"
  shows "\<exists>f. sent s' c = sent s c @ [f] \<and> live s' c
    \<and> frame_lines f = map Some [prefix @ lit ''r'', key, tok]"
  using assms
  by (auto simp: release_via_def bindP_eq_Inr cmd_name_def res_simps dest!: command_reply)

lemma renew_reply:
  assumes "renew_via command c key tok lease prefix t s = (Inr n, s')"
  shows "\<exists>f arg. sent s' c = sent s c @ [f] \<and> live s' c
    \<and> frame_lines f = map Some [prefix @ lit ''n'', key, arg]
    \<and> make_renew_arg tok lease = Inr arg \<and> 0 \<le> n \<and> n \<le> MAX_PROTOCOL_SECONDS"
  using assms
  by (auto simp: renew_via_def bindP_eq_Inr cmd_name_def res_simps parse_renew_iff
      dest!: command_reply)

lemma enqueue_reply:
  assumes "enqueue_via command c key lease prefix limit s = (Inr (status, tok, n), s')"
  shows "live s' c \<and>
    (status = lit ''queued'' \<and> tok = None \<and> n = None
     \<or> (\<exists>t k. status = lit ''acquired'' \<and> tok = Some t \<and> n = Some k \<and> is_field t \<and>
         1 \<le> k \<and> k \<le> MAX_PROTOCOL_SECONDS))"
  using assms
  by (auto simp: enqueue_via_def bindP_eq_Inr cmd_name_def res_simps
      dest!: command_reply elim!: parse_enqueue_cases dest: py_split_mid simp del: lit_Cons)

end

end
