(* ===== verification/Sync_Transport.thy ===== *)
theory Sync_Transport
  imports Commands Sharding
begin

text \<open>
  \<open>SyncConn\<close> of \<open>_sync.py\<close> down to the bytes, over a heap of sockets and a script of what the network
  does.  \<open>dials\<close> says how each connection attempt ends and \<open>ios\<close> how each request ends: \<open>Io bs e\<close> is a
  send that succeeds, after which the bytes \<open>bs\<close> arrive and then \<open>e\<close> happens to a read that needs
  more (the peer closed, or the read raises); \<open>SendFail n e\<close> is a send that raises \<open>e\<close> after \<open>n\<close> bytes
  of the frame.  \<open>sk_sent\<close> are the whole frames a socket carried, \<open>sk_cut\<close> the bytes of a last one that
  was cut off.  Theorems hold for every script.  An exhausted script
  is a peer that has closed.  The mutex of a \<open>SyncConn\<close> makes \<open>command\<close> one atomic action.
\<close>

section \<open>Sockets\<close>

datatype ending = Eof | ReadFail exn
datatype io_event = Io "byte list" ending | SendFail nat exn
datatype dial_event = DialFail exn | DialOk | WrapFail exn

record sock =
  sk_open :: bool
  sk_shut :: bool
  sk_in :: "byte list"
  sk_end :: ending
  sk_sent :: "byte list list"
  sk_cut :: "byte list"

record net =
  socks :: "sock list"
  ios :: "io_event list"
  dials :: "dial_event list"

definition fresh_sock :: sock where
  "fresh_sock = \<lparr>sk_open = True, sk_shut = False, sk_in = [], sk_end = Eof, sk_sent = [], sk_cut = []\<rparr>"

definition conn_open :: "('r) net_scheme \<Rightarrow> nat \<Rightarrow> bool" where
  "conn_open s c \<longleftrightarrow> c < length (socks s) \<and> sk_open (socks s ! c)"

definition sent_on :: "('r) net_scheme \<Rightarrow> nat \<Rightarrow> byte list list" where
  "sent_on s c = (if c < length (socks s) then sk_sent (socks s ! c) else [])"

definition cut_on :: "('r) net_scheme \<Rightarrow> nat \<Rightarrow> byte list" where
  "cut_on s c = (if c < length (socks s) then sk_cut (socks s ! c) else [])"

definition upd_sock :: "nat \<Rightarrow> (sock \<Rightarrow> sock) \<Rightarrow> ('r) net_scheme \<Rightarrow> ('r) net_scheme" where
  "upd_sock c f s = s\<lparr>socks := (socks s)[c := f (socks s ! c)]\<rparr>"

definition bad_fd :: exn where
  "bad_fd = Exn OSError [Txt (lit ''Bad file descriptor'')]"

text \<open>\<^verbatim>\<open>sock.settimeout(t)\<close>: the timeout in nanoseconds must fit a signed 64-bit integer.\<close>

definition timeout_fits :: "rat \<Rightarrow> bool" where
  "timeout_fits t \<longleftrightarrow> fl (t * 10 ^ 9) < 2 ^ 63"

definition settimeout :: "nat \<Rightarrow> rat \<Rightarrow> (exn, ('r) net_scheme, unit) prog" where
  "settimeout c t s =
    (if t < 0 then (raiseE ValueError [Txt (lit ''Timeout value out of range'')], s)
     else if \<not> timeout_fits t
       then (raiseE OverflowError [Txt (lit ''timestamp out of range for platform time_t'')], s)
     else if \<not> conn_open s c then (Inl bad_fd, s)
     else (Inr (), s))"

definition sendall :: "nat \<Rightarrow> byte list \<Rightarrow> (exn, ('r) net_scheme, unit) prog" where
  "sendall c frame s =
    (if \<not> conn_open s c then (Inl bad_fd, s)
     else if sk_shut (socks s ! c) then (raiseE BrokenPipeError [Txt (lit ''Broken pipe'')], s)
     else (case ios s of
         [] \<Rightarrow> (Inr (), upd_sock c (\<lambda>k. k\<lparr>sk_sent := sk_sent k @ [frame], sk_end := Eof\<rparr>) s)
       | SendFail n e # r \<Rightarrow>
           (Inl e, upd_sock c
              (\<lambda>k. if n < length frame then k\<lparr>sk_cut := sk_cut k @ take n frame\<rparr>
                   else k\<lparr>sk_sent := sk_sent k @ [frame]\<rparr>)
              (s\<lparr>ios := r\<rparr>))
       | Io bs e # r \<Rightarrow>
           (Inr (), upd_sock c
              (\<lambda>k. k\<lparr>sk_sent := sk_sent k @ [frame], sk_in := sk_in k @ bs, sk_end := e\<rparr>)
              (s\<lparr>ios := r\<rparr>))))"

text \<open>\<^verbatim>\<open>rfile.readline(limit)\<close>: up to and including the next line feed, at most \<open>limit\<close> bytes; the rest of
  the buffer when the peer has closed.\<close>

definition line_length :: "nat \<Rightarrow> byte list \<Rightarrow> nat option" where
  "line_length limit buf =
    (let i = length (takeWhile (\<lambda>b. b \<noteq> 0x0A) buf) in
     if i < length buf \<and> i < limit then Some (i + 1)
     else if limit \<le> length buf then Some limit
     else None)"

definition readline :: "nat \<Rightarrow> nat \<Rightarrow> (exn, ('r) net_scheme, byte list) prog" where
  "readline c limit s =
    (let k = socks s ! c in
     case line_length limit (sk_in k) of
       Some n \<Rightarrow> (Inr (take n (sk_in k)), upd_sock c (\<lambda>k. k\<lparr>sk_in := drop n (sk_in k)\<rparr>) s)
     | None \<Rightarrow> (case sk_end k of
           Eof \<Rightarrow> (Inr (sk_in k), upd_sock c (\<lambda>k. k\<lparr>sk_in := []\<rparr>) s)
         | ReadFail e \<Rightarrow> (Inl e, s)))"

section \<open>\<open>SyncConn\<close>\<close>

definition trim_response_line :: "byte list \<Rightarrow> pystr res" where
  "trim_response_line raw =
    seqE (raise_if (MAX_RESPONSE_LINE_BYTES < length raw)
           (Exn RuntimeError [Txt (lit ''server response too large (''), Num (int (length raw)),
              Txt (lit '' bytes)'')]))
      (case utf8_decode raw of
         None \<Rightarrow> raiseE RuntimeError [Txt (lit ''server response not valid UTF-8'')]
       | Some s \<Rightarrow> Inr (rstrip [0x0D, 0x0A] s))"

definition read_line :: "nat \<Rightarrow> (exn, ('r) net_scheme, pystr) prog" where
  "read_line c =
    bindP (readline c (MAX_RESPONSE_LINE_BYTES + 1)) (\<lambda>raw.
    if raw = [] then raiseP (Exn ConnectionError [Txt (lit ''server closed connection'')])
    else liftE (trim_response_line raw))"

definition conn_close :: "nat \<Rightarrow> (exn, ('r) net_scheme, unit) prog" where
  "conn_close c = modP (upd_sock c (\<lambda>k. k\<lparr>sk_open := False\<rparr>))"

definition shutdown_read :: "nat \<Rightarrow> (exn, ('r) net_scheme, unit) prog" where
  "shutdown_read c = modP (upd_sock c (\<lambda>k. k\<lparr>sk_shut := True\<rparr>))"

definition sync_command :: "('r) net_scheme command_fn" where
  "sync_command c cmd key arg read_timeout =
    bindP (liftE (encode_lines [cmd, key, arg])) (\<lambda>frame.
    on_errorP
      (seqP (settimeout c read_timeout) (seqP (sendall c frame) (read_line c)))
      (conn_close c))"

section \<open>Dialling\<close>

definition next_dial :: "('r) net_scheme \<Rightarrow> dial_event \<times> ('r) net_scheme" where
  "next_dial s =
    (case dials s of
       [] \<Rightarrow> (DialFail (Exn ConnectionError [Txt (lit ''Connection refused'')]), s)
     | d # r \<Rightarrow> (d, s\<lparr>dials := r\<rparr>))"

definition wrap_ssl :: "dial_event \<Rightarrow> nat \<Rightarrow> bool \<Rightarrow> rat \<Rightarrow> (exn, ('r) net_scheme, nat) prog" where
  "wrap_ssl d c ssl_context connect_timeout_s =
    seqP (if ssl_context then (case d of WrapFail e \<Rightarrow> raiseP e | _ \<Rightarrow> retP ()) else retP ())
    (seqP (settimeout c connect_timeout_s)
      (retP c))"

definition open_socket :: "bool \<Rightarrow> rat \<Rightarrow> (exn, ('r) net_scheme, nat) prog" where
  "open_socket ssl_context connect_timeout_s s =
    (case next_dial s of
       (DialFail e, s') \<Rightarrow> (Inl e, s')
     | (d, s') \<Rightarrow>
         on_errorP (wrap_ssl d (length (socks s')) ssl_context connect_timeout_s)
           (conn_close (length (socks s')))
           (s'\<lparr>socks := socks s' @ [fresh_sock]\<rparr>))"

definition open_conn ::
  "pyval \<Rightarrow> pyval \<Rightarrow> bool \<Rightarrow> pyval \<Rightarrow> (exn, ('r) net_scheme, nat) prog"
where
  "open_conn host port ssl_context connect_timeout_s =
    seqP (liftE (validate_connect_timeout_s connect_timeout_s))
    (bindP (liftE (validate_server_endpoint host port)) (\<lambda>_.
    open_socket ssl_context (rat_val connect_timeout_s)))"

section \<open>\<open>SyncConn\<close> is a line transport\<close>

text \<open>\<open>touches c s s'\<close>: only socket \<open>c\<close> and the script differ, and a closed socket stays closed.\<close>

definition touches :: "nat \<Rightarrow> ('r) net_scheme \<Rightarrow> ('r) net_scheme \<Rightarrow> bool" where
  "touches c s s' \<longleftrightarrow>
    (\<exists>k r. s' = s\<lparr>socks := (socks s)[c := k], ios := r\<rparr> \<and> (sk_open k \<longrightarrow> sk_open (socks s ! c)))"

lemma touches_refl [simp]: "touches c s s"
  unfolding touches_def by (intro exI [of _ "socks s ! c"] exI [of _ "ios s"]) simp

lemma touches_upd:
  "(\<And>k. sk_open (f k) \<Longrightarrow> sk_open k) \<Longrightarrow> touches c s s' \<Longrightarrow> c < length (socks s) \<Longrightarrow>
    touches c s (upd_sock c f s')"
proof -
  assume f: "\<And>k. sk_open (f k) \<Longrightarrow> sk_open k" and c: "c < length (socks s)" and "touches c s s'"
  then obtain k r where s': "s' = s\<lparr>socks := (socks s)[c := k], ios := r\<rparr>"
    and k: "sk_open k \<longrightarrow> sk_open (socks s ! c)" by (auto simp: touches_def)
  have "upd_sock c f s' = s\<lparr>socks := (socks s)[c := f k], ios := r\<rparr>"
    using c by (simp add: s' upd_sock_def)
  moreover have "sk_open (f k) \<longrightarrow> sk_open (socks s ! c)" using f k by blast
  ultimately show ?thesis unfolding touches_def by blast
qed

lemma conn_open_upd_sock:
  "conn_open (upd_sock c f s) d \<longleftrightarrow>
    (if d = c then c < length (socks s) \<and> sk_open (f (socks s ! c)) else conn_open s d)"
  by (auto simp: conn_open_def upd_sock_def)

lemma sent_on_upd_sock:
  "sent_on (upd_sock c f s) d =
    (if d = c \<and> c < length (socks s) then sk_sent (f (socks s ! c)) else sent_on s d)"
  by (auto simp: sent_on_def upd_sock_def)

lemma cut_on_upd_sock:
  "cut_on (upd_sock c f s) d =
    (if d = c \<and> c < length (socks s) then sk_cut (f (socks s ! c)) else cut_on s d)"
  by (auto simp: cut_on_def upd_sock_def)

lemma length_socks_upd [simp]: "length (socks (upd_sock c f s)) = length (socks s)"
  by (simp add: upd_sock_def)

lemma upd_sock_out: "length (socks s) \<le> c \<Longrightarrow> upd_sock c f s = s"
  by (cases s) (simp add: upd_sock_def list_update_beyond)

lemma socks_upd_sock [simp]: "socks (upd_sock c f s) = (socks s)[c := f (socks s ! c)]"
  by (simp add: upd_sock_def)

lemma ios_upd_sock [simp]: "ios (upd_sock c f s) = ios s"
  by (simp add: upd_sock_def)

lemma upd_sock_ios [simp]: "(upd_sock c f s)\<lparr>ios := r\<rparr> = upd_sock c f (s\<lparr>ios := r\<rparr>)"
  by (simp add: upd_sock_def)

lemma net_ios_simps [simp]:
  "conn_open (s\<lparr>ios := r\<rparr>) = conn_open s" "sent_on (s\<lparr>ios := r\<rparr>) = sent_on s"
  "cut_on (s\<lparr>ios := r\<rparr>) = cut_on s"
  by (simp_all add: fun_eq_iff conn_open_def sent_on_def cut_on_def)

lemma touches_ios: "touches c s (s\<lparr>ios := r\<rparr>)"
  unfolding touches_def by (intro exI [of _ "socks s ! c"] exI [of _ r]) simp

text \<open>The body of \<open>command\<close>, inside its \<^verbatim>\<open>try\<close>.\<close>

definition exchange :: "nat \<Rightarrow> byte list \<Rightarrow> rat \<Rightarrow> (exn, ('r) net_scheme, pystr) prog" where
  "exchange c frame t = seqP (settimeout c t) (seqP (sendall c frame) (read_line c))"

lemma sync_command_eq:
  "sync_command c cmd key arg t =
    bindP (liftE (encode_lines [cmd, key, arg])) (\<lambda>frame. on_errorP (exchange c frame t) (conn_close c))"
  by (simp add: sync_command_def exchange_def)

lemma settimeout_run: "settimeout c t s = (x, s') \<Longrightarrow> s' = s \<and> (x = Inr () \<longrightarrow> conn_open s c)"
  by (auto simp: settimeout_def split: if_splits)

text \<open>\<open>partly_sent f c s s'\<close>: of the frame \<open>f\<close> all, a first part or nothing went over connection \<open>c\<close>.\<close>

definition wholly_sent :: "byte list \<Rightarrow> nat \<Rightarrow> ('r) net_scheme \<Rightarrow> ('r) net_scheme \<Rightarrow> bool" where
  "wholly_sent f c s s' \<longleftrightarrow> sent_on s' c = sent_on s c @ [f] \<and> cut_on s' c = cut_on s c"

definition partly_sent :: "byte list \<Rightarrow> nat \<Rightarrow> ('r) net_scheme \<Rightarrow> ('r) net_scheme \<Rightarrow> bool" where
  "partly_sent f c s s' \<longleftrightarrow>
    wholly_sent f c s s' \<or> sent_on s' c = sent_on s c \<and> (\<exists>n. cut_on s' c = cut_on s c @ take n f)"

lemma nothing_sent: "sent_on s' c = sent_on s c \<Longrightarrow> cut_on s' c = cut_on s c \<Longrightarrow> partly_sent f c s s'"
  unfolding partly_sent_def by (intro disjI2 conjI exI [of _ 0]) simp_all

lemma sendall_run:
  assumes "sendall c frame s = (x, s')"
  shows "touches c s s' \<and> (conn_open s' c \<longleftrightarrow> conn_open s c) \<and> partly_sent frame c s s' \<and>
    (x = Inr () \<longrightarrow> conn_open s c \<and> wholly_sent frame c s s')"
proof -
  have "touches c s s' \<and> (conn_open s' c \<longleftrightarrow> conn_open s c)"
    using assms by (auto simp: sendall_def conn_open_upd_sock touches_ios conn_open_def
        intro!: touches_upd split: if_splits list.splits io_event.splits)
  moreover have "partly_sent frame c s s' \<and> (x = Inr () \<longrightarrow> conn_open s c \<and> wholly_sent frame c s s')"
  proof (cases "conn_open s c \<and> \<not> sk_shut (socks s ! c)")
    case False
    with assms show ?thesis by (auto simp: sendall_def nothing_sent split: if_splits)
  next
    case True
    then have c: "c < length (socks s)" by (simp add: conn_open_def)
    show ?thesis
    proof (cases "\<exists>n e r. ios s = SendFail n e # r \<and> n < length frame")
      case True
      then obtain n e r where "ios s = SendFail n e # r" "n < length frame" by blast
      with assms c \<open>conn_open s c \<and> \<not> sk_shut (socks s ! c)\<close> have "x = Inl e"
        "sent_on s' c = sent_on s c" "cut_on s' c = cut_on s c @ take n frame"
        by (auto simp: sendall_def sent_on_upd_sock cut_on_upd_sock sent_on_def cut_on_def)
      then show ?thesis unfolding partly_sent_def by auto
    next
      case False
      with assms c \<open>conn_open s c \<and> \<not> sk_shut (socks s ! c)\<close> have "wholly_sent frame c s s'"
        by (auto simp: sendall_def wholly_sent_def sent_on_upd_sock cut_on_upd_sock sent_on_def cut_on_def
            split: list.splits io_event.splits)
      then show ?thesis using True by (simp add: partly_sent_def)
    qed
  qed
  ultimately show ?thesis by blast
qed

lemma read_line_run:
  "read_line c s = (x, s') \<Longrightarrow> conn_open s c \<Longrightarrow>
    touches c s s' \<and> conn_open s' c \<and> sent_on s' c = sent_on s c \<and> cut_on s' c = cut_on s c"
  by (auto simp: read_line_def readline_def bindP_def Let_def conn_open_upd_sock sent_on_upd_sock
      cut_on_upd_sock conn_open_def sent_on_def cut_on_def intro!: touches_upd
      split: if_splits option.splits ending.splits prod.splits sum.splits)

lemma touches_trans: "touches c s t \<Longrightarrow> touches c t u \<Longrightarrow> c < length (socks s) \<Longrightarrow> touches c s u"
  unfolding touches_def by fastforce

lemma touches_length: "touches c s s' \<Longrightarrow> length (socks s') = length (socks s)"
  by (auto simp: touches_def)

lemma exchange_run:
  assumes "exchange c frame t s = (x, s')"
  shows "touches c s s' \<and> (conn_open s' c \<longleftrightarrow> conn_open s c) \<and>
    partly_sent frame c s s' \<and> (\<forall>r. x = Inr r \<longrightarrow> conn_open s c \<and> wholly_sent frame c s s')"
proof -
  obtain a s1 where a: "settimeout c t s = (a, s1)" by (rule prod.exhaust)
  note a' = settimeout_run [OF a]
  obtain b s2 where b: "sendall c frame s1 = (b, s2)" by (rule prod.exhaust)
  note b' = sendall_run [OF b]
  obtain d s3 where d: "read_line c s2 = (d, s3)" by (rule prod.exhaust)
  note d' = read_line_run [OF d]
  show ?thesis
  proof (cases "a = Inr () \<and> b = Inr ()")
    case True
    with assms a b d have "x = d" "s' = s3" by (auto simp: exchange_def bindP_def)
    moreover from True a' have "c < length (socks s)" by (simp add: conn_open_def)
    ultimately show ?thesis
      using True a' b' d' touches_trans [of c s s2 s3] by (auto simp: wholly_sent_def partly_sent_def)
  next
    case False
    with assms a b have "\<exists>e. x = Inl e" "s' = s1 \<or> (a = Inr () \<and> s' = s2)" "b = Inr () \<longrightarrow> s' = s1"
      by (auto simp: exchange_def bindP_def split: sum.splits)
    with False a' b' show ?thesis by (auto simp: nothing_sent)
  qed
qed

lemma conn_close_run: "conn_close c s = (Inr (), upd_sock c (\<lambda>k. k\<lparr>sk_open := False\<rparr>) s)"
  by (simp add: conn_close_def)

lemma touches_close: "touches c s s' \<Longrightarrow> touches c s (upd_sock c (\<lambda>k. k\<lparr>sk_open := False\<rparr>) s')"
  by (cases "c < length (socks s)") (auto intro: touches_upd simp: upd_sock_out touches_length)

lemma sync_command_run:
  assumes f: "encode_lines [cmd, key, arg] = Inr f" and run: "sync_command c cmd key arg t s = (x, s')"
  shows "touches c s s' \<and> partly_sent f c s s' \<and>
    (case x of Inl e \<Rightarrow> \<not> conn_open s' c
     | Inr r \<Rightarrow> conn_open s c \<and> conn_open s' c \<and> wholly_sent f c s s')"
proof -
  obtain y s1 where y: "exchange c f t s = (y, s1)" by (rule prod.exhaust)
  note y' = exchange_run [OF y]
  show ?thesis
  proof (cases y)
    case (Inl e)
    with run f y have "x = Inl e" "s' = upd_sock c (\<lambda>k. k\<lparr>sk_open := False\<rparr>) s1"
      by (simp_all add: sync_command_eq bindP_liftE tryP_def bindP_def conn_close_run)
    moreover from this have "sent_on s' c = sent_on s1 c" "cut_on s' c = cut_on s1 c"
      by (simp_all add: sent_on_upd_sock cut_on_upd_sock sent_on_def cut_on_def)
    ultimately show ?thesis
      using y' by (simp add: conn_open_upd_sock touches_close partly_sent_def wholly_sent_def)
  next
    case (Inr r)
    with run f y have "x = Inr r" "s' = s1"
      by (simp_all add: sync_command_eq bindP_liftE tryP_def)
    with y' Inr show ?thesis by auto
  qed
qed

interpretation sync: line_transport sync_command conn_open sent_on touches
proof
  fix cmd key arg e c t and s :: "('r) net_scheme"
  assume "encode_lines [cmd, key, arg] = Inl e"
  then show "sync_command c cmd key arg t s = (Inl e, s)"
    by (simp add: sync_command_def bindP_liftE)
next
  fix cmd key arg f c t and s s' :: "('r) net_scheme" and r
  assume "encode_lines [cmd, key, arg] = Inr f" "sync_command c cmd key arg t s = (Inr r, s')"
  from sync_command_run [OF this]
  show "conn_open s c \<and> conn_open s' c \<and> sent_on s' c = sent_on s c @ [f]" by (simp add: wholly_sent_def)
next
  fix cmd key arg f c t and s s' :: "('r) net_scheme" and e
  assume "encode_lines [cmd, key, arg] = Inr f" "sync_command c cmd key arg t s = (Inl e, s')"
  from sync_command_run [OF this]
  show "\<not> conn_open s' c \<and> (sent_on s' c = sent_on s c \<or> sent_on s' c = sent_on s c @ [f])"
    by (auto simp: partly_sent_def wholly_sent_def)
next
  fix cmd key arg c t and s s' :: "('r) net_scheme" and x
  assume run: "sync_command c cmd key arg t s = (x, s')"
  show "touches c s s'"
  proof (cases "encode_lines [cmd, key, arg]")
    case (Inl e)
    with run show ?thesis by (simp add: sync_command_def bindP_liftE)
  next
    case (Inr f)
    from sync_command_run [OF this run] show ?thesis by simp
  qed
next
  fix c and s :: "('r) net_scheme"
  show "touches c s s" by simp
qed

section \<open>Dialling leaks no socket\<close>

lemma conn_open_append:
  "conn_open (s\<lparr>dials := ds, socks := socks s @ [k]\<rparr>) d \<longleftrightarrow>
    conn_open s d \<or> d = length (socks s) \<and> sk_open k"
  by (auto simp: conn_open_def nth_append)

lemma conn_open_dials [simp]: "conn_open (s\<lparr>dials := ds\<rparr>) = conn_open s"
  by (simp add: fun_eq_iff conn_open_def)

lemma wrap_ssl_run: "wrap_ssl d c tls t s = (x, s') \<Longrightarrow> s' = s \<and> (\<forall>r. x = Inr r \<longrightarrow> r = c)"
  by (auto simp: wrap_ssl_def prog_runs split: if_splits dial_event.splits sum.splits prod.splits
      dest: settimeout_run)

lemma open_socket_run:
  "case open_socket tls t s of
     (Inr c, s') \<Rightarrow> c = length (socks s) \<and> socks s' = socks s @ [fresh_sock]
   | (Inl e, s') \<Rightarrow> {d. conn_open s' d} = {d. conn_open s d}"
proof (cases "dials s")
  case Nil
  then show ?thesis by (simp add: open_socket_def next_dial_def)
next
  case (Cons d ds)
  define s1 where "s1 = s\<lparr>dials := ds, socks := socks s @ [fresh_sock]\<rparr>"
  obtain x s2 where run: "wrap_ssl d (length (socks s)) tls t s1 = (x, s2)" by (rule prod.exhaust)
  note w = wrap_ssl_run [OF run]
  show ?thesis
  proof (cases "\<exists>e. d = DialFail e")
    case True
    with Cons show ?thesis by (auto simp: open_socket_def next_dial_def)
  next
    case False
    then have "open_socket tls t s = (case x of
        Inr r \<Rightarrow> (Inr r, s2)
      | Inl e \<Rightarrow> (Inl e, upd_sock (length (socks s)) (\<lambda>k. k\<lparr>sk_open := False\<rparr>) s2))"
      using Cons run unfolding s1_def
      by (cases d; cases x) (simp_all add: open_socket_def next_dial_def tryP_def bindP_def conn_close_run)
    then show ?thesis
      using w by (cases x) (auto simp: s1_def conn_open_def nth_append less_Suc_eq)
  qed
qed

lemma open_socket_frame:
  assumes "open_socket tls t s = (x, s')"
  shows "\<exists>ds ks. s' = s\<lparr>dials := ds, socks := ks\<rparr> \<and> length (socks s) \<le> length ks"
proof (cases "dials s")
  case Nil
  with assms show ?thesis
    by (intro exI [of _ "dials s"] exI [of _ "socks s"]) (simp add: open_socket_def next_dial_def)
next
  case (Cons d ds)
  define s1 where "s1 = s\<lparr>dials := ds, socks := socks s @ [fresh_sock]\<rparr>"
  obtain y s2 where run: "wrap_ssl d (length (socks s)) tls t s1 = (y, s2)" by (rule prod.exhaust)
  then have s2: "s2 = s1" by (simp add: wrap_ssl_run)
  show ?thesis
  proof (cases "\<exists>e. d = DialFail e")
    case True
    with Cons assms show ?thesis
      by (intro exI [of _ ds] exI [of _ "socks s"]) (auto simp: open_socket_def next_dial_def)
  next
    case False
    with Cons assms run s2 have "s' \<in> (\<lambda>k. s\<lparr>dials := ds, socks := socks s @ [k]\<rparr>) `
        {fresh_sock, fresh_sock\<lparr>sk_open := False\<rparr>}"
      unfolding s1_def
      by (cases d; cases y) (auto simp: open_socket_def next_dial_def tryP_def bindP_def conn_close_run upd_sock_def)
    then obtain k where "s' = s\<lparr>dials := ds, socks := socks s @ [k]\<rparr>" by blast
    then show ?thesis by (intro exI [of _ ds] exI [of _ "socks s @ [k]"]) simp
  qed
qed

section \<open>The command functions over \<open>SyncConn\<close>\<close>

definition authenticate :: "nat \<Rightarrow> pystr \<Rightarrow> (exn, ('r) net_scheme, unit) prog" where
  "authenticate = authenticate_via sync_command"

definition acquire ::
  "nat \<Rightarrow> pystr \<Rightarrow> pyval \<Rightarrow> pyval \<Rightarrow> pystr \<Rightarrow> pyval \<Rightarrow> (exn, ('r) net_scheme, pystr \<times> int) prog"
where
  "acquire = acquire_via sync_command"

definition release :: "nat \<Rightarrow> pystr \<Rightarrow> pystr \<Rightarrow> pystr \<Rightarrow> (exn, ('r) net_scheme, unit) prog" where
  "release = release_via sync_command"

definition renew ::
  "nat \<Rightarrow> pystr \<Rightarrow> pystr \<Rightarrow> pyval \<Rightarrow> pystr \<Rightarrow> rat \<Rightarrow> (exn, ('r) net_scheme, int) prog"
where
  "renew = renew_via sync_command"

definition enqueue ::
  "nat \<Rightarrow> pystr \<Rightarrow> pyval \<Rightarrow> pystr \<Rightarrow> pyval \<Rightarrow>
    (exn, ('r) net_scheme, pystr \<times> pystr option \<times> int option) prog"
where
  "enqueue = enqueue_via sync_command"

definition wait :: "nat \<Rightarrow> pystr \<Rightarrow> pyval \<Rightarrow> pystr \<Rightarrow> (exn, ('r) net_scheme, pystr \<times> int) prog" where
  "wait = wait_via sync_command"

definition stats :: "(pystr \<Rightarrow> pyval res) \<Rightarrow> nat \<Rightarrow> (exn, ('r) net_scheme, pyval) prog" where
  "stats loads = stats_via loads sync_command"

definition sem_acquire ::
  "nat \<Rightarrow> pystr \<Rightarrow> pyval \<Rightarrow> pyval \<Rightarrow> pyval \<Rightarrow> (exn, ('r) net_scheme, pystr \<times> int) prog"
where
  "sem_acquire conn key acquire_timeout_s limit lease_ttl_s =
    acquire conn key acquire_timeout_s lease_ttl_s (lit ''s'') limit"

definition sem_release :: "nat \<Rightarrow> pystr \<Rightarrow> pystr \<Rightarrow> (exn, ('r) net_scheme, unit) prog" where
  "sem_release conn key token = release conn key token (lit ''s'')"

definition sem_renew :: "nat \<Rightarrow> pystr \<Rightarrow> pystr \<Rightarrow> pyval \<Rightarrow> (exn, ('r) net_scheme, int) prog" where
  "sem_renew conn key token lease_ttl_s = renew conn key token lease_ttl_s (lit ''s'') IO_SLACK_S"

definition sem_enqueue ::
  "nat \<Rightarrow> pystr \<Rightarrow> pyval \<Rightarrow> pyval \<Rightarrow> (exn, ('r) net_scheme, pystr \<times> pystr option \<times> int option) prog"
where
  "sem_enqueue conn key limit lease_ttl_s = enqueue conn key lease_ttl_s (lit ''s'') limit"

definition sem_wait :: "nat \<Rightarrow> pystr \<Rightarrow> pyval \<Rightarrow> (exn, ('r) net_scheme, pystr \<times> int) prog" where
  "sem_wait conn key wait_timeout_s = wait conn key wait_timeout_s (lit ''s'')"

end
