(* ===== verification/Transport_Properties.thy ===== *)
theory Transport_Properties
  imports Sync_Transport Protocol_Properties
begin

text \<open>
  The properties of \<open>SyncConn\<close> and of the low-level functions of \<open>_sync.py\<close> over it: what one command
  does to the wire and to the connection, that a failed connection is never used again, that on a
  well-behaved server the responses pair with the requests, that an acquire returns what the server
  granted, how long and how large a response may be, and that dialling leaks no socket.
\<close>

section \<open>One command\<close>

text \<open>
  C31. \<open>SyncConn.command\<close> on any network: when it returns, exactly the frame of its three arguments was
  added to the bytes sent and the connection is still open; when it raises, either the arguments did
  not encode and nothing at all happened, or the connection is closed and what was added to the bytes
  sent is that frame or a first part of it, possibly empty.  No other connection and nothing else of the
  state but the script of the network changes.
\<close>

theorem command_effect:
  "case sync_command c cmd key arg t s of
     (Inr r, s') \<Rightarrow> conn_open s c \<and> conn_open s' c \<and> touches c s s' \<and>
       (\<exists>f. encode_lines [cmd, key, arg] = Inr f \<and> wholly_sent f c s s')
   | (Inl e, s') \<Rightarrow>
       encode_lines [cmd, key, arg] = Inl e \<and> s' = s \<or>
       \<not> conn_open s' c \<and> touches c s s' \<and>
       (\<exists>f. encode_lines [cmd, key, arg] = Inr f \<and> partly_sent f c s s')"
proof -
  obtain x s' where x: "sync_command c cmd key arg t s = (x, s')" by (rule prod.exhaust)
  show ?thesis
  proof (cases "encode_lines [cmd, key, arg]")
    case (Inl e)
    then show ?thesis by (simp add: sync_command_def bindP_liftE)
  next
    case (Inr f)
    from sync_command_run [OF Inr x] x Inr show ?thesis by (cases x) auto
  qed
qed

text \<open>
  A connection that has failed is dead: on a closed connection every command raises, sends
  nothing and consumes nothing of the network, so a late or partial response can never be taken for
  the answer to a later request.
\<close>

lemma closed_command:
  assumes "\<not> conn_open s c"
  shows "\<exists>e s'. sync_command c cmd key arg t s = (Inl e, s') \<and> \<not> conn_open s' c \<and>
    sent_on s' c = sent_on s c \<and> ios s' = ios s"
proof (cases "encode_lines [cmd, key, arg]")
  case (Inl e)
  then show ?thesis using assms by (simp add: sync_command_def bindP_liftE)
next
  case (Inr f)
  have "\<exists>e. settimeout c t s = (Inl e, s)"
    using assms by (simp add: settimeout_def)
  then obtain e where "settimeout c t s = (Inl e, s)" by blast
  then have "sync_command c cmd key arg t s = (Inl e, upd_sock c (\<lambda>k. k\<lparr>sk_open := False\<rparr>) s)"
    using Inr by (simp add: sync_command_def bindP_liftE tryP_def bindP_def conn_close_run)
  then show ?thesis
    by (simp add: conn_open_upd_sock sent_on_upd_sock sent_on_def)
qed

lemma failed_connection_stays_dead:
  assumes "sync_command c cmd key arg t s = (Inl e, s1)" "encode_lines [cmd, key, arg] = Inr f"
  shows "\<exists>e' s2. sync_command c cmd' key' arg' t' s1 = (Inl e', s2) \<and> \<not> conn_open s2 c \<and>
    sent_on s2 c = sent_on s1 c \<and> ios s2 = ios s1"
  using sync_command_run [OF assms(2,1)] by (intro closed_command) simp

definition one_conn :: "io_event list \<Rightarrow> net" where
  "one_conn es = \<lparr>socks = [fresh_sock], ios = es, dials = []\<rparr>"

lemma one_conn_simps [simp]:
  "conn_open (one_conn es) 0" "sk_in (socks (one_conn es) ! 0) = []"
  "\<not> sk_shut (socks (one_conn es) ! 0)" "ios (one_conn es) = es" "sent_on (one_conn es) 0 = []"
  by (simp_all add: one_conn_def conn_open_def sent_on_def fresh_sock_def)

lemma fl_30 [simp]: "fl 30 = 30"
  using fl_int [of 30] by simp

section \<open>Reading one response line\<close>

text \<open>\<open>response raw e txt\<close>: the bytes \<open>raw\<close> followed by \<open>e\<close> are one line with text \<open>txt\<close>: a line
  ended by its line feed, or the rest of a stream the peer has closed.\<close>

definition response :: "byte list \<Rightarrow> ending \<Rightarrow> pystr \<Rightarrow> bool" where
  "response raw e txt \<longleftrightarrow>
    raw \<noteq> [] \<and> length raw \<le> MAX_RESPONSE_LINE_BYTES \<and>
    (0x0A \<notin> set (butlast raw) \<and> last raw = 0x0A \<or> 0x0A \<notin> set raw \<and> e = Eof) \<and>
    (\<exists>u. utf8_decode raw = Some u \<and> txt = rstrip [0x0D, 0x0A] u)"

lemma takeWhile_not_LF: "0x0A \<notin> set bs \<Longrightarrow> takeWhile (\<lambda>b. b \<noteq> 0x0A) (bs @ 0x0A # r) = bs"
  for bs :: "byte list"
  by (induction bs) auto

lemma takeWhile_all_not_LF: "0x0A \<notin> set bs \<Longrightarrow> takeWhile (\<lambda>b. b \<noteq> 0x0A) bs = bs" for bs :: "byte list"
  by (induction bs) auto

lemma trim_response:
  "response raw e txt \<Longrightarrow> trim_response_line raw = Inr txt"
  by (auto simp: response_def trim_response_line_def)

lemma line_length_response:
  assumes "response raw e txt"
  shows "line_length (MAX_RESPONSE_LINE_BYTES + 1) raw = Some (length raw) \<or>
    line_length (MAX_RESPONSE_LINE_BYTES + 1) raw = None \<and> e = Eof"
proof (cases "0x0A \<notin> set raw \<and> e = Eof")
  case True
  then show ?thesis
    using assms by (auto simp: line_length_def response_def takeWhile_all_not_LF)
next
  case False
  with assms obtain bs where bs: "raw = bs @ [0x0A]" "0x0A \<notin> set bs" "length raw \<le> MAX_RESPONSE_LINE_BYTES"
    unfolding response_def by (metis append_butlast_last_id)
  then show ?thesis
    using takeWhile_not_LF [OF bs(2), of "[]"] by (simp add: line_length_def)
qed

lemma read_line_response:
  assumes "response (sk_in (socks s ! c)) (sk_end (socks s ! c)) txt"
  shows "read_line c s = (Inr txt, upd_sock c (\<lambda>k. k\<lparr>sk_in := []\<rparr>) s)"
  using line_length_response [OF assms] trim_response [OF assms] assms
  by (auto simp: read_line_def readline_def Let_def bindP_def response_def upd_sock_def)

lemma sync_command_response:
  assumes open': "conn_open s c" "\<not> sk_shut (socks s ! c)" "sk_in (socks s ! c) = []"
    and t: "0 \<le> t" "timeout_fits t"
    and f: "encode_lines [cmd, key, arg] = Inr f"
    and net: "ios s = Io raw e # r" "response raw e txt"
  shows "sync_command c cmd key arg t s =
    (Inr txt, upd_sock c (\<lambda>k. k\<lparr>sk_sent := sk_sent k @ [f], sk_end := e, sk_in := []\<rparr>) (s\<lparr>ios := r\<rparr>))"
proof -
  have c: "c < length (socks s)" using open'(1) by (simp add: conn_open_def)
  define s1 where "s1 = upd_sock c
    (\<lambda>k. k\<lparr>sk_sent := sk_sent k @ [f], sk_in := sk_in k @ raw, sk_end := e\<rparr>) (s\<lparr>ios := r\<rparr>)"
  have send: "settimeout c t s = (Inr (), s)" "sendall c f s = (Inr (), s1)"
    using open' t net(1) by (simp_all add: settimeout_def sendall_def s1_def)
  have "response (sk_in (socks s1 ! c)) (sk_end (socks s1 ! c)) txt"
    using net(2) open'(3) c by (simp add: s1_def)
  from read_line_response [OF this]
  have "sync_command c cmd key arg t s = (Inr txt, upd_sock c (\<lambda>k. k\<lparr>sk_in := []\<rparr>) s1)"
    by (simp add: sync_command_eq f bindP_liftE tryP_def exchange_def bindP_def send)
  moreover have "upd_sock c (\<lambda>k. k\<lparr>sk_in := []\<rparr>) s1 =
    upd_sock c (\<lambda>k. k\<lparr>sk_sent := sk_sent k @ [f], sk_end := e, sk_in := []\<rparr>) (s\<lparr>ios := r\<rparr>)"
    using c by (simp add: s1_def upd_sock_def)
  ultimately show ?thesis by simp
qed

text \<open>A caller that sends requests one after another.\<close>

fun requests ::
  "nat \<Rightarrow> (pystr \<times> pystr \<times> pystr \<times> rat) list \<Rightarrow> (exn, ('r) net_scheme, pystr list) prog"
where
  "requests c [] = retP []"
| "requests c ((cmd, key, arg, t) # qs) =
    bindP (sync_command c cmd key arg t) (\<lambda>r. bindP (requests c qs) (\<lambda>rs. retP (r # rs)))"

text \<open>\<open>serves qs es txts fs\<close>: the network answers each request \<open>q\<close> with one line, \<open>fs\<close> are the frames.\<close>

inductive serves ::
  "(pystr \<times> pystr \<times> pystr \<times> rat) list \<Rightarrow> io_event list \<Rightarrow> pystr list \<Rightarrow> byte list list \<Rightarrow> bool"
where
  nil: "serves [] [] [] []"
| cons: "0 \<le> t \<Longrightarrow> timeout_fits t \<Longrightarrow> encode_lines [cmd, key, arg] = Inr f \<Longrightarrow> response raw e txt \<Longrightarrow>
    serves qs es txts fs \<Longrightarrow>
    serves ((cmd, key, arg, t) # qs) (Io raw e # es) (txt # txts) (f # fs)"

inductive_cases serves_NilE: "serves [] es txts fs"
inductive_cases serves_ConsE: "serves ((cmd, key, arg, t) # qs) es txts fs"

text \<open>
  C30. On a server that answers each request with one line, the n-th response the caller gets is the
  n-th line the server sent, the n-th frame on the wire is the n-th request, and the connection ends
  open with nothing left unread: requests and responses never slip against each other.
\<close>

theorem responses_pair_with_requests:
  assumes "serves qs es txts fs" "ios s = es" "conn_open s c" "\<not> sk_shut (socks s ! c)"
    "sk_in (socks s ! c) = []"
  shows "\<exists>s'. requests c qs s = (Inr txts, s') \<and> sent_on s' c = sent_on s c @ fs \<and>
    conn_open s' c \<and> sk_in (socks s' ! c) = [] \<and> ios s' = []"
  using assms
proof (induction arbitrary: s rule: serves.induct)
  case nil
  then show ?case by simp
next
  case (cons t cmd key arg f raw fin tx qs es txts fs)
  define s1 where "s1 = upd_sock c (\<lambda>k. k\<lparr>sk_sent := sk_sent k @ [f], sk_end := fin, sk_in := []\<rparr>)
    (s\<lparr>ios := es\<rparr>)"
  have c: "c < length (socks s)" using cons.prems(2) by (simp add: conn_open_def)
  have "sync_command c cmd key arg t s = (Inr tx, s1)"
    unfolding s1_def using cons by (intro sync_command_response) simp_all
  moreover have "\<exists>s'. requests c qs s1 = (Inr txts, s') \<and> sent_on s' c = sent_on s1 c @ fs \<and>
    conn_open s' c \<and> sk_in (socks s' ! c) = [] \<and> ios s' = []"
    using cons.prems c by (intro cons.IH) (auto simp: s1_def conn_open_upd_sock conn_open_def upd_sock_def)
  moreover have "sent_on s1 c = sent_on s c @ [f]"
    using c by (simp add: s1_def sent_on_upd_sock sent_on_def)
  ultimately show ?case by (auto simp: bindP_def)
qed

lemma fits_30: "timeout_fits 30"
  using fl_error [of "30 * 10 ^ 9"] by (simp add: timeout_fits_def abs_le_iff)

lemma response_ok_line: "response [0x6F, 0x6B, 0x0A] e [0x6F, 0x6B]"
  by (simp add: response_def limits utf8_decode.simps rstrip_def)

theorem responses_pair_with_requests_witness:
  "\<exists>f s'. requests 0 [(lit ''r'', lit ''k'', lit ''t'', 30), (lit ''r'', lit ''k'', lit ''t'', 30)]
      (one_conn [Io [0x6F, 0x6B, 0x0A] Eof, Io [0x6F, 0x6B, 0x0A] Eof])
    = (Inr [[0x6F, 0x6B], [0x6F, 0x6B]], s') \<and> sent_on s' 0 = [f, f]"
proof -
  have "encode_lines [lit ''r'', lit ''k'', lit ''t''] = Inr [0x72, 0x0A, 0x6B, 0x0A, 0x74, 0x0A]"
    by (simp add: encode_lines_eq_Inr encodable_def is_scalar_def is_surrogate_def utf8_char_def byte_of_def)
  then have "serves [(lit ''r'', lit ''k'', lit ''t'', 30), (lit ''r'', lit ''k'', lit ''t'', 30)]
      [Io [0x6F, 0x6B, 0x0A] Eof, Io [0x6F, 0x6B, 0x0A] Eof] [[0x6F, 0x6B], [0x6F, 0x6B]]
      [[0x72, 0x0A, 0x6B, 0x0A, 0x74, 0x0A], [0x72, 0x0A, 0x6B, 0x0A, 0x74, 0x0A]]"
    by (intro serves.intros fits_30 response_ok_line) simp_all
  from responses_pair_with_requests [OF this, of "one_conn [Io [0x6F, 0x6B, 0x0A] Eof, Io [0x6F, 0x6B, 0x0A] Eof]" 0]
  show ?thesis by auto
qed

section \<open>An acquire end to end\<close>

text \<open>The read timeout of an acquire or a wait: exact in double arithmetic, and accepted by the socket
  up to a server-side timeout of \<open>9223372006\<close> seconds.\<close>

definition LARGEST_USABLE_TIMEOUT_S :: int where
  "LARGEST_USABLE_TIMEOUT_S = 9223372006"

lemma slack_exact: "0 \<le> n \<Longrightarrow> n \<le> MAX_PROTOCOL_SECONDS \<Longrightarrow> fl_add (of_int n) IO_SLACK_S = of_int (n + 30)"
  using fl_int [of n] fl_int [of "n + 30"] by (simp add: fl_add_def IO_SLACK_S_def limits)

lemma timeout_fits_iff:
  assumes "0 \<le> n" "n \<le> MAX_PROTOCOL_SECONDS"
  shows "timeout_fits (of_int (n + 30)) \<longleftrightarrow> n \<le> LARGEST_USABLE_TIMEOUT_S"
proof -
  define x :: rat where "x = of_int ((n + 30) * 10 ^ 9)"
  have x: "x = of_int (n + 30) * 10 ^ 9" by (simp add: x_def)
  have "0 < (n + 30) * 10 ^ 9" "(n + 30) * 10 ^ 9 < 2 ^ 64" using assms by (simp_all add: limits)
  then have "0 < x" "x < of_int (2 ^ 64)" unfolding x_def of_int_less_iff of_int_0_less_iff by simp_all
  then have err: "\<bar>fl x - x\<bar> \<le> 1024" using fl_error [of x] by simp
  show ?thesis
  proof (cases "n \<le> LARGEST_USABLE_TIMEOUT_S")
    case True
    then have "(n + 30) * 10 ^ 9 + 1024 < 2 ^ 63" by (simp add: LARGEST_USABLE_TIMEOUT_S_def)
    then have "of_int ((n + 30) * 10 ^ 9 + 1024) < (of_int (2 ^ 63) :: rat)" by (simp only: of_int_less_iff)
    then have "x + 1024 < 2 ^ 63" by (simp add: x_def)
    with err have "fl x < 2 ^ 63" by (simp add: abs_le_iff)
    with True show ?thesis by (simp add: timeout_fits_def x)
  next
    case False
    then have "2 ^ 63 \<le> (n + 30) * 10 ^ 9 - 1024" by (simp add: LARGEST_USABLE_TIMEOUT_S_def)
    then have "(of_int (2 ^ 63) :: rat) \<le> of_int ((n + 30) * 10 ^ 9 - 1024)" by (simp only: of_int_le_iff)
    then have "2 ^ 63 \<le> x - 1024" by (simp add: x_def)
    with err have "\<not> fl x < 2 ^ 63" by (simp add: abs_le_iff)
    with False show ?thesis by (simp add: timeout_fits_def x)
  qed
qed

lemma acquire_eq_command:
  assumes "validate_prefix_limit prefix limit = Inr ()" "validate_key (lit ''key'') key = Inr ()"
    and "make_acquire_arg (VInt n) (opt_int limit) lease = Inr arg"
  shows "acquire c key (VInt n) lease prefix limit s =
    bindP (sync_command c (prefix @ lit ''l'') key arg (of_int (n + 30)))
      (\<lambda>resp. liftE (parse_grant_response resp (op_label prefix (lit ''acquire'')))) s"
proof -
  have "0 \<le> n" "n \<le> MAX_PROTOCOL_SECONDS" using assms(3) by (auto elim: make_acquire_argD)
  moreover have "validate_prefix prefix = Inr ()" using assms(1) by (auto simp: validator_iff)
  ultimately show ?thesis
    using assms slack_exact [of n]
    by (simp add: acquire_def acquire_via_def bindP_liftE cmd_name_def del: lit_Cons of_int_add)
qed

lemma accepted_acquire_frame:
  assumes "validate_prefix_limit prefix limit = Inr ()" "validate_key (lit ''key'') key = Inr ()"
    and "make_acquire_arg t (opt_int limit) lease = Inr arg"
  shows "\<exists>f. encode_lines [prefix @ lit ''l'', key, arg] = Inr f"
proof -
  have "validate_protocol_line (lit ''acquire argument'') arg True = Inr ()"
    using assms(3) by (elim make_acquire_argD)
  with assms(1,2) show ?thesis
    by (auto simp: encode_lines_eq_Inr validator_iff encodable_def is_scalar_def is_surrogate_def)
qed

lemma acquire_on_response:
  assumes v: "validate_prefix_limit prefix limit = Inr ()" "validate_key (lit ''key'') key = Inr ()"
    "make_acquire_arg (VInt n) (opt_int limit) lease = Inr arg"
    and n: "n \<le> LARGEST_USABLE_TIMEOUT_S"
    and c: "conn_open s c" "\<not> sk_shut (socks s ! c)" "sk_in (socks s ! c) = []"
    and net: "ios s = Io raw e # r" "response raw e resp"
    and p: "parse_grant_response resp (op_label prefix (lit ''acquire'')) = Inr g"
  shows "\<exists>f s'. acquire c key (VInt n) lease prefix limit s = (Inr g, s') \<and>
    frame_lines f = map Some [prefix @ lit ''l'', key, arg] \<and> sent_on s' c = sent_on s c @ [f] \<and>
    conn_open s' c \<and> sk_in (socks s' ! c) = []"
proof -
  have range: "0 \<le> n" "n \<le> MAX_PROTOCOL_SECONDS" using v(3) by (auto elim: make_acquire_argD)
  obtain f where f: "encode_lines [prefix @ lit ''l'', key, arg] = Inr f"
    using accepted_acquire_frame [OF v] by blast
  have len: "c < length (socks s)" using c(1) by (simp add: conn_open_def)
  define s1 where "s1 = upd_sock c (\<lambda>k. k\<lparr>sk_sent := sk_sent k @ [f], sk_end := e, sk_in := []\<rparr>)
    (s\<lparr>ios := r\<rparr>)"
  have "sync_command c (prefix @ lit ''l'') key arg (of_int (n + 30)) s = (Inr resp, s1)"
    unfolding s1_def
    using c f net range n timeout_fits_iff [OF range] by (intro sync_command_response) simp_all
  then have "acquire c key (VInt n) lease prefix limit s = (Inr g, s1)"
    using p unfolding acquire_eq_command [OF v] by (simp add: bindP_def)
  moreover have "sent_on s1 c = sent_on s c @ [f]" "conn_open s1 c" "sk_in (socks s1 ! c) = []"
    using len c(1) by (simp_all add: s1_def sent_on_upd_sock sent_on_def conn_open_upd_sock conn_open_def)
  ultimately show ?thesis using encode_lines_frame [OF f] by blast
qed

text \<open>The bytes of a grant line, and that they are read back as the line.\<close>

definition grant_bytes :: "pystr \<Rightarrow> int \<Rightarrow> byte list" where
  "grant_bytes tok n = concat (map utf8_char (grant_line (lit ''ok'') tok n))"

lemma field_no_newline: "is_field tok \<Longrightarrow> 0x0A \<notin> set tok \<and> 0x0D \<notin> set tok"
proof -
  assume "is_field tok"
  then have "\<forall>c \<in> set tok. \<not> is_space c" by (simp add: is_field_def list_all_iff)
  moreover have "is_space 0x0A" "is_space 0x0D" by (simp_all add: is_space_def)
  ultimately show ?thesis by blast
qed

lemma grant_line_chars:
  assumes "is_field tok" "encodable tok"
  shows "encodable (grant_line (lit ''ok'') tok n)" "0x0A \<notin> set (grant_line (lit ''ok'') tok n)"
    "grant_line (lit ''ok'') tok n \<noteq> []" "last (grant_line (lit ''ok'') tok n) \<noteq> 0x0D"
    "last (grant_line (lit ''ok'') tok n) \<noteq> 0x0A"
proof -
  have i: "0x0A \<notin> set (int_text n)" "0x0D \<notin> set (int_text n)" "encodable (int_text n)"
    using field_no_newline [OF is_field_int_text [of n]] ascii_wire_size [OF int_text_ascii] by simp_all
  show "encodable (grant_line (lit ''ok'') tok n)" "0x0A \<notin> set (grant_line (lit ''ok'') tok n)"
    using assms field_no_newline [OF assms(1)] i
    by (auto simp: grant_line_def encodable_def is_scalar_def is_surrogate_def)
  show "grant_line (lit ''ok'') tok n \<noteq> []" by (simp add: grant_line_def)
  have "last (grant_line (lit ''ok'') tok n) = last (int_text n)" by (simp add: grant_line_def)
  then show "last (grant_line (lit ''ok'') tok n) \<noteq> 0x0D" "last (grant_line (lit ''ok'') tok n) \<noteq> 0x0A"
    using i int_text_nonempty [of n] by (metis last_in_set)+
qed

lemma wire_size_concat: "length (concat (map utf8_char s)) = wire_size s"
  by (simp add: wire_size_def length_concat comp_def)

lemma line_response:
  assumes line: "utf8_encode body = Inr bs" "0x0A \<notin> set body" "body \<noteq> []" "last body \<noteq> 0x0D" "last body \<noteq> 0x0A"
    and len: "length bs + 2 \<le> MAX_RESPONSE_LINE_BYTES"
    and nl: "nl = [0x0A] \<or> nl = [0x0D, 0x0A] \<or> nl = [] \<and> e = Eof"
  shows "response (bs @ nl) e body"
proof -
  have lf: "0x0A \<notin> set bs" using utf8_encode_no_LF [OF line(1)] line(2) by simp
  define nlt :: pystr where "nlt = map unat nl"
  have nlt: "utf8_encode nlt = Inr nl" "rstrip [0x0D, 0x0A] (body @ nlt) = body"
    using nl line(3,4,5) rstrip_id [of body "[0x0D, 0x0A]"]
      rstrip_snoc [of "[0x0D, 0x0A]" "0x0A" body] rstrip_snoc [of "[0x0D, 0x0A]" "0x0D" body]
      rstrip_snoc [of "[0x0D, 0x0A]" "0x0A" "body @ [0x0D]"]
    by (auto simp: nlt_def utf8_encode_def is_scalar_def is_surrogate_def utf8_char_def byte_of_def)
  have "utf8_encode (body @ nlt) = Inr (bs @ nl)"
    using line(1) nlt(1) by (simp add: utf8_encode_append)
  then have "utf8_decode (bs @ nl) = Some (body @ nlt)" by (rule utf8_decode_encode)
  moreover have "bs \<noteq> []" using line by (auto simp: utf8_encode_inj dest: utf8_decode_encode)
  ultimately show ?thesis
    using nl lf len nlt(2) unfolding response_def by (auto simp: butlast_append)
qed

lemma grant_response:
  assumes tok: "is_field tok" "encodable tok" "wire_size tok \<le> 1000"
    and n: "1 \<le> n" "n \<le> MAX_PROTOCOL_SECONDS"
    and nl: "nl = [0x0A] \<or> nl = [0x0D, 0x0A] \<or> nl = [] \<and> e = Eof"
  shows "response (grant_bytes tok n @ nl) e (grant_line (lit ''ok'') tok n)"
proof (rule line_response [OF _ _ _ _ _ _ nl])
  show "utf8_encode (grant_line (lit ''ok'') tok n) = Inr (grant_bytes tok n)"
    using grant_line_chars(1) [OF tok(1,2)] by (simp add: utf8_encode_eq_Inr grant_bytes_def)
  have "wire_size (int_text n) \<le> 10"
    using int_text_line(3) [of n 10] n protocol_seconds_small [of n] by (simp add: MAX_STR_DIGITS_def)
  then have "length (grant_bytes tok n) \<le> 2000"
    using tok(3) unfolding grant_bytes_def wire_size_concat
    by (simp add: grant_line_def wire_size_def utf8_char_def)
  then show "length (grant_bytes tok n) + 2 \<le> MAX_RESPONSE_LINE_BYTES" by (simp add: limits)
qed (use grant_line_chars [OF tok(1,2)] in auto)

text \<open>
  An acquire on an open connection, against a server that grants: for arguments the validators
  accept and a server-side timeout up to \<open>9223372006\<close> seconds, the client sends exactly the frame of
  the command, key and argument, returns the token and the lease the server printed (with either line
  ending), and leaves the connection open with nothing unread.
\<close>

lemma acquire_returns_grant:
  assumes "validate_prefix_limit prefix limit = Inr ()" "validate_key (lit ''key'') key = Inr ()"
    "make_acquire_arg (VInt n) (opt_int limit) lease = Inr arg" "n \<le> LARGEST_USABLE_TIMEOUT_S"
    and "conn_open s c" "\<not> sk_shut (socks s ! c)" "sk_in (socks s ! c) = []"
    and "is_field tok" "encodable tok" "wire_size tok \<le> 1000" "1 \<le> k" "k \<le> MAX_PROTOCOL_SECONDS"
    and "nl = [0x0A] \<or> nl = [0x0D, 0x0A]" "ios s = Io (grant_bytes tok k @ nl) e # r"
  shows "\<exists>f s'. acquire c key (VInt n) lease prefix limit s = (Inr (tok, k), s') \<and>
    frame_lines f = map Some [prefix @ lit ''l'', key, arg] \<and> sent_on s' c = sent_on s c @ [f] \<and>
    conn_open s' c \<and> sk_in (socks s' ! c) = []"
proof (rule acquire_on_response)
  show "response (grant_bytes tok k @ nl) e (grant_line (lit ''ok'') tok k)"
    using assms by (intro grant_response) auto
  have "starts_with (grant_line (lit ''ok'') tok k) (lit ''ok '')"
    by (simp add: grant_line_def starts_with_def)
  then show "parse_grant_response (grant_line (lit ''ok'') tok k) (op_label prefix (lit ''acquire'')) = Inr (tok, k)"
    using grant_line_split [OF is_field_ok assms(8)] py_int_seconds [of k] assms(11,12)
    by (auto simp: parse_grant_iff)
qed (use assms in auto)

lemma sample_args:
  "validate_prefix_limit [] VNone = Inr ()" "validate_key (lit ''key'') (lit ''k'') = Inr ()"
  "make_acquire_arg (VInt 10) (opt_int VNone) VNone = Inr (lit ''10'')"
  "is_field (lit ''ab12'')" "encodable (lit ''ab12'')" "wire_size (lit ''ab12'') \<le> 1000"
  by (simp_all add: make_acquire_arg_def build_acquire_arg_def append_optional_int_def res_simps
      validator_iff limits opt_int_def is_None_def py_str_int_def int_text_def nat_digits.simps
      MAX_STR_DIGITS_def encodable_def is_scalar_def is_surrogate_def wire_size_def utf8_char_def
      is_field_def is_space_def)

text \<open>
  C37. The end of the stream is not told from the end of a line: if the connection breaks after some
  digits of the lease, the client accepts the digits it has.  Here the server printed \<open>full\<close>, whose
  decimal text starts with that of \<open>k\<close>, the rest of the line was lost, and the acquire returns \<open>k\<close>.
\<close>

theorem truncated_grant_accepted:
  assumes "validate_prefix_limit prefix limit = Inr ()" "validate_key (lit ''key'') key = Inr ()"
    "make_acquire_arg (VInt n) (opt_int limit) lease = Inr arg" "n \<le> LARGEST_USABLE_TIMEOUT_S"
    and "conn_open s c" "\<not> sk_shut (socks s ! c)" "sk_in (socks s ! c) = []"
    and "is_field tok" "encodable tok" "wire_size tok \<le> 1000" "1 \<le> k" "k \<le> MAX_PROTOCOL_SECONDS"
    and "grant_bytes tok full = grant_bytes tok k @ lost" "ios s = Io (grant_bytes tok k) Eof # r"
  shows "\<exists>s'. acquire c key (VInt n) lease prefix limit s = (Inr (tok, k), s')"
proof -
  have resp: "response (grant_bytes tok k) Eof (grant_line (lit ''ok'') tok k)"
    using assms grant_response [of tok k "[]" Eof] by simp
  have "starts_with (grant_line (lit ''ok'') tok k) (lit ''ok '')"
    by (simp add: grant_line_def starts_with_def)
  then have "parse_grant_response (grant_line (lit ''ok'') tok k) (op_label prefix (lit ''acquire'')) = Inr (tok, k)"
    using grant_line_split [OF is_field_ok assms(8)] py_int_seconds [of k] assms(11,12)
    by (auto simp: parse_grant_iff)
  with acquire_on_response [OF assms(1-7,14) resp] show ?thesis by blast
qed

theorem truncated_grant_accepted_witness:
  "\<exists>s'. acquire 0 (lit ''k'') (VInt 10) VNone [] VNone
      (one_conn [Io (grant_bytes (lit ''ab12'') 3) Eof]) = (Inr (lit ''ab12'', 3), s') \<and>
    grant_bytes (lit ''ab12'') 33 = grant_bytes (lit ''ab12'') 3 @ [0x33]"
proof -
  have n: "10 \<le> LARGEST_USABLE_TIMEOUT_S" "(3 :: int) \<le> MAX_PROTOCOL_SECONDS"
    by (simp_all add: LARGEST_USABLE_TIMEOUT_S_def limits)
  have cut: "grant_bytes (lit ''ab12'') 33 = grant_bytes (lit ''ab12'') 3 @ [0x33]"
    by (simp add: grant_bytes_def grant_line_def int_text_def nat_digits.simps utf8_char_def byte_of_def)
  from n cut show ?thesis
    using truncated_grant_accepted [OF sample_args(1-3), of "one_conn [Io (grant_bytes (lit ''ab12'') 3) Eof]"
        0 "lit ''ab12''" 3 33 "[0x33]" "[]"] sample_args(4-6)
    by (simp del: lit_Cons)
qed

section \<open>Limits\<close>

lemma wait_eq_command:
  assumes "validate_prefix prefix = Inr ()" "validate_key (lit ''key'') key = Inr ()" "make_wait_arg (VInt n) = Inr arg"
  shows "wait c key (VInt n) prefix s =
    bindP (sync_command c (prefix @ lit ''w'') key arg (of_int (n + 30)))
      (\<lambda>resp. liftE (parse_grant_response resp (op_label prefix (lit ''wait'')))) s"
proof -
  have "0 \<le> n" "n \<le> MAX_PROTOCOL_SECONDS" using assms(3) by (auto elim: make_wait_argD)
  then show ?thesis
    using assms slack_exact [of n]
    by (simp add: wait_def wait_via_def bindP_liftE cmd_name_def del: lit_Cons of_int_add)
qed

lemma accepted_wait_arg:
  assumes "validate_timeout_s (lit ''wait_timeout_s'') (VInt n) = Inr ()"
  shows "make_wait_arg (VInt n) = Inr (int_text n)" "encodable (int_text n)"
    "0x0A \<notin> set (int_text n)" "0x0D \<notin> set (int_text n)"
proof -
  have n: "0 \<le> n" "n \<le> MAX_PROTOCOL_SECONDS" using assms by (simp_all add: validator_iff)
  have digits: "py_str_int n = Inr (int_text n)" "encodable (int_text n)" "0x0A \<notin> set (int_text n)" "0x0D \<notin> set (int_text n)"
    "wire_size (int_text n) \<le> 10"
    using int_text_line [of n 10] n protocol_seconds_small [of n] by (simp_all add: MAX_STR_DIGITS_def)
  then show "make_wait_arg (VInt n) = Inr (int_text n)" "encodable (int_text n)"
    "0x0A \<notin> set (int_text n)" "0x0D \<notin> set (int_text n)"
    using n by (simp_all add: make_wait_arg_def build_wait_arg_def res_simps validator_iff limits)
qed

text \<open>The socket refuses such a timeout before anything is sent, and the connection is closed.\<close>

lemma huge_timeout_command:
  assumes "0 \<le> n" "n \<le> MAX_PROTOCOL_SECONDS" "LARGEST_USABLE_TIMEOUT_S < n" "encode_lines [cmd, key, arg] = Inr f"
  shows "\<exists>e s'. bindP (sync_command c cmd key arg (of_int (n + 30))) m s = (Inl e, s') \<and>
    exn_class e = OverflowError \<and> sent_on s' c = sent_on s c \<and> cut_on s' c = cut_on s c \<and> \<not> conn_open s' c"
proof -
  have "settimeout c (of_int (n + 30)) s =
      (raiseE OverflowError [Txt (lit ''timestamp out of range for platform time_t'')], s)"
    using assms timeout_fits_iff [OF assms(1,2)] by (simp add: settimeout_def)
  then have "sync_command c cmd key arg (of_int (n + 30)) s =
      (raiseE OverflowError [Txt (lit ''timestamp out of range for platform time_t'')],
       upd_sock c (\<lambda>k. k\<lparr>sk_open := False\<rparr>) s)"
    using assms(4) by (simp add: sync_command_def bindP_liftE tryP_def bindP_def conn_close_run)
  then show ?thesis
    by (auto simp: bindP_def conn_open_upd_sock sent_on_upd_sock sent_on_def cut_on_upd_sock cut_on_def)
qed

text \<open>
  C36. The validators accept timeouts the sync client's socket cannot take: for every server-side timeout
  above \<open>9223372006\<close> that \<open>validate_timeout_s\<close> accepts, and other arguments the validators accept, the
  functions \<open>acquire\<close> and \<open>wait\<close> of \<open>_sync.py\<close>, and with them \<open>sem_acquire\<close> and \<open>sem_wait\<close>, raise
  \<open>OverflowError\<close>, send nothing and close the connection.
\<close>

theorem huge_timeout_overflows:
  assumes "validate_prefix_limit prefix limit = Inr ()" "validate_key (lit ''key'') key = Inr ()"
    "make_acquire_arg (VInt n) (opt_int limit) lease = Inr arg" "LARGEST_USABLE_TIMEOUT_S < n"
  shows "(\<exists>e s'. acquire c key (VInt n) lease prefix limit s = (Inl e, s') \<and>
      exn_class e = OverflowError \<and> sent_on s' c = sent_on s c \<and> cut_on s' c = cut_on s c \<and> \<not> conn_open s' c) \<and>
    (\<exists>e s'. wait c key (VInt n) prefix s = (Inl e, s') \<and>
      exn_class e = OverflowError \<and> sent_on s' c = sent_on s c \<and> cut_on s' c = cut_on s c \<and> \<not> conn_open s' c) \<and>
    (prefix = lit ''s'' \<longrightarrow> acquire c key (VInt n) lease prefix limit = sem_acquire c key (VInt n) limit lease \<and>
      wait c key (VInt n) prefix = sem_wait c key (VInt n))"
proof -
  have n: "0 \<le> n" "n \<le> MAX_PROTOCOL_SECONDS" using assms(3) by (auto elim: make_acquire_argD)
  obtain f where f: "encode_lines [prefix @ lit ''l'', key, arg] = Inr f"
    using accepted_acquire_frame [OF assms(1-3)] by blast
  have prefix: "validate_prefix prefix = Inr ()" using assms(1) by (auto simp: validator_iff)
  have timeout: "validate_timeout_s (lit ''wait_timeout_s'') (VInt n) = Inr ()" using n by (simp add: validator_iff)
  note arg = accepted_wait_arg [OF timeout]
  have "\<exists>f. encode_lines [prefix @ lit ''w'', key, int_text n] = Inr f"
    using arg(2-4) assms(2) prefix
    by (auto simp: encode_lines_eq_Inr validator_iff encodable_def is_scalar_def is_surrogate_def)
  then obtain f' where f': "encode_lines [prefix @ lit ''w'', key, int_text n] = Inr f'" by blast
  show ?thesis
  proof (intro conjI impI)
    show "\<exists>e s'. acquire c key (VInt n) lease prefix limit s = (Inl e, s') \<and>
        exn_class e = OverflowError \<and> sent_on s' c = sent_on s c \<and> cut_on s' c = cut_on s c \<and> \<not> conn_open s' c"
      unfolding acquire_eq_command [OF assms(1-3)] by (rule huge_timeout_command [OF n assms(4) f])
    show "\<exists>e s'. wait c key (VInt n) prefix s = (Inl e, s') \<and>
        exn_class e = OverflowError \<and> sent_on s' c = sent_on s c \<and> cut_on s' c = cut_on s c \<and> \<not> conn_open s' c"
      unfolding wait_eq_command [OF prefix assms(2) arg(1)] by (rule huge_timeout_command [OF n assms(4) f'])
  qed (simp_all add: sem_acquire_def sem_wait_def)
qed

theorem huge_timeout_overflows_witness:
  "(\<exists>e s'. acquire 0 (lit ''k'') (VInt 9223372036) VNone [] VNone (one_conn []) = (Inl e, s') \<and>
      exn_class e = OverflowError \<and> sent_on s' 0 = []) \<and>
    (\<exists>e s'. wait 0 (lit ''k'') (VInt 9223372036) [] (one_conn []) = (Inl e, s') \<and>
      exn_class e = OverflowError \<and> sent_on s' 0 = [])"
proof -
  have n: "LARGEST_USABLE_TIMEOUT_S < 9223372036" by (simp add: LARGEST_USABLE_TIMEOUT_S_def)
  have arg: "make_acquire_arg (VInt 9223372036) (opt_int VNone) VNone = Inr (lit ''9223372036'')"
    by (simp add: make_acquire_arg_def build_acquire_arg_def append_optional_int_def res_simps
        validator_iff limits opt_int_def is_None_def py_str_int_def int_text_def nat_digits.simps
        MAX_STR_DIGITS_def encodable_def is_scalar_def is_surrogate_def wire_size_def utf8_char_def)
  from huge_timeout_overflows [OF sample_args(1,2) arg n, of 0 "one_conn []"]
  show ?thesis unfolding one_conn_simps(5) by blast
qed

text \<open>
  A response is bounded: what \<open>_read_line\<close> returns came from a prefix of the bytes received, at
  most 1 MiB long and without an inner line feed, which is the first line or, when the peer has
  closed, all there is; and a line longer than 1 MiB is refused with a \<open>RuntimeError\<close>.
\<close>

lemma line_length_prefix:
  "line_length l buf = Some n \<Longrightarrow> n \<le> length buf \<and> n \<le> l \<and> 0x0A \<notin> set (butlast (take n buf))"
proof -
  assume n: "line_length l buf = Some n"
  define i where "i = length (takeWhile (\<lambda>b. b \<noteq> 0x0A) buf)"
  have noLF: "m \<le> i \<Longrightarrow> 0x0A \<notin> set (take m buf)" for m
    unfolding i_def by (metis (mono_tags) set_takeWhileD takeWhile_eq_take take_take min.absorb1 in_set_takeD)
  have but: "m \<le> length buf \<Longrightarrow> butlast (take m buf) = take (m - 1) buf" for m
    by (simp add: butlast_take)
  consider "i < length buf" "i < l" "n = i + 1" | "\<not> (i < length buf \<and> i < l)" "l \<le> length buf" "n = l"
    using n unfolding line_length_def Let_def i_def [symmetric] by (auto split: if_splits)
  then show ?thesis
  proof cases
    case 1
    then show ?thesis using noLF [of i] but [of n] by simp
  next
    case 2
    then have "n - 1 \<le> i" by linarith
    then show ?thesis using noLF [of "n - 1"] but [of n] 2 by simp
  qed
qed

lemma response_bounded:
  assumes "conn_open s c"
  shows "case read_line c s of
     (Inr txt, s') \<Rightarrow> \<exists>n raw u. raw = take n (sk_in (socks s ! c)) \<and> raw \<noteq> [] \<and>
       length raw \<le> MAX_RESPONSE_LINE_BYTES \<and> 0x0A \<notin> set (butlast raw) \<and>
       utf8_decode raw = Some u \<and> txt = rstrip [0x0D, 0x0A] u \<and>
       sk_in (socks s' ! c) = drop n (sk_in (socks s ! c))
   | (Inl e, s') \<Rightarrow> line_length (MAX_RESPONSE_LINE_BYTES + 1) (sk_in (socks s ! c))
         = Some (MAX_RESPONSE_LINE_BYTES + 1) \<longrightarrow> exn_class e = RuntimeError"
proof -
  define buf where "buf = sk_in (socks s ! c)"
  have c: "c < length (socks s)" using assms by (simp add: conn_open_def)
  show ?thesis
  proof (cases "line_length (MAX_RESPONSE_LINE_BYTES + 1) buf")
    case (Some n)
    note pre = line_length_prefix [OF Some]
    have run: "readline c (MAX_RESPONSE_LINE_BYTES + 1) s =
        (Inr (take n buf), upd_sock c (\<lambda>k. k\<lparr>sk_in := drop n (sk_in k)\<rparr>) s)"
      using Some by (simp add: readline_def buf_def)
    show ?thesis
      using pre c unfolding read_line_def bindP_def run buf_def [symmetric] trim_response_line_def
      by (auto simp: buf_def [symmetric] Some [simplified] bindE_def raise_if_def
          split: option.splits sum.splits if_splits)
  next
    case None
    then have "length buf \<le> MAX_RESPONSE_LINE_BYTES"
      "\<not> length (takeWhile (\<lambda>b. b \<noteq> 0x0A) buf) < length buf"
      by (auto simp: line_length_def Let_def split: if_splits)
    moreover from this(2) have "takeWhile (\<lambda>b. b \<noteq> 0x0A) buf = buf"
      by (metis takeWhile_eq_take take_all not_less)
    ultimately have noLF: "0x0A \<notin> set buf" "length buf \<le> MAX_RESPONSE_LINE_BYTES"
      by (metis (mono_tags, lifting) set_takeWhileD)+
    show ?thesis
      using None noLF c unfolding read_line_def bindP_def readline_def buf_def [symmetric] Let_def
        trim_response_line_def
      by (auto simp: buf_def [symmetric] bindE_def raise_if_def in_set_butlastD
          split: option.splits sum.splits if_splits ending.splits)
  qed
qed

section \<open>Dialling\<close>

text \<open>
  Dialling leaks nothing: \<open>open_conn\<close> either returns a fresh connection, the only new open socket,
  or raises and leaves exactly the sockets open that were open before, also when the TLS handshake or
  the socket option fails after the connection was made.  Bad arguments do not reach the network.
\<close>

lemma open_conn_no_leak:
  "case open_conn host port tls ct s of
     (Inr c, s') \<Rightarrow> c = length (socks s) \<and> socks s' = socks s @ [fresh_sock]
   | (Inl e, s') \<Rightarrow> {d. conn_open s' d} = {d. conn_open s d} \<and>
       (if okE (validate_connect_timeout_s ct) \<and> okE (validate_server_endpoint host port) then True
        else s' = s)"
  using open_socket_run [where tls = tls and t = "rat_val ct" and s = s]
  by (auto simp: open_conn_def bindP_liftE split: sum.splits prod.splits)

end
