(* ===== verification/Py_Json.thy ===== *)
theory Py_Json
  imports Decoders Fencing Py_Float "HOL-Library.AList"
begin

text \<open>
  \<^verbatim>\<open>json.loads\<close> of the standard library, as its scanner works on text: white space, the three constants, the
  non-standard \<^verbatim>\<open>NaN\<close> and \<^verbatim>\<open>Infinity\<close>, numbers, strings with their escapes, arrays and objects (of two
  equal keys the last value counts).  A syntax error is a \<open>JSONDecodeError\<close>; an integer of more than 4300
  digits is a plain \<open>ValueError\<close>, and nesting beyond the interpreter's recursion limit, an argument of the
  model, a \<open>RecursionError\<close>.  \<open>json_text\<close> is what a server prints, without white space; the theorem is the
  round trip.
\<close>

definition json_error :: "string \<Rightarrow> 'a res" where
  "json_error msg = raiseE JSONDecodeError [Txt (lit msg)]"

definition is_json_space :: "nat \<Rightarrow> bool" where
  "is_json_space c \<longleftrightarrow> c = 0x20 \<or> c = 0x09 \<or> c = 0x0A \<or> c = 0x0D"

definition skip_space :: "pystr \<Rightarrow> pystr" where
  "skip_space = dropWhile is_json_space"

section \<open>Strings\<close>

definition hex4 :: "pystr \<Rightarrow> (nat \<times> pystr) option" where
  "hex4 s =
    (if length (take 4 s) = 4 \<and> list_all (\<lambda>c. hex_val c \<noteq> None) (take 4 s)
     then Some (hex_nat (take 4 s), drop 4 s) else None)"

definition simple_escape :: "nat \<Rightarrow> nat option" where
  "simple_escape c =
    map_of [(0x22, 0x22), (0x5C, 0x5C), (0x2F, 0x2F), (0x62, 0x08), (0x66, 0x0C), (0x6E, 0x0A),
      (0x72, 0x0D), (0x74, 0x09)] c"

text \<open>The second half of a surrogate pair, when there is one.\<close>

definition join_surrogates :: "nat \<Rightarrow> pystr \<Rightarrow> (nat \<times> pystr) res" where
  "join_surrogates u r =
    (if 0xD800 \<le> u \<and> u \<le> 0xDBFF \<and> starts_with r [0x5C, 0x75]
     then (case hex4 (drop 2 r) of
         None \<Rightarrow> json_error ''Invalid uXXXX escape''
       | Some (v, r') \<Rightarrow>
           if 0xDC00 \<le> v \<and> v \<le> 0xDFFF
           then Inr (0x10000 + ((u - 0xD800) * 1024 + (v - 0xDC00)), r') else Inr (u, r))
     else Inr (u, r))"

definition json_escape :: "pystr \<Rightarrow> (nat \<times> pystr) res" where
  "json_escape s =
    (case s of
       [] \<Rightarrow> json_error ''Unterminated string starting at''
     | c # r \<Rightarrow>
         if c \<noteq> 0x75
         then (case simple_escape c of None \<Rightarrow> json_error ''Invalid escape'' | Some d \<Rightarrow> Inr (d, r))
         else (case hex4 r of
             None \<Rightarrow> json_error ''Invalid uXXXX escape''
           | Some (u, r') \<Rightarrow> join_surrogates u r'))"

lemma hex4_length: "hex4 s = Some (u, r) \<Longrightarrow> length r < length s"
  by (auto simp: hex4_def split: if_splits)

lemma json_escape_length: "json_escape s = Inr (d, r) \<Longrightarrow> length r < length s"
  by (auto simp: json_escape_def join_surrogates_def json_error_def starts_with_def dest!: hex4_length
      split: list.splits if_splits option.splits)

function json_string :: "pystr \<Rightarrow> (pystr \<times> pystr) res" where
  "json_string [] = json_error ''Unterminated string starting at''"
| "json_string (c # s) =
    (if c = 0x22 then Inr ([], s)
     else if c < 0x20 then json_error ''Invalid control character at''
     else if c \<noteq> 0x5C then bindE (json_string s) (\<lambda>(cs, r). Inr (c # cs, r))
     else (case json_escape s of
         Inl e \<Rightarrow> Inl e
       | Inr (d, s') \<Rightarrow> bindE (json_string s') (\<lambda>(cs, r). Inr (d # cs, r))))"
  by pat_completeness auto
termination
  by (relation "measure length") (auto dest: json_escape_length)

section \<open>Numbers\<close>

definition is_digit :: "nat \<Rightarrow> bool" where
  "is_digit c \<longleftrightarrow> 0x30 \<le> c \<and> c \<le> 0x39"

definition digits_value :: "pystr \<Rightarrow> nat" where
  "digits_value ds = horner10 (map (\<lambda>c. c - 0x30) ds)"

text \<open>The digits of the integer part: a lone \<open>0\<close>, or digits that do not start with one.\<close>

definition int_part :: "pystr \<Rightarrow> (pystr \<times> pystr) option" where
  "int_part s =
    (case s of
       [] \<Rightarrow> None
     | c # r \<Rightarrow>
         if c = 0x30 then Some ([c], r)
         else if is_digit c then Some (takeWhile is_digit s, dropWhile is_digit s)
         else None)"

definition frac_part :: "pystr \<Rightarrow> pystr \<times> pystr" where
  "frac_part s =
    (case s of
       c # r \<Rightarrow>
         if c = 0x2E \<and> takeWhile is_digit r \<noteq> [] then (takeWhile is_digit r, dropWhile is_digit r) else ([], s)
     | [] \<Rightarrow> ([], s))"

definition exp_part :: "pystr \<Rightarrow> int option \<times> pystr" where
  "exp_part s =
    (case s of
       c # r \<Rightarrow>
         if c \<noteq> 0x65 \<and> c \<noteq> 0x45 then (None, s)
         else let (neg, r') = (case r of d # u \<Rightarrow> if d = 0x2D then (True, u) else if d = 0x2B then (False, u) else (False, r)
                               | [] \<Rightarrow> (False, r));
                  ds = takeWhile is_digit r' in
           if ds = [] then (None, s)
           else (Some ((if neg then -1 else 1) * int (digits_value ds)), dropWhile is_digit r')
     | [] \<Rightarrow> (None, s))"

text \<open>\<^verbatim>\<open>float(text)\<close>: the nearest double, infinite from \<open>2 ^ 1024\<close> on.\<close>

definition to_float :: "rat \<Rightarrow> pyfloat" where
  "to_float q = (if 2 ^ 1024 \<le> fl q then PInf else if fl q \<le> - (2 ^ 1024) then NInf else Fin (fl q))"

definition minus_sign :: "pystr \<Rightarrow> bool \<times> pystr" where
  "minus_sign s = (case s of c # r \<Rightarrow> if c = 0x2D then (True, r) else (False, s) | [] \<Rightarrow> (False, s))"

definition json_number :: "pystr \<Rightarrow> (pyval \<times> pystr) res" where
  "json_number s =
    (let (neg, s0) = minus_sign s;
         sign = (if neg then -1 else 1) in
     case int_part s0 of
       None \<Rightarrow> json_error ''Expecting value''
     | Some (ds, s1) \<Rightarrow>
         let (fs, s2) = frac_part s1; (e, s3) = exp_part s2 in
         if fs = [] \<and> e = None
         then (if MAX_STR_DIGITS < length ds
               then raiseE ValueError [Txt (lit ''Exceeds the limit (4300 digits) for integer string conversion'')]
               else Inr (VInt (sign * int (digits_value ds)), s3))
         else Inr (VFloat (to_float (of_int (sign * int (digits_value (ds @ fs))) *
                10 powi ((case e of None \<Rightarrow> 0 | Some n \<Rightarrow> n) - int (length fs)))), s3))"

section \<open>Values\<close>

text \<open>The constants, and what is left: a number.\<close>

definition json_atom :: "pystr \<Rightarrow> (pyval \<times> pystr) res" where
  "json_atom s =
    (if starts_with s (lit ''null'') then Inr (VNone, drop 4 s)
     else if starts_with s (lit ''true'') then Inr (VBool True, drop 4 s)
     else if starts_with s (lit ''false'') then Inr (VBool False, drop 5 s)
     else if starts_with s (lit ''NaN'') then Inr (VFloat NaN, drop 3 s)
     else if starts_with s (lit ''Infinity'') then Inr (VFloat PInf, drop 8 s)
     else if starts_with s (lit ''-Infinity'') then Inr (VFloat NInf, drop 9 s)
     else json_number s)"

text \<open>The items of an array and the members of an object, given the scanner \<open>p\<close> of their values.  Every
  turn consumes text, so the length of the text bounds the turns.\<close>

fun json_items :: "(pystr \<Rightarrow> (pyval \<times> pystr) res) \<Rightarrow> nat \<Rightarrow> pystr \<Rightarrow> (pyval list \<times> pystr) res" where
  "json_items p 0 s = json_error ''Expecting value''"
| "json_items p (Suc n) s =
    bindE (p s) (\<lambda>(v, r).
    case skip_space r of
      [] \<Rightarrow> json_error ''Expecting comma delimiter''
    | c # r' \<Rightarrow>
        if c = 0x5D then Inr ([v], r')
        else if c = 0x2C then bindE (json_items p n (skip_space r')) (\<lambda>(vs, u). Inr (v # vs, u))
        else json_error ''Expecting comma delimiter'')"

fun json_members ::
  "(pystr \<Rightarrow> (pyval \<times> pystr) res) \<Rightarrow> nat \<Rightarrow> pystr \<Rightarrow> ((pystr \<times> pyval) list \<times> pystr) res"
where
  "json_members p 0 s = json_error ''Expecting property name enclosed in double quotes''"
| "json_members p (Suc n) s =
    (if \<not> starts_with s [0x22]
     then json_error ''Expecting property name enclosed in double quotes''
     else bindE (json_string (tl s)) (\<lambda>(k, r).
       if \<not> starts_with (skip_space r) [0x3A] then json_error ''Expecting colon delimiter''
       else bindE (p (skip_space (tl (skip_space r)))) (\<lambda>(v, r2).
         case skip_space r2 of
           [] \<Rightarrow> json_error ''Expecting comma delimiter''
         | c # r' \<Rightarrow>
             if c = 0x7D then Inr ([(k, v)], r')
             else if c = 0x2C
             then bindE (json_members p n (skip_space r')) (\<lambda>(kvs, u). Inr ((k, v) # kvs, u))
             else json_error ''Expecting comma delimiter'')))"

text \<open>\<^verbatim>\<open>dict(pairs)\<close>\<close>

definition dict_of :: "(pystr \<times> pyval) list \<Rightarrow> (pystr \<times> pyval) list" where
  "dict_of kvs = fold (\<lambda>(k, v) d. AList.update k v d) kvs []"

definition json_array :: "(pystr \<Rightarrow> (pyval \<times> pystr) res) \<Rightarrow> pystr \<Rightarrow> (pyval \<times> pystr) res" where
  "json_array p s =
    (let s' = skip_space s in
     if starts_with s' [0x5D] then Inr (VList [], tl s')
     else bindE (json_items p (length s') s') (\<lambda>(vs, r). Inr (VList vs, r)))"

definition json_object :: "(pystr \<Rightarrow> (pyval \<times> pystr) res) \<Rightarrow> pystr \<Rightarrow> (pyval \<times> pystr) res" where
  "json_object p s =
    (let s' = skip_space s in
     if starts_with s' [0x7D] then Inr (VDict [], tl s')
     else bindE (json_members p (length s') s') (\<lambda>(kvs, r). Inr (VDict (dict_of kvs), r)))"

text \<open>\<open>None\<close> instead of a scanner: the recursion limit is reached.\<close>

definition json_scan ::
  "(pystr \<Rightarrow> (pyval \<times> pystr) res) option \<Rightarrow> pystr \<Rightarrow> (pyval \<times> pystr) res"
where
  "json_scan p s =
    (case s of
       [] \<Rightarrow> json_error ''Expecting value''
     | c # r \<Rightarrow>
         if c = 0x22 then bindE (json_string r) (\<lambda>(t, u). Inr (VStr t, u))
         else if c = 0x7B \<or> c = 0x5B
         then (case p of
                 None \<Rightarrow> raiseE RecursionError [Txt (lit ''maximum recursion depth exceeded'')]
               | Some p \<Rightarrow> if c = 0x7B then json_object p r else json_array p r)
         else json_atom s)"

primrec json_value :: "nat \<Rightarrow> pystr \<Rightarrow> (pyval \<times> pystr) res" where
  "json_value 0 = json_scan None"
| "json_value (Suc d) = json_scan (Some (json_value d))"

definition json_loads :: "nat \<Rightarrow> pystr \<Rightarrow> pyval res" where
  "json_loads limit s =
    (if starts_with s [0xFEFF] then json_error ''Unexpected UTF-8 BOM''
     else bindE (json_value limit (skip_space s)) (\<lambda>(v, r).
       if skip_space r = [] then Inr v else json_error ''Extra data''))"

section \<open>What the server prints\<close>

definition json_char :: "nat \<Rightarrow> pystr" where
  "json_char c =
    (if c = 0x22 \<or> c = 0x5C then [0x5C, c]
     else if c < 0x20 then [0x5C, 0x75] @ hex_text 4 c
     else [c])"

definition json_quote :: "pystr \<Rightarrow> pystr" where
  "json_quote s = 0x22 # concat (map json_char s) @ [0x22]"

fun json_text :: "pyval \<Rightarrow> pystr"
  and json_texts :: "pyval list \<Rightarrow> pystr"
  and json_pairs :: "(pystr \<times> pyval) list \<Rightarrow> pystr"
where
  "json_text (VBool b) = (if b then lit ''true'' else lit ''false'')"
| "json_text (VInt n) = int_text n"
| "json_text (VStr s) = json_quote s"
| "json_text (VList vs) = 0x5B # json_texts vs @ [0x5D]"
| "json_text (VDict kvs) = 0x7B # json_pairs kvs @ [0x7D]"
| "json_text _ = lit ''null''"
| "json_texts [] = []"
| "json_texts [v] = json_text v"
| "json_texts (v # vs) = json_text v @ 0x2C # json_texts vs"
| "json_pairs [] = []"
| "json_pairs [(k, v)] = json_quote k @ 0x3A # json_text v"
| "json_pairs ((k, v) # kvs) = json_quote k @ 0x3A # json_text v @ 0x2C # json_pairs kvs"

text \<open>The values it can print within \<open>d\<close> levels of nesting: no float, tuple or object of another class.\<close>

fun printable :: "nat \<Rightarrow> pyval \<Rightarrow> bool" where
  "printable d VNone = True"
| "printable d (VBool b) = True"
| "printable d (VInt n) = (length (nat_digits (nat \<bar>n\<bar>)) \<le> MAX_STR_DIGITS)"
| "printable d (VStr s) = True"
| "printable 0 _ = False"
| "printable (Suc d) (VList vs) = (\<forall>v \<in> set vs. printable d v)"
| "printable (Suc d) (VDict kvs) = (distinct (map fst kvs) \<and> (\<forall>(k, v) \<in> set kvs. printable d v))"
| "printable _ _ = False"

lemma printable_others [simp]: "\<not> printable d (VFloat x)" "\<not> printable d (VTuple vs)" "\<not> printable d VOther"
  by (cases d; simp)+

section \<open>Reading what was printed\<close>

lemma json_string_char:
  "json_string (json_char c @ s) = bindE (json_string s) (\<lambda>(cs, r). Inr (c # cs, r))"
proof (cases "c = 0x22 \<or> c = 0x5C")
  case True
  then show ?thesis by (auto simp: json_char_def json_escape_def simple_escape_def)
next
  case False
  show ?thesis
  proof (cases "c < 0x20")
    case True
    then have "hex4 (hex_text 4 c @ s) = Some (c, s)"
      by (simp add: hex4_def hex_nat_def)
    with True False show ?thesis
      by (simp add: json_char_def json_escape_def join_surrogates_def)
  qed (use False in \<open>simp add: json_char_def\<close>)
qed

lemma json_string_quoted: "json_string (concat (map json_char t) @ 0x22 # s) = Inr (t, s)"
  by (induction t) (simp_all add: json_string_char)

text \<open>A text that may follow a value.\<close>

definition ends_value :: "pystr \<Rightarrow> bool" where
  "ends_value s \<longleftrightarrow> (case s of [] \<Rightarrow> True | c # _ \<Rightarrow> c = 0x2C \<or> c = 0x5D \<or> c = 0x7D)"

lemma ends_value_simps [simp]:
  "ends_value (0x2C # s)" "ends_value (0x5D # s)" "ends_value (0x7D # s)" "ends_value []"
  by (simp_all add: ends_value_def)

lemma ends_value_cases: "ends_value s \<Longrightarrow> s = [] \<or> (\<exists>c r. s = c # r \<and> (c = 0x2C \<or> c = 0x5D \<or> c = 0x7D))"
  by (cases s) (simp_all add: ends_value_def)

lemma nat_digits_hd: "0 < n \<Longrightarrow> hd (nat_digits n) \<noteq> 0"
proof (induction n rule: nat_digits.induct)
  case (1 n)
  show ?case
  proof (cases "n < 10")
    case False
    then have "0 < n div 10" by (simp add: div_greater_zero_iff)
    with 1(1) False show ?thesis by (simp add: nat_digits.simps [of n])
  qed (use 1(2) in \<open>simp add: nat_digits.simps [of n]\<close>)
qed

lemma digit_texts:
  assumes "\<And>d. d \<in> set ds \<Longrightarrow> d < 10"
  shows "\<forall>c \<in> set (map ((+) 0x30) ds). is_digit c" "digits_value (map ((+) 0x30) ds) = horner10 ds"
proof -
  show "\<forall>c \<in> set (map ((+) 0x30) ds). is_digit c" by (auto simp: is_digit_def dest!: assms)
  show "digits_value (map ((+) 0x30) ds) = horner10 ds" by (simp add: digits_value_def o_def)
qed

lemma digit_run:
  assumes "\<forall>c \<in> set ds. is_digit c" "ends_value s"
  shows "takeWhile is_digit (ds @ s) = ds" "dropWhile is_digit (ds @ s) = s"
proof -
  have "\<not> is_digit (hd s)" if "s \<noteq> []"
    using ends_value_cases [OF assms(2)] that by (auto simp: is_digit_def)
  then have "takeWhile is_digit s = [] \<and> dropWhile is_digit s = s" by (cases s) simp_all
  then show "takeWhile is_digit (ds @ s) = ds" "dropWhile is_digit (ds @ s) = s"
    using assms(1) by simp_all
qed

lemma no_frac_exp: "ends_value s \<Longrightarrow> frac_part s = ([], s) \<and> exp_part s = (None, s)"
  using ends_value_cases [of s] by (auto simp: frac_part_def exp_part_def)

lemma int_part_digits:
  assumes "ends_value s"
  shows "int_part (map ((+) 0x30) (nat_digits k) @ s) = Some (map ((+) 0x30) (nat_digits k), s)"
proof (cases "k = 0")
  case True
  then have "nat_digits k = [0]" by (simp add: nat_digits.simps)
  then show ?thesis by (simp add: int_part_def)
next
  case False
  obtain d ds where ds: "nat_digits k = d # ds" by (cases "nat_digits k") auto
  then have d: "d \<noteq> 0" "d < 10" using nat_digits_hd [of k] nat_digits_small [of d k] False by auto
  have "\<forall>c \<in> set (map ((+) 0x30) (nat_digits k)). is_digit c"
    by (rule digit_texts(1)) (rule nat_digits_small)
  note run = digit_run [OF this assms, unfolded ds]
  show ?thesis using run d unfolding ds by (simp add: int_part_def is_digit_def del: takeWhile.simps dropWhile.simps)
qed

lemma json_number_int:
  assumes "length (nat_digits (nat \<bar>n\<bar>)) \<le> MAX_STR_DIGITS" "ends_value s"
  shows "json_number (int_text n @ s) = Inr (VInt n, s)"
proof -
  let ?ds = "map ((+) 0x30) (nat_digits (nat \<bar>n\<bar>))"
  obtain d ds where ds: "nat_digits (nat \<bar>n\<bar>) = d # ds" by (cases "nat_digits (nat \<bar>n\<bar>)") auto
  have "digits_value ?ds = nat \<bar>n\<bar>"
    using digit_texts(2) [of "nat_digits (nat \<bar>n\<bar>)"] nat_digits_small by (simp add: horner10_nat_digits)
  moreover have "minus_sign (int_text n @ s) = (n < 0, ?ds @ s)"
    by (simp add: minus_sign_def int_text_def ds)
  ultimately show ?thesis
    using int_part_digits [OF assms(2)] no_frac_exp [OF assms(2)] assms(1)
    by (cases "n < 0") (simp_all add: json_number_def)
qed

lemma json_atom_int:
  assumes "length (nat_digits (nat \<bar>n\<bar>)) \<le> MAX_STR_DIGITS" "ends_value s"
  shows "json_atom (int_text n @ s) = Inr (VInt n, s)"
proof -
  obtain d ds where ds: "nat_digits (nat \<bar>n\<bar>) = d # ds" by (cases "nat_digits (nat \<bar>n\<bar>)") auto
  then have "d < 10" using nat_digits_small [of d "nat \<bar>n\<bar>"] by simp
  then have "\<not> starts_with (int_text n @ s) (lit w)"
    if "w \<in> {''null'', ''true'', ''false'', ''NaN'', ''Infinity'', ''-Infinity''}" for w
    using that by (auto simp: int_text_def ds starts_with_def)
  with json_number_int [OF assms] show ?thesis by (simp add: json_atom_def del: lit_Cons)
qed

text \<open>The first character of a printed value.\<close>

lemma json_text_start:
  "json_text v \<noteq> [] \<and> \<not> is_json_space (hd (json_text v)) \<and> hd (json_text v) \<notin> {0x5D, 0x7D, 0x2C, 0x3A, 0xFEFF}"
proof (cases v)
  case (VInt n)
  obtain d ds where ds: "nat_digits (nat \<bar>n\<bar>) = d # ds" by (cases "nat_digits (nat \<bar>n\<bar>)") auto
  then have "d < 10" using nat_digits_small [of d "nat \<bar>n\<bar>"] by simp
  with VInt ds show ?thesis by (auto simp: int_text_def is_json_space_def)
qed (auto simp: is_json_space_def json_quote_def)

lemma json_text_Cons:
  obtains c r where "json_text v = c # r" "\<not> is_json_space c" "c \<notin> {0x5D, 0x7D, 0x2C, 0x3A, 0xFEFF}"
  using json_text_start [of v] by (cases "json_text v") auto

lemma skip_none:
  "s \<noteq> [] \<Longrightarrow> \<not> is_json_space (hd s) \<Longrightarrow> skip_space (s @ t) = s @ t"
  "\<not> is_json_space c \<Longrightarrow> skip_space (c # t) = c # t" "skip_space [] = []"
  by (cases s; simp add: skip_space_def) (simp_all add: skip_space_def)

lemma skip_text [simp]: "skip_space (json_text v @ t) = json_text v @ t"
  using json_text_start by (intro skip_none) auto

lemma skip_marks [simp]:
  "skip_space (0x5D # t) = 0x5D # t" "skip_space (0x7D # t) = 0x7D # t" "skip_space (0x2C # t) = 0x2C # t"
  "skip_space (0x3A # t) = 0x3A # t" "skip_space (0x22 # t) = 0x22 # t" "skip_space [] = []"
  by (simp_all add: skip_none is_json_space_def)

text \<open>Lists of values, for a scanner that reads each of them.\<close>

definition reads :: "(pystr \<Rightarrow> (pyval \<times> pystr) res) \<Rightarrow> pyval \<Rightarrow> bool" where
  "reads p v \<longleftrightarrow> (\<forall>s. ends_value s \<longrightarrow> p (json_text v @ s) = Inr (v, s))"

lemma readsD: "reads p v \<Longrightarrow> ends_value s \<Longrightarrow> p (json_text v @ s) = Inr (v, s)"
  by (simp add: reads_def)

lemma texts_Cons: "json_texts (v # vs) = json_text v @ (if vs = [] then [] else 0x2C # json_texts vs)"
  by (cases vs) simp_all

lemma pairs_Cons:
  "json_pairs ((k, v) # kvs) = json_quote k @ 0x3A # json_text v @ (if kvs = [] then [] else 0x2C # json_pairs kvs)"
  by (cases kvs) simp_all

lemma skip_texts [simp]: "vs \<noteq> [] \<Longrightarrow> skip_space (json_texts vs @ t) = json_texts vs @ t"
  by (cases vs) (simp_all add: texts_Cons)

lemma skip_pairs [simp]: "kvs \<noteq> [] \<Longrightarrow> skip_space (json_pairs kvs @ t) = json_pairs kvs @ t"
  by (cases kvs) (auto simp: pairs_Cons json_quote_def)

lemma json_items_texts:
  "vs \<noteq> [] \<Longrightarrow> (\<And>v. v \<in> set vs \<Longrightarrow> reads p v) \<Longrightarrow> length vs \<le> n \<Longrightarrow>
    json_items p n (json_texts vs @ 0x5D # s) = Inr (vs, s)"
proof (induction vs arbitrary: n)
  case (Cons v vs)
  obtain m where n: "n = Suc m" using Cons.prems(3) by (cases n) simp_all
  show ?case
  proof (cases "vs = []")
    case True
    then show ?thesis using readsD [OF Cons.prems(2) [of v]] by (simp add: n texts_Cons)
  next
    case False
    have "json_items p m (json_texts vs @ 0x5D # s) = Inr (vs, s)"
      using Cons.prems n by (intro Cons.IH [OF False]) simp_all
    then show ?thesis
      using False readsD [OF Cons.prems(2) [of v], of "0x2C # json_texts vs @ 0x5D # s"] by (simp add: n texts_Cons)
  qed
qed simp

lemma json_members_pairs:
  "kvs \<noteq> [] \<Longrightarrow> (\<And>k v. (k, v) \<in> set kvs \<Longrightarrow> reads p v) \<Longrightarrow> length kvs \<le> n \<Longrightarrow>
    json_members p n (json_pairs kvs @ 0x7D # s) = Inr (kvs, s)"
proof (induction kvs arbitrary: n)
  case (Cons kv kvs)
  obtain m where n: "n = Suc m" using Cons.prems(3) by (cases n) simp_all
  obtain k v where kv: "kv = (k, v)" by fastforce
  have v: "reads p v" using Cons.prems(2) [of k v] kv by simp
  show ?case
  proof (cases "kvs = []")
    case True
    then show ?thesis
      using readsD [OF v, of "0x7D # s"]
      by (simp add: n kv pairs_Cons json_quote_def json_string_quoted starts_with_def)
  next
    case False
    have "json_members p m (json_pairs kvs @ 0x7D # s) = Inr (kvs, s)"
      using Cons.prems n by (intro Cons.IH [OF False]) auto
    then show ?thesis
      using False readsD [OF v, of "0x2C # json_pairs kvs @ 0x7D # s"]
      by (simp add: n kv pairs_Cons json_quote_def json_string_quoted starts_with_def)
  qed
qed simp

lemma length_texts: "length vs \<le> length (json_texts vs)"
proof (induction vs)
  case (Cons v vs)
  obtain c r where "json_text v = c # r" by (rule json_text_Cons)
  with Cons show ?case by (auto simp: texts_Cons)
qed simp

lemma length_pairs: "length kvs \<le> length (json_pairs kvs)"
  by (induction kvs) (auto simp: pairs_Cons json_quote_def)

lemma dict_of_distinct: "distinct (map fst kvs) \<Longrightarrow> dict_of kvs = kvs"
proof -
  have upd: "AList.update k v d = d @ [(k, v)]" if "k \<notin> fst ` set d" for k v and d :: "(pystr \<times> pyval) list"
    using that by (induction d) auto
  have "fold (\<lambda>(k, v) d. AList.update k v d) kvs acc = acc @ kvs"
    if "distinct (map fst kvs)" "fst ` set kvs \<inter> fst ` set acc = {}" for acc
    using that by (induction kvs arbitrary: acc) (auto simp: upd)
  then show "distinct (map fst kvs) \<Longrightarrow> dict_of kvs = kvs" by (simp add: dict_of_def)
qed

lemma json_array_text:
  assumes "\<And>v. v \<in> set vs \<Longrightarrow> reads p v"
  shows "json_array p (json_texts vs @ 0x5D # s) = Inr (VList vs, s)"
proof (cases "vs = []")
  case False
  have "\<not> starts_with (json_texts vs @ 0x5D # s) [0x5D]"
  proof (cases vs)
    case (Cons v us)
    obtain c r where "json_text v = c # r" "c \<notin> {0x5D, 0x7D, 0x2C, 0x3A, 0xFEFF}" by (rule json_text_Cons)
    with Cons show ?thesis by (simp add: texts_Cons starts_with_def)
  qed (use False in simp)
  moreover have "length vs \<le> length (json_texts vs @ 0x5D # s)" using length_texts [of vs] by simp
  ultimately show ?thesis
    using json_items_texts [OF False assms] False by (simp add: json_array_def Let_def del: json_items.simps)
qed (simp add: json_array_def starts_with_def)

lemma json_object_text:
  assumes "\<And>k v. (k, v) \<in> set kvs \<Longrightarrow> reads p v" "distinct (map fst kvs)"
  shows "json_object p (json_pairs kvs @ 0x7D # s) = Inr (VDict kvs, s)"
proof (cases "kvs = []")
  case False
  have "\<not> starts_with (json_pairs kvs @ 0x7D # s) [0x7D]"
    using False by (cases kvs) (auto simp: pairs_Cons starts_with_def json_quote_def)
  moreover have "length kvs \<le> length (json_pairs kvs @ 0x7D # s)" using length_pairs [of kvs] by simp
  ultimately show ?thesis
    using json_members_pairs [OF False assms(1)] False 
    by (simp add: json_object_def Let_def dict_of_distinct assms(2) del: json_members.simps)
qed (simp add: json_object_def starts_with_def)

lemma json_value_scan: "json_value d = json_scan (case d of 0 \<Rightarrow> None | Suc e \<Rightarrow> Some (json_value e))"
  by (cases d) simp_all

lemma json_scan_atom:
  "json_text v = c # r \<Longrightarrow> c \<notin> {0x22, 0x7B, 0x5B} \<Longrightarrow> json_scan p (json_text v @ s) = json_atom (json_text v @ s)"
  by (simp add: json_scan_def)

lemma json_value_text: "printable d v \<Longrightarrow> reads (json_value d) v"
proof (induction v arbitrary: d)
  case VNone
  show ?case by (simp add: reads_def json_value_scan json_scan_def json_atom_def starts_with_def)
next
  case (VBool b)
  show ?case by (simp add: reads_def json_value_scan json_scan_def json_atom_def starts_with_def)
next
  case (VInt n)
  obtain c ds where ds: "nat_digits (nat \<bar>n\<bar>) = c # ds" by (cases "nat_digits (nat \<bar>n\<bar>)") auto
  then have "c < 10" using nat_digits_small [of c "nat \<bar>n\<bar>"] by simp
  then have "json_scan p (int_text n @ s) = json_atom (int_text n @ s)" for p s
    by (auto simp: json_scan_def int_text_def ds)
  with VInt json_atom_int show ?case by (simp add: reads_def json_value_scan)
next
  case (VStr t)
  show ?case by (simp add: reads_def json_value_scan json_scan_def json_quote_def json_string_quoted)
next
  case (VList vs)
  obtain e where d: "d = Suc e" using VList.prems by (cases d) simp_all
  have "reads (json_value e) v" if "v \<in> set vs" for v using VList d that by simp
  from json_array_text [OF this] show ?case by (simp add: reads_def d json_scan_def)
next
  case (VDict kvs)
  obtain e where d: "d = Suc e" using VDict.prems by (cases d) simp_all
  have "reads (json_value e) v" if "(k, v) \<in> set kvs" for k v
    using VDict.prems d that by (intro VDict.IH [OF that]) auto
  from json_object_text [OF this] VDict.prems show ?case by (simp add: reads_def d json_scan_def)
qed simp_all

text \<open>Reading a printed value gives it back.\<close>

lemma json_roundtrip: "printable d v \<Longrightarrow> json_loads d (json_text v) = Inr v"
proof -
  assume "printable d v"
  from readsD [OF json_value_text [OF this], of "[]"] have "json_value d (json_text v) = Inr (v, [])" by simp
  moreover obtain c r where "json_text v = c # r" "c \<notin> {0x5D, 0x7D, 0x2C, 0x3A, 0xFEFF}" by (rule json_text_Cons)
  then have "\<not> starts_with (json_text v) [0xFEFF]" by (simp add: starts_with_def)
  ultimately show ?thesis using skip_text [of v "[]"] by (simp add: json_loads_def)
qed

section \<open>What reading consumes and raises\<close>

lemma skip_space_length: "length (skip_space s) \<le> length s"
  by (simp add: skip_space_def length_dropWhile_le)

lemma json_string_consumes: "json_string s = Inr (t, r) \<Longrightarrow> length r < length s"
proof (induction s arbitrary: t rule: json_string.induct)
  case (2 c s)
  from 2(3) show ?case
  proof (cases "json_escape s")
    case (Inr dr)
    with 2 json_escape_length [of s] show ?thesis
      by (cases dr) (fastforce simp: json_error_def res_simps split: if_splits)
  qed (use 2 in \<open>auto simp: json_error_def res_simps split: if_splits\<close>)
qed (simp add: json_error_def)

lemma int_part_consumes: "int_part s = Some (ds, r) \<Longrightarrow> length r < length s"
  by (cases s) (auto simp: int_part_def length_dropWhile_le le_imp_less_Suc split: if_splits)

lemma frac_part_length: "frac_part s = (ds, r) \<Longrightarrow> length r \<le> length s"
  using length_dropWhile_le [of is_digit "tl s"]
  by (cases s) (auto simp: frac_part_def split: if_splits)

lemma exp_part_length: "exp_part s = (e, r) \<Longrightarrow> length r \<le> length s"
  using length_dropWhile_le [of is_digit "tl s"] length_dropWhile_le [of is_digit "tl (tl s)"]
  by (cases s; cases "tl s") (auto simp: exp_part_def Let_def split: if_splits)

lemma json_number_consumes: "json_number s = Inr (v, r) \<Longrightarrow> length r < length s"
proof -
  assume run: "json_number s = Inr (v, r)"
  obtain neg s0 where s0: "minus_sign s = (neg, s0)" by fastforce
  then have "length s0 \<le> length s" by (cases s) (auto simp: minus_sign_def split: if_splits)
  moreover obtain ds s1 where s1: "int_part s0 = Some (ds, s1)"
    using run s0 by (cases "int_part s0") (auto simp: json_number_def json_error_def)
  moreover obtain fs s2 e s3 where s2: "frac_part s1 = (fs, s2)" "exp_part s2 = (e, s3)" by fastforce
  moreover have "r = s3" using run s0 s1 s2 by (auto simp: json_number_def Let_def split: if_splits)
  ultimately show ?thesis
    using int_part_consumes [OF s1] frac_part_length [OF s2(1)] exp_part_length [OF s2(2)] by simp
qed

lemma json_atom_consumes: "json_atom s = Inr (v, r) \<Longrightarrow> length r < length s"
proof -
  assume run: "json_atom s = Inr (v, r)"
  have "length (drop n s) < length s" if "starts_with s (lit w)" "w \<noteq> []" "0 < n" for w n
    using that by (cases s) (auto simp: starts_with_def lit_def)
  from this [of "''null''" 4] this [of "''true''" 4] this [of "''false''" 5] this [of "''NaN''" 3]
    this [of "''Infinity''" 8] this [of "''-Infinity''" 9] run json_number_consumes
  show ?thesis by (auto simp: json_atom_def simp del: lit_Cons split: if_splits)
qed

definition consumes :: "(pystr \<Rightarrow> ('a \<times> pystr) res) \<Rightarrow> bool" where
  "consumes p \<longleftrightarrow> (\<forall>s v r. p s = Inr (v, r) \<longrightarrow> length r < length s)"

text \<open>With a scanner that consumes, the bound on the turns is never reached: any bound that covers the
  text gives the same result.\<close>

lemma json_items_bound:
  "consumes p \<Longrightarrow> p [] = json_error ''Expecting value'' \<Longrightarrow> length s \<le> n \<Longrightarrow> length s \<le> m \<Longrightarrow>
    json_items p n s = json_items p m s"
proof (induction n arbitrary: s m)
  case 0
  then show ?case by (cases m) (simp_all add: json_error_def)
next
  case (Suc n)
  show ?case
  proof (cases m)
    case 0
    with Suc.prems show ?thesis by (simp add: json_error_def)
  next
    case m: (Suc k)
    have rec: "json_items p n (skip_space r') = json_items p k (skip_space r')"
      if "p s = Inr (v, r)" "skip_space r = c # r'" for v r c r'
    proof -
      have "length r < length s" using Suc.prems(1) that(1) by (simp add: consumes_def)
      moreover have "length r' < length r" using skip_space_length [of r] that(2) by simp
      ultimately show ?thesis
        using skip_space_length [of r'] Suc.prems m by (intro Suc.IH) simp_all
    qed
    show ?thesis
    proof (cases "p s")
      case (Inr vr)
      with rec show ?thesis by (cases vr) (auto simp: m split: list.split)
    qed (simp add: m)
  qed
qed

lemma json_members_bound:
  "consumes p \<Longrightarrow> length s \<le> n \<Longrightarrow> length s \<le> m \<Longrightarrow> json_members p n s = json_members p m s"
proof (induction n arbitrary: s m)
  case 0
  then show ?case by (cases m) (simp_all add: starts_with_def)
next
  case (Suc n)
  show ?case
  proof (cases m)
    case 0
    with Suc.prems show ?thesis by (simp add: starts_with_def)
  next
    case m: (Suc k)
    have rec: "json_members p n (skip_space r') = json_members p k (skip_space r')"
      if "json_string (tl s) = Inr (t, r)" "p (skip_space (tl (skip_space r))) = Inr (v, r2)" "skip_space r2 = c # r'"
      for t r v r2 c r'
    proof -
      have "length r < length s" using json_string_consumes [OF that(1)] by simp
      moreover have "length r2 < length (skip_space (tl (skip_space r)))"
        using Suc.prems(1) that(2) by (simp add: consumes_def)
      moreover have "length (skip_space (tl (skip_space r))) \<le> length r"
        using skip_space_length [of "tl (skip_space r)"] skip_space_length [of r] by simp
      moreover have "length r' < length r2" using skip_space_length [of r2] that(3) by simp
      ultimately show ?thesis
        using skip_space_length [of r'] Suc.prems m by (intro Suc.IH) simp_all
    qed
    show ?thesis
    proof (cases "json_string (tl s)")
      case (Inr tr)
      obtain t r where tr: "tr = (t, r)" by fastforce
      show ?thesis
      proof (cases "p (skip_space (tl (skip_space r)))")
        case p: (Inr vr)
        with Inr rec show ?thesis by (cases vr) (auto simp: m tr split: list.split)
      qed (simp add: m Inr tr)
    qed (simp add: m)
  qed
qed

lemma json_items_consumes: "consumes p \<Longrightarrow> json_items p n s = Inr (vs, r) \<Longrightarrow> length r < length s"
proof (induction n arbitrary: s vs)
  case (Suc n)
  obtain v r1 where v: "p s = Inr (v, r1)" using Suc.prems(2) by (cases "p s") auto
  have "length r1 < length s" using Suc.prems(1) v by (simp add: consumes_def)
  moreover obtain c r2 where c: "skip_space r1 = c # r2"
    using Suc.prems(2) v by (cases "skip_space r1") (simp_all add: json_error_def)
  moreover have "length r \<le> length r2"
  proof (cases "c = 0x5D")
    case False
    then obtain vs' where "json_items p n (skip_space r2) = Inr (vs', r)"
      using Suc.prems(2) v c by (auto simp: json_error_def res_simps split: if_splits)
    from Suc.IH [OF Suc.prems(1) this] skip_space_length [of r2] show ?thesis by simp
  qed (use Suc.prems(2) v c in simp)
  ultimately show ?case using skip_space_length [of r1] by simp
qed (simp add: json_error_def)

lemma json_members_consumes: "consumes p \<Longrightarrow> json_members p n s = Inr (vs, r) \<Longrightarrow> length r < length s"
proof (induction n arbitrary: s vs)
  case (Suc n)
  obtain k r0 where k: "json_string (tl s) = Inr (k, r0)"
    using Suc.prems(2) by (cases "json_string (tl s)") (auto simp: json_error_def split: if_splits)
  let ?t = "skip_space (tl (skip_space r0))"
  obtain v r1 where v: "p ?t = Inr (v, r1)"
    using Suc.prems(2) k by (cases "p ?t") (auto simp: json_error_def split: if_splits)
  obtain c r2 where c: "skip_space r1 = c # r2"
    using Suc.prems(2) k v by (cases "skip_space r1") (auto simp: json_error_def split: if_splits)
  have "length r0 < length s" using json_string_consumes [OF k] by simp
  moreover have "length r1 < length ?t" using Suc.prems(1) v by (simp add: consumes_def)
  moreover have "length ?t \<le> length r0"
    using skip_space_length [of "tl (skip_space r0)"] skip_space_length [of r0] by simp
  moreover have "length r \<le> length r2"
  proof (cases "c = 0x7D")
    case False
    then obtain vs' where "json_members p n (skip_space r2) = Inr (vs', r)"
      using Suc.prems(2) k v c by (auto simp: json_error_def res_simps split: if_splits)
    from Suc.IH [OF Suc.prems(1) this] skip_space_length [of r2] show ?thesis by simp
  qed (use Suc.prems(2) k v c in \<open>auto simp: json_error_def split: if_splits\<close>)
  ultimately show ?case using skip_space_length [of r1] c by simp
qed (simp add: json_error_def split: if_splits)

lemma json_array_consumes: "consumes p \<Longrightarrow> json_array p s = Inr (v, r) \<Longrightarrow> length r \<le> length s"
  using json_items_consumes [of p "length (skip_space s)" "skip_space s"] skip_space_length [of s]
  by (fastforce simp: json_array_def Let_def res_simps simp del: json_items.simps split: if_splits)

lemma json_object_consumes: "consumes p \<Longrightarrow> json_object p s = Inr (v, r) \<Longrightarrow> length r \<le> length s"
  using json_members_consumes [of p "length (skip_space s)" "skip_space s"] skip_space_length [of s]
  by (fastforce simp: json_object_def Let_def res_simps simp del: json_members.simps split: if_splits)

lemma json_scan_consumes: "(\<And>q. p = Some q \<Longrightarrow> consumes q) \<Longrightarrow> consumes (json_scan p)"
proof -
  assume p: "\<And>q. p = Some q \<Longrightarrow> consumes q"
  have "length r < length s" if "json_scan p s = Inr (v, r)" for s v r
  proof (cases s)
    case (Cons c u)
    show ?thesis
      using that p json_array_consumes [of _ u v r] json_object_consumes [of _ u v r]
        json_string_consumes [of u] json_atom_consumes [of s v r]
      by (fastforce simp: Cons json_scan_def res_simps le_imp_less_Suc less_SucI split: if_splits option.splits)
  qed (use that in \<open>simp add: json_scan_def json_error_def\<close>)
  then show ?thesis by (simp add: consumes_def)
qed

theorem json_value_consumes: "consumes (json_value d)"
  by (induction d) (auto intro: json_scan_consumes)

text \<open>The errors of a text of \<open>m\<close> characters: only a long text has an integer that is too long.\<close>

definition json_raises :: "nat \<Rightarrow> exn \<Rightarrow> bool" where
  "json_raises m e \<longleftrightarrow> exn_class e = JSONDecodeError \<or> exn_class e = RecursionError \<or>
    exn_class e = ValueError \<and> MAX_STR_DIGITS < m"

lemma json_raises_mono: "json_raises m e \<Longrightarrow> m \<le> n \<Longrightarrow> json_raises n e"
  by (auto simp: json_raises_def)

lemma json_error_raises [simp]: "json_error msg = Inl e \<Longrightarrow> json_raises m e"
  by (auto simp: json_error_def json_raises_def)

lemma json_string_raises: "json_string s = Inl e \<Longrightarrow> json_raises m e"
proof (induction s rule: json_string.induct)
  case (2 c s)
  have "json_raises m e'" if "json_escape s = Inl e'" for e'
    using that by (auto simp: json_escape_def join_surrogates_def split: list.splits if_splits option.splits)
  with 2 show ?case by (auto simp: res_simps split: if_splits sum.splits)
qed simp

lemma json_number_raises: "json_number s = Inl e \<Longrightarrow> json_raises (length s) e"
proof -
  assume run: "json_number s = Inl e"
  obtain neg s0 where s0: "minus_sign s = (neg, s0)" by fastforce
  then have "length s0 \<le> length s" by (cases s) (auto simp: minus_sign_def split: if_splits)
  moreover have "length ds \<le> length s0" if "int_part s0 = Some (ds, r)" for ds r
    using that length_takeWhile_le [of is_digit s0] by (cases s0) (auto simp: int_part_def split: if_splits)
  ultimately show ?thesis
    using run s0 by (fastforce simp: json_number_def json_raises_def json_error_def Let_def
        split: option.splits if_splits prod.splits)
qed

lemma json_atom_raises: "json_atom s = Inl e \<Longrightarrow> json_raises (length s) e"
  using json_number_raises [of s e] by (simp add: json_atom_def del: lit_Cons split: if_splits)

definition raises :: "(pystr \<Rightarrow> 'a res) \<Rightarrow> bool" where
  "raises p \<longleftrightarrow> (\<forall>s e. p s = Inl e \<longrightarrow> json_raises (length s) e)"

lemma raisesD: "raises p \<Longrightarrow> p s = Inl e \<Longrightarrow> length s \<le> n \<Longrightarrow> json_raises n e"
  by (auto simp: raises_def intro: json_raises_mono)

lemma json_items_raises:
  "consumes p \<Longrightarrow> raises p \<Longrightarrow> json_items p n s = Inl e \<Longrightarrow> json_raises (length s) e"
proof (induction n arbitrary: s)
  case (Suc n)
  show ?case
  proof (cases "p s")
    case (Inr vr)
    then obtain v r where v: "p s = Inr (v, r)" by (cases vr) simp
    then have less: "length r < length s" using Suc.prems(1) by (simp add: consumes_def)
    have "json_raises (length s) e" if c: "skip_space r = c # r'" "json_items p n (skip_space r') = Inl e" for c r'
      using json_raises_mono [OF Suc.IH [OF Suc.prems(1,2) c(2)]] c(1) less
        skip_space_length [of r] skip_space_length [of r'] by simp
    then show ?thesis using Suc.prems(3) v by (auto simp: res_simps split: list.splits if_splits)
  qed (use Suc.prems raisesD [OF Suc.prems(2), of s e "length s"] in simp)
qed simp

lemma json_members_raises:
  "consumes p \<Longrightarrow> raises p \<Longrightarrow> json_members p n s = Inl e \<Longrightarrow> json_raises (length s) e"
proof (induction n arbitrary: s)
  case (Suc n)
  show ?case
  proof (cases "json_string (tl s)")
    case (Inr kr)
    then obtain k r0 where k: "json_string (tl s) = Inr (k, r0)" by (cases kr) simp
    let ?t = "skip_space (tl (skip_space r0))"
    have le: "length ?t \<le> length s"
      using json_string_consumes [OF k] skip_space_length [of "tl (skip_space r0)"] skip_space_length [of r0] by simp
    show ?thesis
    proof (cases "p ?t")
      case (Inl e')
      with Suc.prems k raisesD [OF Suc.prems(2), of ?t e "length s"] le show ?thesis
        by (auto split: if_splits)
    next
      case (Inr vr)
      then obtain v r where v: "p ?t = Inr (v, r)" by (cases vr) simp
      then have less: "length r < length ?t" using Suc.prems(1) by (simp add: consumes_def)
      have "json_raises (length s) e"
        if c: "skip_space r = c # r'" "json_members p n (skip_space r') = Inl e" for c r'
        using json_raises_mono [OF Suc.IH [OF Suc.prems(1,2) c(2)]] c(1) less le
          skip_space_length [of r] skip_space_length [of r'] by simp
      then show ?thesis using Suc.prems(3) k v by (auto simp: res_simps split: list.splits if_splits)
    qed
  qed (use Suc.prems json_string_raises [of "tl s" e] in \<open>auto split: if_splits\<close>)
qed simp

lemma json_array_raises: "consumes p \<Longrightarrow> raises p \<Longrightarrow> json_array p s = Inl e \<Longrightarrow> json_raises (length s) e"
  using json_raises_mono [OF json_items_raises skip_space_length, of p _ s e]
  by (auto simp: json_array_def Let_def res_simps simp del: json_items.simps split: if_splits)

lemma json_object_raises: "consumes p \<Longrightarrow> raises p \<Longrightarrow> json_object p s = Inl e \<Longrightarrow> json_raises (length s) e"
  using json_raises_mono [OF json_members_raises skip_space_length, of p _ s e]
  by (auto simp: json_object_def Let_def res_simps simp del: json_members.simps split: if_splits)

lemma json_scan_raises: "(\<And>q. p = Some q \<Longrightarrow> consumes q \<and> raises q) \<Longrightarrow> raises (json_scan p)"
proof -
  assume p: "\<And>q. p = Some q \<Longrightarrow> consumes q \<and> raises q"
  have "json_raises (length s) e" if run: "json_scan p s = Inl e" for s e
  proof (cases s)
    case (Cons c u)
    show ?thesis
    proof (cases p)
      case None
      with run Cons json_string_raises [of u e] json_atom_raises [of s e] show ?thesis
        by (auto simp: json_scan_def res_simps json_raises_def [of _ "Exn RecursionError _"] split: if_splits)
    next
      case (Some q)
      with run Cons p json_string_raises [of u e] json_atom_raises [of s e]
        json_raises_mono [OF json_array_raises [of q u e]] json_raises_mono [OF json_object_raises [of q u e]]
      show ?thesis by (auto simp: json_scan_def res_simps split: if_splits)
    qed
  qed (use run in \<open>simp add: json_scan_def\<close>)
  then show ?thesis by (simp add: raises_def)
qed

lemma json_value_raises: "raises (json_value d)"
  by (induction d) (auto intro: json_scan_raises simp: json_value_consumes)

theorem json_loads_raises: "json_loads d s = Inl e \<Longrightarrow> json_raises (length s) e"
  using raisesD [OF json_value_raises, of d "skip_space s" e "length s"] skip_space_length [of s]
  by (auto simp: json_loads_def res_simps split: if_splits prod.splits)

text \<open>An integer that is too long does raise.\<close>

lemma json_loads_long_integer:
  assumes "list_all is_digit ds" "MAX_STR_DIGITS < length ds" "hd ds \<noteq> 0x30"
  shows "json_loads d ds =
    raiseE ValueError [Txt (lit ''Exceeds the limit (4300 digits) for integer string conversion'')]"
proof -
  obtain c r where ds: "ds = c # r" "is_digit c" "c \<noteq> 0x30"
    using assms by (cases ds) (auto simp: MAX_STR_DIGITS_def)
  have "takeWhile is_digit ds = ds" "dropWhile is_digit ds = []"
    using assms(1) by (auto simp: list_all_iff)
  then have "int_part ds = Some (ds, [])" using ds by (simp add: int_part_def)
  moreover have "minus_sign ds = (False, ds)" using ds by (auto simp: minus_sign_def is_digit_def)
  ultimately have "json_number ds =
      raiseE ValueError [Txt (lit ''Exceeds the limit (4300 digits) for integer string conversion'')]"
    using assms(2) by (simp add: json_number_def frac_part_def exp_part_def del: lit_Cons)
  moreover have "json_scan p ds = json_number ds" for p
    using ds by (auto simp: json_scan_def json_atom_def starts_with_def is_digit_def)
  moreover have "skip_space ds = ds" "\<not> starts_with ds [0xFEFF]"
    using ds by (auto simp: skip_space_def is_json_space_def is_digit_def starts_with_def)
  ultimately show ?thesis by (cases d) (simp_all add: json_loads_def)
qed

end
