(* ===== verification/Stats_Properties.thy ===== *)
theory Stats_Properties
  imports Py_Json Protocol_Properties Transport_Properties
begin

text \<open>
  The \<^verbatim>\<open>stats\<close> call with the standard library's JSON reader: from the line the server prints to the value
  the caller gets, and every exception a malformed line leads to.
\<close>

section \<open>The printed value is one line\<close>

lemma json_quote_no_LF: "0x0A \<notin> set (json_quote s)"
proof -
  have "hex_val 0x0A = None" by (simp add: hex_val_def)
  then have "0x0A \<notin> set (hex_text 4 c)" for c
    using hex_text_digits [of 4 c] by (auto simp: list_all_iff simp del: hex_text_numeral)
  then have "0x0A \<notin> set (json_char c)" for c
    by (auto simp: json_char_def simp del: hex_text_numeral)
  then show ?thesis by (simp add: json_quote_def)
qed

lemma json_text_no_LF:
  "0x0A \<notin> set (json_text v)" "0x0A \<notin> set (json_texts vs)" "0x0A \<notin> set (json_pairs kvs)"
  using field_no_newline [OF is_field_int_text]
  by (induction v and vs and kvs rule: json_text_json_texts_json_pairs.induct)
    (auto simp: json_quote_no_LF)

lemma stats_line_response:
  assumes "isinstance_dict v" "utf8_encode (lit ''ok '' @ json_text v) = Inr bs"
    "length bs + 2 \<le> MAX_RESPONSE_LINE_BYTES" "nl = [0x0A] \<or> nl = [0x0D, 0x0A]"
  shows "response (bs @ nl) e (lit ''ok '' @ json_text v)"
proof (rule line_response [OF assms(2) _ _ _ _ assms(3)])
  obtain kvs where "v = VDict kvs" using assms(1) by (cases v) (simp_all add: class_tests)
  then show "last (lit ''ok '' @ json_text v) \<noteq> 0x0D" "last (lit ''ok '' @ json_text v) \<noteq> 0x0A" by simp_all
qed (use assms(4) json_text_no_LF(1) [of v] in auto)

section \<open>The value the caller gets\<close>

lemma validate_stats_result_accepts:
  assumes "isinstance_dict v" "dict_get v (lit ''connections'') = VInt n" "0 \<le> n"
    "list_all (\<lambda>f. is_dict_list (dict_get v f)) STATS_LIST_FIELDS"
  shows "validate_stats_result v payload = Inr v"
proof -
  have "forE (\<lambda>field. raise_if (\<not> is_dict_list (dict_get v field)) (bad_stats payload)) STATS_LIST_FIELDS = Inr ()"
    using assms(4) by (simp add: res_simps list_all_iff)
  then show ?thesis
    using assms(1-3) by (simp add: validate_stats_result_def Let_def class_tests int_val_def del: lit_Cons)
qed

lemma parse_stats_text:
  assumes "printable d v" "isinstance_dict v" "dict_get v (lit ''connections'') = VInt n" "0 \<le> n"
    "list_all (\<lambda>f. is_dict_list (dict_get v f)) STATS_LIST_FIELDS"
  shows "parse_stats_response (json_loads d) (lit ''ok '' @ json_text v) = Inr v"
  using json_roundtrip [OF assms(1)] validate_stats_result_accepts [OF assms(2-5)]
  by (simp add: parse_stats_response_def decode_stats_json_def starts_with_def)

text \<open>
  C38. A \<open>stats\<close> call on an open connection: for a value with the required fields that is built from
  dicts, lists, strings, booleans, \<open>None\<close> and integers of at most 4300 digits within the nesting limit of the
  reader (no floats: \<open>printable\<close>), when the server answers with its JSON text on one line of at most 1 MiB with
  either ending, which arrives whole, the caller gets exactly that value.  The client has
  sent one frame, \<open>stats\<close> with two placeholders, and the connection stays open with nothing unread.
\<close>

theorem stats_end_to_end:
  assumes "printable d v" "isinstance_dict v" "dict_get v (lit ''connections'') = VInt n" "0 \<le> n"
    "list_all (\<lambda>f. is_dict_list (dict_get v f)) STATS_LIST_FIELDS"
    and "utf8_encode (lit ''ok '' @ json_text v) = Inr bs" "length bs + 2 \<le> MAX_RESPONSE_LINE_BYTES"
    and "conn_open s c" "\<not> sk_shut (socks s ! c)" "sk_in (socks s ! c) = []"
    and "nl = [0x0A] \<or> nl = [0x0D, 0x0A]" "ios s = Io (bs @ nl) e # r"
  shows "\<exists>f s'. stats (json_loads d) c s = (Inr v, s') \<and>
    frame_lines f = map Some [lit ''stats'', lit ''_'', lit ''_''] \<and> sent_on s' c = sent_on s c @ [f] \<and>
    conn_open s' c \<and> sk_in (socks s' ! c) = []"
proof -
  obtain f where f: "encode_lines [lit ''stats'', lit ''_'', lit ''_''] = Inr f"
    by (simp add: encode_lines_eq_Inr encodable_def is_scalar_def is_surrogate_def)
  let ?s = "upd_sock c (\<lambda>k. k\<lparr>sk_sent := sk_sent k @ [f], sk_end := e, sk_in := []\<rparr>) (s\<lparr>ios := r\<rparr>)"
  have c: "c < length (socks s)" using assms(8) by (simp add: conn_open_def)
  have "sync_command c (lit ''stats'') (lit ''_'') (lit ''_'') 30 s = (Inr (lit ''ok '' @ json_text v), ?s)"
    using stats_line_response [OF assms(2,6,7,11), of e] fits_30
    by (intro sync_command_response [OF assms(8-10) _ _ f assms(12)]) auto
  then have "stats (json_loads d) c s = (Inr v, ?s)"
    using parse_stats_text [OF assms(1-5)]
    by (simp add: stats_def stats_via_def bindP_def liftE_def IO_SLACK_S_def del: lit_Cons)
  moreover have "conn_open ?s c" "sk_in (socks ?s ! c) = []" "sent_on ?s c = sent_on s c @ [f]"
    using c assms(8) by (simp_all add: conn_open_def sent_on_def upd_sock_def)
  ultimately show ?thesis using frame_of_command [OF f] by blast
qed

definition empty_stats :: pyval where
  "empty_stats = VDict ((lit ''connections'', VInt 3) # map (\<lambda>f. (f, VList [])) STATS_LIST_FIELDS)"

lemma empty_stats_fine:
  "printable 2 empty_stats" "isinstance_dict empty_stats" "dict_get empty_stats (lit ''connections'') = VInt 3"
  "list_all (\<lambda>f. is_dict_list (dict_get empty_stats f)) STATS_LIST_FIELDS"
  by code_simp+

lemma empty_stats_bytes:
  obtains bs where "utf8_encode (lit ''ok '' @ json_text empty_stats) = Inr bs"
    "length bs + 2 \<le> MAX_RESPONSE_LINE_BYTES"
proof -
  let ?t = "lit ''ok '' @ json_text empty_stats"
  have "list_all (\<lambda>c. c < 128) ?t \<and> length ?t \<le> 200" by code_simp
  then have "encodable ?t" "wire_size ?t \<le> 200" using ascii_wire_size [of ?t] by (simp_all add: list_all_iff)
  then show thesis
    using that [of "concat (map utf8_char ?t)"] wire_size_concat [of ?t]
    by (simp add: utf8_encode_eq_Inr limits)
qed

theorem stats_end_to_end_witness:
  "\<exists>bs s'. utf8_encode (lit ''ok '' @ json_text empty_stats) = Inr bs \<and>
    stats (json_loads 2) 0 (one_conn [Io (bs @ [0x0A]) Eof]) = (Inr empty_stats, s')"
proof -
  obtain bs where bs: "utf8_encode (lit ''ok '' @ json_text empty_stats) = Inr bs"
    "length bs + 2 \<le> MAX_RESPONSE_LINE_BYTES" by (rule empty_stats_bytes)
  then show ?thesis
    using stats_end_to_end [OF empty_stats_fine(1-3) _ empty_stats_fine(4) bs,
        of "one_conn [Io (bs @ [0x0A]) Eof]" 0 "[0x0A]" Eof "[]"]
    by fastforce
qed

section \<open>What a malformed line raises\<close>

definition too_long_integer :: exn where
  "too_long_integer =
    Exn ValueError [Txt (lit ''Exceeds the limit (4300 digits) for integer string conversion'')]"

text \<open>
  C39. Whatever the line is, a \<open>stats\<close> response that is not accepted raises a \<open>RuntimeError\<close> of some kind (a
  status error, a shape error, a syntax error, too deep nesting), with one exception: a plain
  \<open>ValueError\<close> passes through, which only a payload of more than 4300 characters can cause, and an
  integer of more than 4300 digits does cause.
\<close>

theorem stats_decoder_errors:
  "(case parse_stats_response (json_loads d) resp of
      Inr _ \<Rightarrow> True
    | Inl e \<Rightarrow> isinstance e RuntimeError \<or>
        exn_class e = ValueError \<and> starts_with resp (lit ''ok '') \<and> MAX_STR_DIGITS + 3 < length resp) \<and>
   (MAX_STR_DIGITS < n \<longrightarrow>
    parse_stats_response (json_loads d) (lit ''ok '' @ replicate n 0x39) = Inl too_long_integer)"
proof (intro conjI impI)
  have "isinstance e RuntimeError \<or>
      exn_class e = ValueError \<and> starts_with resp (lit ''ok '') \<and> MAX_STR_DIGITS + 3 < length resp"
    if run: "parse_stats_response (json_loads d) resp = Inl e" for e
  proof (cases "starts_with resp (lit ''ok '')")
    case True
    show ?thesis
    proof (cases "json_loads d (drop 3 resp)")
      case (Inl e')
      have "RecursionError \<le> RuntimeError" by (simp add: subclass_simps)
      then have "isinstance e' JSONDecodeError \<or> isinstance e' RuntimeError \<or>
          exn_class e' = ValueError \<and> MAX_STR_DIGITS < length (drop 3 resp)"
        using json_loads_raises [OF Inl] by (auto simp: json_raises_def isinstance_def)
      with run True Inl show ?thesis
        by (auto simp: parse_stats_response_def decode_stats_json_def bad_stats_def simp del: lit_Cons
            split: if_splits)
    next
      case (Inr v)
      with run True validate_stats_result_error [of v "drop 3 resp" e] show ?thesis
        by (simp add: parse_stats_response_def decode_stats_json_def bad_stats_def del: lit_Cons)
    qed
  next
    case False
    have "DflockdError \<le> RuntimeError" by (simp add: subclass_simps)
    with status_class_le [of resp] have "status_class resp \<le> RuntimeError" by (rule order_trans)
    with False run show ?thesis
      by (auto simp: parse_stats_response_def raise_status_error_def status_error_def simp del: lit_Cons)
  qed
  then show "case parse_stats_response (json_loads d) resp of
      Inr _ \<Rightarrow> True
    | Inl e \<Rightarrow> isinstance e RuntimeError \<or>
        exn_class e = ValueError \<and> starts_with resp (lit ''ok '') \<and> MAX_STR_DIGITS + 3 < length resp"
    by (auto split: sum.split)
next
  assume n: "MAX_STR_DIGITS < n"
  then have "json_loads d (replicate n 0x39) = Inl too_long_integer"
    unfolding too_long_integer_def
    by (intro json_loads_long_integer) (auto simp: list_all_iff is_digit_def MAX_STR_DIGITS_def hd_replicate)
  then show "parse_stats_response (json_loads d) (lit ''ok '' @ replicate n 0x39) = Inl too_long_integer"
    by (simp add: parse_stats_response_def starts_with_def decode_stats_json_def too_long_integer_def subclass_simps)
qed

theorem stats_decoder_errors_witness:
  "parse_stats_response (json_loads 100) (lit ''ok '' @ replicate 4301 0x39) = Inl too_long_integer"
  using stats_decoder_errors [of _ _ 4301] by (simp add: MAX_STR_DIGITS_def)

end
