(* ===== verification/Sync_Client.thy ===== *)
theory Sync_Client
  imports Sync_Transport Client_Config
begin

text \<open>
  The high-level objects of \<open>_sync.py\<close> (\<open>_SyncBase\<close> with its two subclasses) together with the
  background renewal threads, as one executable model.

  The state \<open>lock\<close> extends the network by the attributes of the object, the flags of the
  \<open>threading.Event\<close> objects it created, its renewal threads and the owner of \<open>_io_lock\<close>.  A renewal
  thread is a program counter; \<open>worker_step\<close> runs one thread up to its next access to shared state.
  The caller's methods are programs; before each access to an attribute that a renewal thread may
  also touch, \<open>interfere\<close> lets the threads take the steps the schedule \<open>l_sched\<close> names next, so the
  schedules range over all interleavings of the caller with the threads.  \<open>_state_lock\<close> serialises the
  callers: one method runs at a time.  \<open>Thread.join(timeout=5)\<close> succeeds or times out as \<open>l_joins\<close> says.
\<close>

section \<open>State\<close>

datatype wpc =
    W_Init
  | W_Wait rat
  | W_Tick
  | W_Check
  | W_Read
  | W_Io nat pystr
  | W_Fail nat
  | W_FailSet nat
  | W_FailClear nat
  | W_FailClose nat
  | W_Ret "int option"
  | W_Update int
  | W_Set int
  | W_Done

record worker =
  w_event :: nat
  w_pc :: wpc

datatype log_entry =
    LostLock pystr pystr
  | ReleaseFailed pystr
  | ExitReleaseFailed pystr
  | LeakWarning pystr

record lock = net +
  l_conn :: "nat option"
  l_token :: "pystr option"
  l_lease :: int
  l_renew_thread :: "nat option"
  l_stop_event :: nat
  l_closed :: bool
  l_io_lock :: "nat option"
  l_events :: "bool list"
  l_workers :: "worker list"
  l_sched :: "nat list list"
  l_joins :: "bool list"
  l_log :: "log_entry list"

text \<open>The caller is owner \<open>0\<close> of \<open>_io_lock\<close>, renewal thread \<open>w\<close> is owner \<open>Suc w\<close>.\<close>

definition init_lock :: "io_event list \<Rightarrow> dial_event list \<Rightarrow> nat list list \<Rightarrow> bool list \<Rightarrow> lock" where
  "init_lock ios0 dials0 sched joins =
    \<lparr>socks = [], ios = ios0, dials = dials0,
     l_conn = None, l_token = None, l_lease = 0, l_renew_thread = None, l_stop_event = 0,
     l_closed = False, l_io_lock = None, l_events = [False], l_workers = [],
     l_sched = sched, l_joins = joins, l_log = []\<rparr>"

type_synonym 'a meth = "(exn, lock, 'a) prog"

section \<open>Protocol hooks of the two subclasses\<close>

definition lock_proto_acquire :: "config \<Rightarrow> nat \<Rightarrow> (pystr \<times> int) meth" where
  "lock_proto_acquire cfg conn =
    acquire conn (cf_key cfg) (cf_acquire_timeout_s cfg) (cf_lease_ttl_s cfg) [] VNone"

definition lock_proto_release :: "config \<Rightarrow> nat \<Rightarrow> pystr \<Rightarrow> unit meth" where
  "lock_proto_release cfg conn token = release conn (cf_key cfg) token []"

definition lock_proto_renew :: "config \<Rightarrow> nat \<Rightarrow> pystr \<Rightarrow> int meth" where
  "lock_proto_renew cfg conn token =
    renew conn (cf_key cfg) token (cf_lease_ttl_s cfg) [] RENEW_READ_TIMEOUT_S"

definition lock_proto_enqueue :: "config \<Rightarrow> nat \<Rightarrow> (pystr \<times> pystr option \<times> int option) meth" where
  "lock_proto_enqueue cfg conn = enqueue conn (cf_key cfg) (cf_lease_ttl_s cfg) [] VNone"

definition lock_proto_wait :: "config \<Rightarrow> nat \<Rightarrow> pyval \<Rightarrow> (pystr \<times> int) meth" where
  "lock_proto_wait cfg conn timeout_s = wait conn (cf_key cfg) timeout_s []"

definition sem_proto_acquire :: "config \<Rightarrow> pyval \<Rightarrow> nat \<Rightarrow> (pystr \<times> int) meth" where
  "sem_proto_acquire cfg limit conn =
    acquire conn (cf_key cfg) (cf_acquire_timeout_s cfg) (cf_lease_ttl_s cfg) (lit ''s'') limit"

definition sem_proto_release :: "config \<Rightarrow> nat \<Rightarrow> pystr \<Rightarrow> unit meth" where
  "sem_proto_release cfg conn token = release conn (cf_key cfg) token (lit ''s'')"

definition sem_proto_renew :: "config \<Rightarrow> nat \<Rightarrow> pystr \<Rightarrow> int meth" where
  "sem_proto_renew cfg conn token =
    renew conn (cf_key cfg) token (cf_lease_ttl_s cfg) (lit ''s'') RENEW_READ_TIMEOUT_S"

definition sem_proto_enqueue ::
  "config \<Rightarrow> pyval \<Rightarrow> nat \<Rightarrow> (pystr \<times> pystr option \<times> int option) meth" where
  "sem_proto_enqueue cfg limit conn =
    enqueue conn (cf_key cfg) (cf_lease_ttl_s cfg) (lit ''s'') limit"

definition sem_proto_wait :: "config \<Rightarrow> nat \<Rightarrow> pyval \<Rightarrow> (pystr \<times> int) meth" where
  "sem_proto_wait cfg conn timeout_s = wait conn (cf_key cfg) timeout_s (lit ''s'')"

text \<open>The call \<^verbatim>\<open>self._proto_*\<close>: the object's class chooses the method.\<close>

definition proto_acquire :: "config \<Rightarrow> nat \<Rightarrow> (pystr \<times> int) meth" where
  "proto_acquire cfg conn =
    (case cf_kind cfg of
       LockKind \<Rightarrow> lock_proto_acquire cfg conn
     | SemaphoreKind limit \<Rightarrow> sem_proto_acquire cfg limit conn)"

definition proto_release :: "config \<Rightarrow> nat \<Rightarrow> pystr \<Rightarrow> unit meth" where
  "proto_release cfg conn token =
    (case cf_kind cfg of
       LockKind \<Rightarrow> lock_proto_release cfg conn token
     | SemaphoreKind limit \<Rightarrow> sem_proto_release cfg conn token)"

definition proto_renew :: "config \<Rightarrow> nat \<Rightarrow> pystr \<Rightarrow> int meth" where
  "proto_renew cfg conn token =
    (case cf_kind cfg of
       LockKind \<Rightarrow> lock_proto_renew cfg conn token
     | SemaphoreKind limit \<Rightarrow> sem_proto_renew cfg conn token)"

definition proto_enqueue :: "config \<Rightarrow> nat \<Rightarrow> (pystr \<times> pystr option \<times> int option) meth" where
  "proto_enqueue cfg conn =
    (case cf_kind cfg of
       LockKind \<Rightarrow> lock_proto_enqueue cfg conn
     | SemaphoreKind limit \<Rightarrow> sem_proto_enqueue cfg limit conn)"

definition proto_wait :: "config \<Rightarrow> nat \<Rightarrow> pyval \<Rightarrow> (pystr \<times> int) meth" where
  "proto_wait cfg conn timeout_s =
    (case cf_kind cfg of
       LockKind \<Rightarrow> lock_proto_wait cfg conn timeout_s
     | SemaphoreKind limit \<Rightarrow> sem_proto_wait cfg conn timeout_s)"

lemmas proto_defs = proto_acquire_def proto_release_def proto_renew_def proto_enqueue_def proto_wait_def
  lock_proto_acquire_def lock_proto_release_def lock_proto_renew_def lock_proto_enqueue_def
  lock_proto_wait_def sem_proto_acquire_def sem_proto_release_def sem_proto_renew_def
  sem_proto_enqueue_def sem_proto_wait_def acquire_def release_def renew_def enqueue_def wait_def

section \<open>The renewal thread\<close>

definition event_set :: "nat \<Rightarrow> lock \<Rightarrow> bool" where
  "event_set e s \<longleftrightarrow> l_events s ! e"

definition w_goto :: "nat \<Rightarrow> wpc \<Rightarrow> lock \<Rightarrow> lock" where
  "w_goto w pc s = s\<lparr>l_workers := (l_workers s)[w := (l_workers s ! w)\<lparr>w_pc := pc\<rparr>]\<rparr>"

text \<open>Leaving the \<^verbatim>\<open>with self._io_lock\<close> block.\<close>

definition w_leave :: "nat \<Rightarrow> wpc \<Rightarrow> lock \<Rightarrow> lock" where
  "w_leave w pc s = w_goto w pc (s\<lparr>l_io_lock := None\<rparr>)"

definition log_renew_failure :: "config \<Rightarrow> nat \<Rightarrow> lock \<Rightarrow> lock" where
  "log_renew_failure cfg e s =
    (if l_closed s \<or> event_set e s then s
     else s\<lparr>l_log := l_log s @ [LostLock (cf_key cfg) (token_for_log (l_token s))]\<rparr>)"

definition safe_renew_once :: "config \<Rightarrow> nat \<Rightarrow> nat \<Rightarrow> pystr \<Rightarrow> lock \<Rightarrow> lock" where
  "safe_renew_once cfg w conn token s =
    (case proto_renew cfg conn token s of
       (Inr remaining, s') \<Rightarrow> w_leave w (W_Ret (Some remaining)) s'
     | (Inl e, s') \<Rightarrow>
         if isinstance e BuiltinException
         then w_goto w (W_Fail conn) (log_renew_failure cfg (w_event (l_workers s ! w)) s')
         else w_leave w W_Done s')"

definition worker_step :: "config \<Rightarrow> nat \<Rightarrow> lock \<Rightarrow> lock" where
  "worker_step cfg w s =
    (if length (l_workers s) \<le> w then s
     else let e = w_event (l_workers s ! w); ratio = rat_val (cf_renew_ratio cfg) in
     case w_pc (l_workers s ! w) of
       W_Init \<Rightarrow> w_goto w (W_Wait (renew_interval (l_lease s) ratio)) s
     | W_Wait interval \<Rightarrow> w_goto w (if event_set e s then W_Done else W_Tick) s
     | W_Tick \<Rightarrow>
         if l_io_lock s = None then w_goto w W_Check (s\<lparr>l_io_lock := Some (Suc w)\<rparr>) else s
     | W_Check \<Rightarrow>
         if l_closed s \<or> event_set e s then w_leave w (W_Ret None) s else w_goto w W_Read s
     | W_Read \<Rightarrow>
         (case (l_conn s, l_token s) of
            (Some conn, Some token) \<Rightarrow> w_goto w (W_Io conn token) s
          | _ \<Rightarrow> w_leave w (W_Ret None) s)
     | W_Io conn token \<Rightarrow> safe_renew_once cfg w conn token s
     | W_Fail conn \<Rightarrow>
         if l_conn s = Some conn then w_goto w (W_FailSet conn) s else w_leave w (W_Ret None) s
     | W_FailSet conn \<Rightarrow> w_goto w (W_FailClear conn) (s\<lparr>l_conn := None\<rparr>)
     | W_FailClear conn \<Rightarrow> w_goto w (W_FailClose conn) (s\<lparr>l_token := None, l_lease := 0\<rparr>)
     | W_FailClose conn \<Rightarrow> w_leave w (W_Ret None) (snd (conn_close conn s))
     | W_Ret None \<Rightarrow> w_goto w W_Done s
     | W_Ret (Some remaining) \<Rightarrow>
         w_goto w (if event_set e s then W_Done else W_Update remaining) s
     | W_Update remaining \<Rightarrow>
         if remaining > 0 \<and> l_token s \<noteq> None \<and> \<not> l_closed s then w_goto w (W_Set remaining) s
         else w_goto w (W_Wait (renew_interval remaining ratio)) s
     | W_Set remaining \<Rightarrow>
         w_goto w (W_Wait (renew_interval remaining ratio)) (s\<lparr>l_lease := remaining\<rparr>)
     | W_Done \<Rightarrow> s)"

section \<open>Interference, \<open>_io_lock\<close> and \<open>join\<close>\<close>

definition burst :: "config \<Rightarrow> lock \<Rightarrow> lock" where
  "burst cfg s =
    (case l_sched s of [] \<Rightarrow> s | ws # r \<Rightarrow> fold (worker_step cfg) ws (s\<lparr>l_sched := r\<rparr>))"

definition interfere :: "config \<Rightarrow> unit meth" where
  "interfere cfg = modP (burst cfg)"

text \<open>An attribute read and an attribute write of the caller.\<close>

definition rd :: "config \<Rightarrow> (lock \<Rightarrow> 'a) \<Rightarrow> 'a meth" where
  "rd cfg f = seqP (interfere cfg) (getP f)"

definition wr :: "config \<Rightarrow> (lock \<Rightarrow> lock) \<Rightarrow> unit meth" where
  "wr cfg f = seqP (interfere cfg) (modP f)"

text \<open>Blocking on \<open>_io_lock\<close>: the thread that owns it runs, with bursts of the schedule in between,
  until the lock is free.  The bound is enough: see \<open>io_lock_granted\<close> in \<open>Sync_Invariant\<close>.\<close>

fun wait_io :: "config \<Rightarrow> nat \<Rightarrow> lock \<Rightarrow> lock" where
  "wait_io cfg 0 s = s"
| "wait_io cfg (Suc n) s =
    (case l_io_lock s of
       None \<Rightarrow> s
     | Some owner \<Rightarrow> wait_io cfg n (burst cfg (worker_step cfg (owner - 1) s)))"

definition with_io_lock :: "config \<Rightarrow> 'a meth \<Rightarrow> 'a meth" where
  "with_io_lock cfg m =
    seqP (interfere cfg)
    (seqP (modP (\<lambda>s. (wait_io cfg (length (l_sched s) + 8) s)\<lparr>l_io_lock := Some 0\<rparr>))
    (tryP m
      (\<lambda>e. seqP (modP (\<lambda>s. s\<lparr>l_io_lock := None\<rparr>)) (raiseP e))
      (\<lambda>a. seqP (modP (\<lambda>s. s\<lparr>l_io_lock := None\<rparr>)) (retP a))))"

text \<open>\<^verbatim>\<open>thread.join(timeout=5)\<close>: either the thread finishes while the caller waits, or the call returns
  with the thread still running.\<close>

definition join_thread :: "config \<Rightarrow> nat \<Rightarrow> unit meth" where
  "join_thread cfg t =
    seqP (interfere cfg)
      (modP (\<lambda>s. case l_joins s of
                   False # r \<Rightarrow> s\<lparr>l_joins := r\<rparr>
                 | _ \<Rightarrow> (worker_step cfg t ^^ 16) (s\<lparr>l_joins := tl (l_joins s)\<rparr>)))"

section \<open>Starting and stopping the renewal thread\<close>

definition set_stop_event :: "config \<Rightarrow> unit meth" where
  "set_stop_event cfg = wr cfg (\<lambda>s. s\<lparr>l_events := (l_events s)[l_stop_event s := True]\<rparr>)"

definition start_renew :: "config \<Rightarrow> unit meth" where
  "start_renew cfg =
    bindP (rd cfg l_stop_event) (\<lambda>stop_event.
    wr cfg (\<lambda>s. s\<lparr>l_renew_thread := Some (length (l_workers s)),
                  l_workers := l_workers s @ [\<lparr>w_event = stop_event, w_pc = W_Init\<rparr>]\<rparr>))"

definition stop_renew :: "config \<Rightarrow> unit meth" where
  "stop_renew cfg =
    bindP (rd cfg l_renew_thread) (\<lambda>thread.
    case thread of
      None \<Rightarrow> retP ()
    | Some t \<Rightarrow>
        seqP (set_stop_event cfg)
        (seqP (join_thread cfg t)
        (wr cfg (\<lambda>s. s\<lparr>l_renew_thread := None\<rparr>))))"

section \<open>Close and reset\<close>

definition clear_held_state :: "config \<Rightarrow> unit meth" where
  "clear_held_state cfg =
    seqP (wr cfg (\<lambda>s. s\<lparr>l_token := None\<rparr>)) (wr cfg (\<lambda>s. s\<lparr>l_lease := 0\<rparr>))"

definition shutdown_and_close_conn :: "config \<Rightarrow> unit meth" where
  "shutdown_and_close_conn cfg =
    bindP (rd cfg l_conn) (\<lambda>conn.
    case conn of
      None \<Rightarrow> retP ()
    | Some c \<Rightarrow>
        seqP (seqP (interfere cfg) (shutdown_read c))
        (seqP (with_io_lock cfg (conn_close c))
        (wr cfg (\<lambda>s. s\<lparr>l_conn := None\<rparr>))))"

definition join_renew_thread :: "config \<Rightarrow> unit meth" where
  "join_renew_thread cfg =
    bindP (rd cfg l_renew_thread) (\<lambda>thread.
    case thread of
      None \<Rightarrow> wr cfg (\<lambda>s. s\<lparr>l_renew_thread := None\<rparr>)
    | Some t \<Rightarrow>
        seqP (join_thread cfg t)
        (wr cfg (\<lambda>s. s\<lparr>l_renew_thread := None\<rparr>)))"

definition begin_close :: "config \<Rightarrow> unit meth" where
  "begin_close cfg = seqP (wr cfg (\<lambda>s. s\<lparr>l_closed := True\<rparr>)) (set_stop_event cfg)"

definition tear_down_conn_and_thread :: "config \<Rightarrow> unit meth" where
  "tear_down_conn_and_thread cfg =
    seqP (shutdown_and_close_conn cfg)
    (seqP (join_renew_thread cfg)
    (clear_held_state cfg))"

definition close_unlocked :: "config \<Rightarrow> unit meth" where
  "close_unlocked cfg =
    bindP (rd cfg l_closed) (\<lambda>closed.
    if closed then retP ()
    else seqP (begin_close cfg) (tear_down_conn_and_thread cfg))"

definition reset_for_new_attempt :: "config \<Rightarrow> unit meth" where
  "reset_for_new_attempt cfg =
    seqP (stop_renew cfg)
    (seqP (close_unlocked cfg)
    (seqP (wr cfg (\<lambda>s. s\<lparr>l_closed := False\<rparr>))
    (wr cfg (\<lambda>s. s\<lparr>l_stop_event := length (l_events s), l_events := l_events s @ [False]\<rparr>))))"

section \<open>Connecting\<close>

definition maybe_authenticate :: "nat \<Rightarrow> pystr option \<Rightarrow> nat meth" where
  "maybe_authenticate conn auth_token =
    (case auth_token of
       None \<Rightarrow> retP conn
     | Some tok \<Rightarrow> on_errorP (seqP (authenticate conn tok) (retP conn)) (conn_close conn))"

definition open_and_authenticate :: "config \<Rightarrow> unit meth" where
  "open_and_authenticate cfg =
    bindP (liftE (pick_server cfg)) (\<lambda>(host, port).
    bindP (open_conn host port (cf_ssl_context cfg) (cf_connect_timeout_s cfg)) (\<lambda>conn.
    bindP (maybe_authenticate conn (cf_auth_token cfg)) (\<lambda>conn.
    wr cfg (\<lambda>s. s\<lparr>l_conn := Some conn\<rparr>))))"

definition require_conn :: "config \<Rightarrow> nat meth" where
  "require_conn cfg =
    bindP (rd cfg l_conn) (\<lambda>conn.
    case conn of
      None \<Rightarrow> raiseP (Exn RuntimeError [Txt (lit ''not connected'')])
    | Some c \<Rightarrow> retP c)"

definition require_conn_for_wait :: "config \<Rightarrow> nat meth" where
  "require_conn_for_wait cfg =
    bindP (rd cfg l_conn) (\<lambda>conn.
    case conn of
      None \<Rightarrow> raiseP (Exn RuntimeError [Txt (lit ''not connected; call enqueue() first'')])
    | Some c \<Rightarrow> retP c)"

section \<open>Acquire, enqueue, wait\<close>

text \<open>\<^verbatim>\<open>self.token, self.lease = tok, lease\<close>\<close>

definition set_held :: "config \<Rightarrow> pystr option \<Rightarrow> int \<Rightarrow> unit meth" where
  "set_held cfg tok lease =
    seqP (wr cfg (\<lambda>s. s\<lparr>l_token := tok\<rparr>)) (wr cfg (\<lambda>s. s\<lparr>l_lease := lease\<rparr>))"

definition invoke_acquire :: "config \<Rightarrow> bool meth" where
  "invoke_acquire cfg =
    tryP
      (bindP (require_conn cfg) (\<lambda>conn.
       bindP (proto_acquire cfg conn) (\<lambda>(tok, lease).
       set_held cfg (Some tok) lease)))
      (\<lambda>e. if isinstance e DflockdTimeoutError then seqP (close_unlocked cfg) (retP False)
           else seqP (close_unlocked cfg) (raiseP e))
      (\<lambda>_. seqP (start_renew cfg) (retP True))"

definition acquire_unlocked :: "config \<Rightarrow> bool meth" where
  "acquire_unlocked cfg =
    seqP (reset_for_new_attempt cfg)
    (seqP (open_and_authenticate cfg)
    (invoke_acquire cfg))"

definition handle_enqueue_status ::
  "config \<Rightarrow> pystr \<Rightarrow> pystr option \<Rightarrow> int option \<Rightarrow> pystr meth"
where
  "handle_enqueue_status cfg status tok lease =
    seqP (whenP (status = lit ''acquired'')
           (seqP (set_held cfg tok (case lease of None \<Rightarrow> 0 | Some n \<Rightarrow> n)) (start_renew cfg)))
      (retP status)"

definition invoke_enqueue :: "config \<Rightarrow> pystr meth" where
  "invoke_enqueue cfg =
    tryP
      (bindP (require_conn cfg) (proto_enqueue cfg))
      (\<lambda>e. seqP (close_unlocked cfg) (raiseP e))
      (\<lambda>(status, tok, lease). handle_enqueue_status cfg status tok lease)"

definition enqueue_unlocked :: "config \<Rightarrow> pystr meth" where
  "enqueue_unlocked cfg =
    seqP (reset_for_new_attempt cfg)
    (seqP (open_and_authenticate cfg)
    (invoke_enqueue cfg))"

definition invoke_wait :: "config \<Rightarrow> pyval \<Rightarrow> bool meth" where
  "invoke_wait cfg timeout_s =
    bindP (require_conn_for_wait cfg) (\<lambda>conn.
    tryP
      (bindP (proto_wait cfg conn timeout_s) (\<lambda>(tok, lease). set_held cfg (Some tok) lease))
      (\<lambda>e. if isinstance e DflockdTimeoutError then seqP (close_unlocked cfg) (retP False)
           else seqP (close_unlocked cfg) (raiseP e))
      (\<lambda>_. seqP (start_renew cfg) (retP True)))"

definition wait_unlocked :: "config \<Rightarrow> pyval \<Rightarrow> bool meth" where
  "wait_unlocked cfg timeout_s =
    bindP (rd cfg l_token) (\<lambda>token.
    if token \<noteq> None then retP True
    else invoke_wait cfg (if \<not> is_None timeout_s then timeout_s else cf_acquire_timeout_s cfg))"

section \<open>Release\<close>

definition safe_release :: "config \<Rightarrow> nat \<Rightarrow> pystr \<Rightarrow> bool meth" where
  "safe_release cfg conn token =
    tryP (proto_release cfg conn token)
      (\<lambda>e. if isinstance e BuiltinException
           then seqP (modP (\<lambda>s. s\<lparr>l_log := l_log s @ [ReleaseFailed (cf_key cfg)]\<rparr>)) (retP False)
           else raiseP e)
      (\<lambda>_. retP True)"

definition send_release_quietly :: "config \<Rightarrow> bool meth" where
  "send_release_quietly cfg =
    bindP (rd cfg l_conn) (\<lambda>conn.
    bindP (rd cfg l_token) (\<lambda>token.
    case (conn, token) of
      (Some c, Some t) \<Rightarrow> safe_release cfg c t
    | _ \<Rightarrow> retP False))"

definition release_unlocked :: "config \<Rightarrow> bool meth" where
  "release_unlocked cfg =
    seqP (stop_renew cfg)
    (bindP (with_io_lock cfg (send_release_quietly cfg)) (\<lambda>released.
    seqP (close_unlocked cfg)
    (retP released)))"

section \<open>Context manager and finaliser\<close>

definition enter :: "config \<Rightarrow> unit meth" where
  "enter cfg =
    bindP (acquire_unlocked cfg) (\<lambda>ok.
    if \<not> ok then raiseP (Exn BuiltinTimeoutError [Txt (lit ''timeout acquiring ''), Repr (cf_key cfg)])
    else retP ())"

definition exit :: "config \<Rightarrow> unit meth" where
  "exit cfg =
    tryP (release_unlocked cfg)
      (\<lambda>e. if isinstance e BuiltinException
           then modP (\<lambda>s. s\<lparr>l_log := l_log s @ [ExitReleaseFailed (cf_key cfg)]\<rparr>)
           else raiseP e)
      (\<lambda>_. retP ())"

definition warn_if_leaked_conn :: "config \<Rightarrow> unit meth" where
  "warn_if_leaked_conn cfg =
    bindP (getP l_conn) (\<lambda>conn.
    case conn of
      None \<Rightarrow> retP ()
    | Some c \<Rightarrow>
        seqP (modP (\<lambda>s. s\<lparr>l_log := l_log s @ [LeakWarning (cf_key cfg)]\<rparr>))
        (conn_close c))"

section \<open>The public methods and the reachable states\<close>

datatype api = Acquire | Enqueue | Wait pyval | Release | Close | Enter | Exit

definition run_api :: "config \<Rightarrow> api \<Rightarrow> lock \<Rightarrow> lock" where
  "run_api cfg a s =
    (case a of
       Acquire \<Rightarrow> snd (acquire_unlocked cfg s)
     | Enqueue \<Rightarrow> snd (enqueue_unlocked cfg s)
     | Wait t \<Rightarrow> snd (wait_unlocked cfg t s)
     | Release \<Rightarrow> snd (release_unlocked cfg s)
     | Close \<Rightarrow> snd (close_unlocked cfg s)
     | Enter \<Rightarrow> snd (enter cfg s)
     | Exit \<Rightarrow> snd (exit cfg s))"

inductive sync_step :: "config \<Rightarrow> lock \<Rightarrow> lock \<Rightarrow> bool" for cfg where
  api: "sync_step cfg s (run_api cfg a s)"
| renewal: "sync_step cfg s (worker_step cfg w s)"

inductive sync_reachable :: "config \<Rightarrow> lock \<Rightarrow> bool" for cfg where
  init: "set joins \<subseteq> {True} \<Longrightarrow> sync_reachable cfg (init_lock ios0 dials0 sched joins)"
| step: "sync_reachable cfg s \<Longrightarrow> sync_step cfg s s' \<Longrightarrow> sync_reachable cfg s'"

end
