(* ===== verification/Sync_Invariant.thy ===== *)
theory Sync_Invariant
  imports Sync_Client
begin

text \<open>
  The invariant of a sync lock object and its stability under the renewal thread.  It is stated for
  executions in which \<^verbatim>\<open>join\<close> returns because the thread ended: then at most one renewal thread is
  active, and its program counter \<open>apc\<close> says what it may still do.  \<open>core\<close> relates the attributes,
  the sockets, the owner of \<open>_io_lock\<close> and \<open>apc\<close>; every step of a thread keeps it and changes the
  caller's view only as \<open>rely\<close> allows.  The last sections bound how long a thread holds \<open>_io_lock\<close>
  and how long it lives once its stop event is set.
\<close>

section \<open>The invariant\<close>

fun holding :: "wpc \<Rightarrow> bool" where
  "holding W_Check = True"
| "holding W_Read = True"
| "holding (W_Io _ _) = True"
| "holding (W_Fail _) = True"
| "holding (W_FailSet _) = True"
| "holding (W_FailClear _) = True"
| "holding (W_FailClose _) = True"
| "holding _ = False"

text \<open>Past the check of \<open>_closed\<close> and the stop event, and still inside the lock.\<close>

definition deep :: "wpc \<Rightarrow> bool" where
  "deep pc \<longleftrightarrow> holding pc \<and> pc \<noteq> W_Check"

fun closing :: "wpc \<Rightarrow> nat option" where
  "closing (W_FailClear c) = Some c"
| "closing (W_FailClose c) = Some c"
| "closing _ = None"

definition apc :: "lock \<Rightarrow> wpc" where
  "apc s = (case l_renew_thread s of None \<Rightarrow> W_Done | Some t \<Rightarrow> w_pc (l_workers s ! t))"

definition threads_ok :: "lock \<Rightarrow> bool" where
  "threads_ok s \<longleftrightarrow>
    (\<forall>t. l_renew_thread s = Some t \<longrightarrow>
       t < length (l_workers s) \<and> w_event (l_workers s ! t) = l_stop_event s) \<and>
    (\<forall>w < length (l_workers s). l_renew_thread s \<noteq> Some w \<longrightarrow> w_pc (l_workers s ! w) = W_Done) \<and>
    l_stop_event s < length (l_events s)"

text \<open>Who owns \<open>_io_lock\<close>, which sockets are open, and what the thread knows, when it is at \<open>pc\<close>.\<close>

definition lock_at :: "wpc \<Rightarrow> lock \<Rightarrow> bool" where
  "lock_at pc s \<longleftrightarrow>
    (if holding pc then \<exists>t. l_renew_thread s = Some t \<and> l_io_lock s = Some (Suc t)
     else l_io_lock s = None \<or> l_io_lock s = Some 0)"

definition conn_at :: "wpc \<Rightarrow> lock \<Rightarrow> bool" where
  "conn_at pc s \<longleftrightarrow>
    (\<forall>c. l_conn s = Some c \<longrightarrow> c < length (socks s)) \<and>
    (\<forall>c. conn_open s c \<longrightarrow> l_conn s = Some c \<or> closing pc = Some c)"

fun knows :: "wpc \<Rightarrow> lock \<Rightarrow> bool" where
  "knows (W_Io c t) s = (l_conn s = Some c \<and> l_token s = Some t)"
| "knows (W_Fail c) s = (l_conn s = Some c)"
| "knows (W_FailSet c) s = (l_conn s = Some c)"
| "knows (W_FailClear c) s = (l_conn s = None)"
| "knows (W_FailClose c) s = (l_conn s = None \<and> l_token s = None)"
| "knows (W_Set r) s = (l_token s \<noteq> None \<and> 0 < r)"
| "knows _ s = True"

definition core_at :: "wpc \<Rightarrow> lock \<Rightarrow> bool" where
  "core_at pc s \<longleftrightarrow> lock_at pc s \<and> conn_at pc s \<and> knows pc s"

definition core :: "lock \<Rightarrow> bool" where
  "core s \<longleftrightarrow> threads_ok s \<and> core_at (apc s) s"

text \<open>The token and the lease belong together, and to a connection, between two calls of the API.\<close>

definition held_at :: "wpc \<Rightarrow> lock \<Rightarrow> bool" where
  "held_at pc s \<longleftrightarrow>
    (l_token s = None \<longrightarrow> l_lease s = 0 \<and>
      (l_conn s \<noteq> None \<longrightarrow> l_renew_thread s = None \<and> \<not> event_set (l_stop_event s) s)) \<and>
    (l_token s \<noteq> None \<longrightarrow> 1 \<le> l_lease s \<and> (l_conn s \<noteq> None \<or> (\<exists>c. pc = W_FailClear c)))"

definition held_ok :: "lock \<Rightarrow> bool" where
  "held_ok s \<longleftrightarrow> held_at (apc s) s"

text \<open>Told to stop and not past the check: the thread will not touch the connection again.\<close>

definition quiesced :: "lock \<Rightarrow> bool" where
  "quiesced s \<longleftrightarrow> event_set (l_stop_event s) s \<and> \<not> deep (apc s)"

text \<open>What a step of a renewal thread can change from the caller's point of view.\<close>

definition rely :: "lock \<Rightarrow> lock \<Rightarrow> bool" where
  "rely s t \<longleftrightarrow>
    l_closed t = l_closed s \<and> l_stop_event t = l_stop_event s \<and> l_events t = l_events s \<and>
    l_renew_thread t = l_renew_thread s \<and> l_joins t = l_joins s \<and> dials t = dials s \<and>
    length (l_workers t) = length (l_workers s) \<and> length (socks t) = length (socks s) \<and>
    (l_io_lock t = Some 0 \<longleftrightarrow> l_io_lock s = Some 0) \<and>
    (l_conn t = l_conn s \<or> l_conn t = None) \<and>
    (l_token t = l_token s \<or> l_token t = None) \<and>
    {c. conn_open t c} \<subseteq> {c. conn_open s c}"

text \<open>What every step of a thread guarantees.\<close>

definition safe_move :: "lock \<Rightarrow> lock \<Rightarrow> bool" where
  "safe_move s t \<longleftrightarrow>
    core t \<and> rely s t \<and> (quiesced s \<longrightarrow> quiesced t) \<and> (held_ok s \<longrightarrow> held_ok t) \<and>
    (apc s = W_Done \<longrightarrow> apc t = W_Done)"

lemma rely_refl [simp]: "rely s s"
  by (simp add: rely_def)

lemma rely_trans: "rely s t \<Longrightarrow> rely t u \<Longrightarrow> rely s u"
  unfolding rely_def by (elim conjE) (intro conjI; (simp; fail | blast | force))

lemma safe_move_refl: "core s \<Longrightarrow> safe_move s s"
  by (simp add: safe_move_def)

lemma safe_move_trans: "safe_move s t \<Longrightarrow> safe_move t u \<Longrightarrow> safe_move s u"
  unfolding safe_move_def by (blast intro: rely_trans)

section \<open>Moving the program counter\<close>

lemma w_goto_simps [simp]:
  "socks (w_goto w pc s) = socks s" "ios (w_goto w pc s) = ios s" "dials (w_goto w pc s) = dials s"
  "l_conn (w_goto w pc s) = l_conn s" "l_token (w_goto w pc s) = l_token s"
  "l_lease (w_goto w pc s) = l_lease s" "l_renew_thread (w_goto w pc s) = l_renew_thread s"
  "l_stop_event (w_goto w pc s) = l_stop_event s" "l_closed (w_goto w pc s) = l_closed s"
  "l_io_lock (w_goto w pc s) = l_io_lock s" "l_events (w_goto w pc s) = l_events s"
  "l_sched (w_goto w pc s) = l_sched s" "l_joins (w_goto w pc s) = l_joins s"
  "l_log (w_goto w pc s) = l_log s"
  "length (l_workers (w_goto w pc s)) = length (l_workers s)"
  "conn_open (w_goto w pc s) c = conn_open s c" "event_set e (w_goto w pc s) = event_set e s"
  by (simp_all add: w_goto_def conn_open_def event_set_def)

lemma apc_w_goto:
  "l_renew_thread s = Some w \<Longrightarrow> w < length (l_workers s) \<Longrightarrow> apc (w_goto w pc s) = pc"
  by (simp add: apc_def w_goto_def)

lemma threads_ok_w_goto:
  "l_renew_thread s = Some w \<Longrightarrow> threads_ok (w_goto w pc s) \<longleftrightarrow> threads_ok s"
  by (auto simp: threads_ok_def w_goto_def nth_list_update)

lemma threads_ok_index: "threads_ok s \<Longrightarrow> l_renew_thread s = Some w \<Longrightarrow> w < length (l_workers s)"
  by (simp add: threads_ok_def)

lemma at_w_goto [simp]:
  "lock_at q (w_goto w pc s) = lock_at q s" "conn_at q (w_goto w pc s) = conn_at q s"
  "held_at q (w_goto w pc s) = held_at q s" "knows q (w_goto w pc s) = knows q s"
  by (simp_all add: lock_at_def conn_at_def held_at_def) (cases q; simp)

text \<open>A move of the current thread to \<open>pc\<close>, after the attributes changed from \<open>s\<close> to \<open>t\<close>.\<close>

lemma safe_goto:
  assumes s: "threads_ok s" "l_renew_thread s = Some w"
    and same: "l_workers t = l_workers s"
    and t: "core_at pc t" "rely s t"
    and q: "event_set (l_stop_event s) s \<Longrightarrow> \<not> deep (apc s) \<Longrightarrow> \<not> deep pc"
    and h: "held_at (apc s) s \<Longrightarrow> held_at pc t"
    and live: "apc s \<noteq> W_Done"
  shows "safe_move s (w_goto w pc t)"
proof -
  have thr: "l_renew_thread t = Some w" "threads_ok t" "w < length (l_workers t)"
    using s t(2) same by (auto simp: rely_def threads_ok_def)
  then have pc: "apc (w_goto w pc t) = pc" by (simp add: apc_w_goto)
  have "core (w_goto w pc t)"
    using t(1) thr by (simp add: core_def pc threads_ok_w_goto core_at_def)
  moreover have "rely s (w_goto w pc t)" using t(2) by (simp add: rely_def)
  moreover have "quiesced s \<longrightarrow> quiesced (w_goto w pc t)"
    using q t(2) by (auto simp: quiesced_def pc rely_def event_set_def)
  ultimately show ?thesis using h live by (simp add: safe_move_def held_ok_def pc)
qed

section \<open>One step of the renewal thread\<close>

text \<open>A thread other than the current one has ended, so its step is the identity.\<close>

lemma stale_step: "threads_ok s \<Longrightarrow> l_renew_thread s \<noteq> Some w \<Longrightarrow> worker_step cfg w s = s"
  by (auto simp: threads_ok_def worker_step_def)

lemma proto_renew_run: "proto_renew cfg c tok s = (x, s') \<Longrightarrow> touches c s s'"
  unfolding proto_defs by (cases "cf_kind cfg") (auto dest!: sync.renew_effect simp del: lit_Cons)

text \<open>What touching a socket means for the client's state.\<close>

lemma touches_lock:
  assumes "touches c s s'"
  obtains k r where "s' = s\<lparr>socks := (socks s)[c := k], ios := r\<rparr>" "sk_open k \<longrightarrow> sk_open (socks s ! c)"
  using assms by (auto simp: touches_def)

lemma touches_open: "touches c s s' \<Longrightarrow> {d. conn_open s' d} \<subseteq> {d. conn_open s d}"
proof clarify
  fix d
  assume "touches c s s'" and d: "conn_open s' d"
  then obtain k r where s': "s' = s\<lparr>socks := (socks s)[c := k], ios := r\<rparr>"
    and k: "sk_open k \<longrightarrow> sk_open (socks s ! c)" by (auto simp: touches_def)
  show "conn_open s d" using d k by (cases "d = c") (auto simp: s' conn_open_def)
qed

lemma touches_attrs:
  fixes s s' :: lock
  assumes "touches c s s'"
  shows "l_conn s' = l_conn s" "l_token s' = l_token s" "l_lease s' = l_lease s"
    "l_renew_thread s' = l_renew_thread s" "l_stop_event s' = l_stop_event s" "l_closed s' = l_closed s"
    "l_io_lock s' = l_io_lock s" "l_events s' = l_events s" "l_workers s' = l_workers s"
    "l_sched s' = l_sched s" "l_joins s' = l_joins s" "l_log s' = l_log s" "dials s' = dials s"
    "length (socks s') = length (socks s)"
  using assms by (auto elim!: touches_lock)

lemma upd_sock_attrs [simp]:
  "l_conn (upd_sock c f s) = l_conn s"
  "l_token (upd_sock c f s) = l_token s"
  "l_lease (upd_sock c f s) = l_lease s"
  "l_renew_thread (upd_sock c f s) = l_renew_thread s"
  "l_stop_event (upd_sock c f s) = l_stop_event s"
  "l_closed (upd_sock c f s) = l_closed s"
  "l_io_lock (upd_sock c f s) = l_io_lock s"
  "l_events (upd_sock c f s) = l_events s"
  "l_workers (upd_sock c f s) = l_workers s"
  "l_sched (upd_sock c f s) = l_sched s"
  "l_joins (upd_sock c f s) = l_joins s"
  "l_log (upd_sock c f s) = l_log s"
  "dials (upd_sock c f s) = dials s"
  by (simp_all add: upd_sock_def)

lemma touches_conn_at: "touches c s s' \<Longrightarrow> conn_at pc s \<Longrightarrow> conn_at pc s'"
  using touches_open [of c s s'] touches_attrs [of c s s'] unfolding conn_at_def by auto

lemma touches_rely: "touches c s s' \<Longrightarrow> rely s s'"
  using touches_open [of c s s'] touches_attrs [of c s s'] by (auto simp: rely_def)

lemma log_renew_failure_simps [simp]:
  "l_conn (log_renew_failure cfg e s) = l_conn s" "l_token (log_renew_failure cfg e s) = l_token s"
  "l_lease (log_renew_failure cfg e s) = l_lease s"
  "l_renew_thread (log_renew_failure cfg e s) = l_renew_thread s"
  "l_stop_event (log_renew_failure cfg e s) = l_stop_event s"
  "l_closed (log_renew_failure cfg e s) = l_closed s" "l_io_lock (log_renew_failure cfg e s) = l_io_lock s"
  "l_events (log_renew_failure cfg e s) = l_events s" "l_workers (log_renew_failure cfg e s) = l_workers s"
  "l_sched (log_renew_failure cfg e s) = l_sched s" "l_joins (log_renew_failure cfg e s) = l_joins s"
  "socks (log_renew_failure cfg e s) = socks s" "dials (log_renew_failure cfg e s) = dials s"
  "ios (log_renew_failure cfg e s) = ios s"
  "conn_open (log_renew_failure cfg e s) c = conn_open s c"
  by (simp_all add: log_renew_failure_def conn_open_def)

lemma io_lock_upd_simps [simp]:
  "conn_open (s\<lparr>l_io_lock := x\<rparr>) c = conn_open s c" "conn_open (s\<lparr>l_conn := y\<rparr>) c = conn_open s c"
  "conn_open (s\<lparr>l_token := z, l_lease := n\<rparr>) c = conn_open s c"
  "conn_open (s\<lparr>l_lease := n\<rparr>) c = conn_open s c" "conn_open (s\<lparr>l_token := z\<rparr>) c = conn_open s c"
  by (simp_all add: conn_open_def)

text \<open>The renewal request itself, and what follows it.\<close>

lemma renew_once_safe:
  assumes s: "core s" "l_renew_thread s = Some w" and pc: "apc s = W_Io c tok"
  shows "safe_move s (safe_renew_once cfg w c tok s)"
proof -
  obtain x s1 where x: "proto_renew cfg c tok s = (x, s1)" by (rule prod.exhaust)
  note touch = proto_renew_run [OF x]
  note attrs = touches_attrs [OF touch]
  have th: "threads_ok s" and at: "core_at (W_Io c tok) s" using s pc by (simp_all add: core_def)
  have conn: "conn_at (W_Io c tok) s1" using at touches_conn_at [OF touch] by (simp add: core_at_def)
  have rely: "rely s s1" by (rule touches_rely [OF touch])
  have leave: "safe_move s (w_leave w pc' s1)" if "pc' = W_Done \<or> (\<exists>r. pc' = W_Ret r)" for pc'
    unfolding w_leave_def
    by (rule safe_goto [OF th s(2)])
      (use at conn rely attrs pc that s(2) in \<open>auto simp: core_at_def lock_at_def conn_at_def held_at_def
        rely_def deep_def\<close>)
  have fail: "safe_move s (w_goto w (W_Fail c) (log_renew_failure cfg e s1))" for e
    by (rule safe_goto [OF th s(2)])
      (use at conn rely attrs pc in \<open>auto simp: core_at_def lock_at_def conn_at_def held_at_def rely_def deep_def\<close>)
  show ?thesis
    using leave fail x by (auto simp: safe_renew_once_def split: sum.splits)
qed

text \<open>Every other step: the new program counter, and the attributes it writes.\<close>

lemmas move_simps = core_at_def lock_at_def conn_at_def held_at_def rely_def deep_def w_leave_def

lemma thread_step_safe:
  assumes s: "core s" "l_renew_thread s = Some w"
  shows "safe_move s (worker_step cfg w s)"
proof -
  have th: "threads_ok s" and at: "core_at (apc s) s" using s by (simp_all add: core_def)
  have w: "\<not> length (l_workers s) \<le> w" using threads_ok_index [OF th s(2)] by simp
  have pc: "w_pc (l_workers s ! w) = apc s" using s(2) by (simp add: apc_def)
  have ev: "w_event (l_workers s ! w) = l_stop_event s" using th s(2) by (simp add: threads_ok_def)
  note go = safe_goto [OF th s(2), of _ _]
  note step = worker_step_def Let_def pc ev w
  show ?thesis
  proof (cases "apc s")
    case W_Init
    show ?thesis
      by (simp add: step W_Init, rule go) (use at in \<open>auto simp: move_simps W_Init\<close>)
  next
    case (W_Wait i)
    have "safe_move s (w_goto w W_Done s)" "safe_move s (w_goto w W_Tick s)"
      by (rule go; use at in \<open>auto simp: move_simps W_Wait\<close>)+
    then show ?thesis by (simp add: step W_Wait)
  next
    case W_Tick
    have "safe_move s (w_goto w W_Check (s\<lparr>l_io_lock := Some (Suc w)\<rparr>))" if "l_io_lock s = None"
      by (rule go) (use at s(2) that in \<open>auto simp: move_simps W_Tick\<close>)
    then show ?thesis using safe_move_refl [OF s(1)] by (simp add: step W_Tick)
  next
    case W_Check
    have "safe_move s (w_leave w (W_Ret None) s)" unfolding w_leave_def
      by (rule go) (use at s(2) in \<open>auto simp: move_simps W_Check\<close>)
    moreover have "safe_move s (w_goto w W_Read s)" if "\<not> event_set (l_stop_event s) s"
      by (rule go) (use at s(2) that in \<open>auto simp: move_simps W_Check\<close>)
    ultimately show ?thesis by (simp add: step W_Check)
  next
    case W_Read
    have "safe_move s (w_leave w (W_Ret None) s)" unfolding w_leave_def
      by (rule go) (use at s(2) in \<open>auto simp: move_simps W_Read\<close>)
    moreover have "safe_move s (w_goto w (W_Io c t) s)" if "l_conn s = Some c" "l_token s = Some t" for c t
      by (rule go) (use at s(2) that in \<open>auto simp: move_simps W_Read\<close>)
    ultimately show ?thesis by (simp add: step W_Read split: option.split)
  next
    case (W_Io c t)
    then show ?thesis using renew_once_safe [OF s W_Io] by (simp add: step)
  next
    case (W_Fail c)
    have "safe_move s (w_goto w (W_FailSet c) s)"
      by (rule go) (use at s(2) in \<open>auto simp: move_simps W_Fail\<close>)
    moreover have "l_conn s = Some c" using at by (simp add: core_at_def W_Fail)
    ultimately show ?thesis by (simp add: step W_Fail)
  next
    case (W_FailSet c)
    show ?thesis
      by (simp add: step W_FailSet, rule go) (use at s(2) in \<open>auto simp: move_simps W_FailSet\<close>)
  next
    case (W_FailClear c)
    show ?thesis
      by (simp add: step W_FailClear, rule go) (use at s(2) in \<open>auto simp: move_simps W_FailClear\<close>)
  next
    case (W_FailClose c)
    show ?thesis
      by (simp add: step W_FailClose w_leave_def conn_close_run, rule go)
        (use at s(2) in \<open>auto simp: move_simps W_FailClose conn_open_upd_sock\<close>)
  next
    case (W_Ret r)
    have "safe_move s (w_goto w W_Done s)" "safe_move s (w_goto w (W_Update n) s)" for n
      by (rule go; use at s(2) in \<open>auto simp: move_simps W_Ret\<close>)+
    then show ?thesis by (cases r) (simp_all add: step W_Ret)
  next
    case (W_Update r)
    have "safe_move s (w_goto w (W_Set r) s)" if "r > 0" "l_token s \<noteq> None"
      by (rule go) (use at s(2) that in \<open>auto simp: move_simps W_Update\<close>)
    moreover have "safe_move s (w_goto w (W_Wait i) s)" for i
      by (rule go) (use at s(2) in \<open>auto simp: move_simps W_Update\<close>)
    ultimately show ?thesis by (simp add: step W_Update)
  next
    case (W_Set r)
    show ?thesis
      by (simp add: step W_Set, rule go) (use at s(2) in \<open>auto simp: move_simps W_Set\<close>)
  next
    case W_Done
    show ?thesis using safe_move_refl [OF s(1)] by (simp add: step W_Done)
  qed
qed

lemma step_safe: "core s \<Longrightarrow> safe_move s (worker_step cfg w s)"
  using thread_step_safe [of s w cfg] stale_step [of s w cfg] safe_move_refl [of s]
  by (cases "l_renew_thread s = Some w") (simp_all add: core_def)

section \<open>Bursts\<close>

lemma sched_indep [simp]:
  "apc (s\<lparr>l_sched := r\<rparr>) = apc s" "event_set e (s\<lparr>l_sched := r\<rparr>) = event_set e s"
  "conn_open (s\<lparr>l_sched := r\<rparr>) c = conn_open s c"
  "lock_at pc (s\<lparr>l_sched := r\<rparr>) = lock_at pc s" "conn_at pc (s\<lparr>l_sched := r\<rparr>) = conn_at pc s"
  "held_at pc (s\<lparr>l_sched := r\<rparr>) = held_at pc s" "threads_ok (s\<lparr>l_sched := r\<rparr>) = threads_ok s"
  by (simp_all add: apc_def event_set_def conn_open_def lock_at_def conn_at_def held_at_def threads_ok_def
      cong: option.case_cong)

lemma knows_sched [simp]: "knows pc (s\<lparr>l_sched := r\<rparr>) = knows pc s"
  by (cases pc) simp_all

lemma sched_safe: "core s \<Longrightarrow> safe_move s (s\<lparr>l_sched := r\<rparr>)"
  by (simp add: safe_move_def core_def core_at_def rely_def quiesced_def held_ok_def)

lemma fold_safe: "core s \<Longrightarrow> safe_move s (fold (worker_step cfg) ws s)"
proof (induction ws arbitrary: s)
  case (Cons w ws)
  have "safe_move s (worker_step cfg w s)" using Cons.prems by (rule step_safe)
  moreover from this have "core (worker_step cfg w s)" by (simp add: safe_move_def)
  ultimately show ?case using Cons.IH by (auto intro: safe_move_trans)
qed (simp add: safe_move_refl)

lemma burst_safe: "core s \<Longrightarrow> safe_move s (burst cfg s)"
proof (cases "l_sched s")
  case (Cons ws r)
  assume s: "core s"
  have "safe_move s (s\<lparr>l_sched := r\<rparr>)" using s by (rule sched_safe)
  moreover from this have "core (s\<lparr>l_sched := r\<rparr>)" by (simp add: safe_move_def)
  ultimately show ?thesis
    using fold_safe [of "s\<lparr>l_sched := r\<rparr>" cfg ws] by (auto simp: burst_def Cons intro: safe_move_trans)
qed (simp add: burst_def safe_move_refl)

section \<open>A thread holds the lock for at most seven of its steps\<close>

fun hold_rank :: "wpc \<Rightarrow> nat" where
  "hold_rank W_Check = 7"
| "hold_rank W_Read = 6"
| "hold_rank (W_Io _ _) = 5"
| "hold_rank (W_Fail _) = 4"
| "hold_rank (W_FailSet _) = 3"
| "hold_rank (W_FailClear _) = 2"
| "hold_rank (W_FailClose _) = 1"
| "hold_rank _ = 0"

text \<open>How many of its own steps a thread still takes once its stop event is set.\<close>

fun life :: "wpc \<Rightarrow> nat" where
  "life W_Done = 0"
| "life (W_Wait _) = 1"
| "life (W_Ret _) = 1"
| "life W_Init = 2"
| "life (W_Set _) = 2"
| "life W_Check = 2"
| "life (W_FailClose _) = 2"
| "life (W_Update _) = 3"
| "life W_Tick = 3"
| "life (W_FailClear _) = 3"
| "life (W_FailSet _) = 4"
| "life (W_Fail _) = 5"
| "life (W_Io _ _) = 6"
| "life W_Read = 7"

lemma hold_rank_le: "hold_rank pc \<le> 7" and life_le: "life pc \<le> 7"
  by (cases pc; simp)+

lemma hold_rank_0: "hold_rank pc = 0 \<longleftrightarrow> \<not> holding pc" and life_0: "life pc = 0 \<longleftrightarrow> pc = W_Done"
  by (cases pc; simp)+

text \<open>The program counter after a step of the current thread.\<close>

lemma apc_log [simp]: "apc (log_renew_failure cfg e s) = apc s"
  by (simp add: apc_def cong: option.case_cong)

lemma apc_upd_sock [simp]: "apc (upd_sock c f s) = apc s"
  by (simp add: apc_def cong: option.case_cong)

lemma event_set_attrs [simp]:
  "event_set e (s\<lparr>l_io_lock := x\<rparr>) = event_set e s" "event_set e (upd_sock c f s) = event_set e s"
  by (simp_all add: event_set_def)

lemma step_ranks:
  fixes cfg :: config
  assumes s: "core s" "l_renew_thread s = Some w"
  defines "pc' \<equiv> apc (worker_step cfg w s)"
  shows "holding (apc s) \<Longrightarrow> hold_rank pc' < hold_rank (apc s)"
    and "event_set (l_stop_event s) s \<Longrightarrow> l_io_lock s \<noteq> Some 0 \<Longrightarrow> apc s \<noteq> W_Done \<Longrightarrow> life pc' < life (apc s)"
proof -
  have th: "threads_ok s" and at: "core_at (apc s) s" using s by (simp_all add: core_def)
  have w: "w < length (l_workers s)" using threads_ok_index [OF th s(2)] .
  have pc: "w_pc (l_workers s ! w) = apc s" using s(2) by (simp add: apc_def)
  have ev: "w_event (l_workers s ! w) = l_stop_event s" using th s(2) by (simp add: threads_ok_def)
  have free: "l_io_lock s = None" if "l_io_lock s \<noteq> Some 0" "\<not> holding (apc s)"
    using at that by (auto simp: core_at_def lock_at_def)
  note step = worker_step_def Let_def pc ev w not_le w_leave_def apc_w_goto s(2) conn_close_run
  have io: "pc' \<in> {W_Done, W_Fail c} \<or> (\<exists>r. pc' = W_Ret r)" if "apc s = W_Io c t" for c t
  proof -
    obtain x s1 where run: "proto_renew cfg c t s = (x, s1)" by (rule prod.exhaust)
    have "l_renew_thread s1 = Some w" "w < length (l_workers s1)"
      using touches_attrs [OF proto_renew_run [OF run]] s(2) w by simp_all
    with run that show ?thesis
      by (simp add: pc'_def step safe_renew_once_def split: sum.split)
  qed
  have other: "hold_rank pc' < hold_rank (apc s)" if "holding (apc s)" "\<nexists>c t. apc s = W_Io c t"
    using that by (cases "apc s") (auto simp: pc'_def step split: option.split)
  have other': "life pc' < life (apc s)"
    if "event_set (l_stop_event s) s" "l_io_lock s \<noteq> Some 0" "apc s \<noteq> W_Done" "\<nexists>c t. apc s = W_Io c t"
    using that free by (cases "apc s") (auto simp: pc'_def step split: option.split)
  show "holding (apc s) \<Longrightarrow> hold_rank pc' < hold_rank (apc s)"
    using io other by (cases "\<exists>c t. apc s = W_Io c t") fastforce+
  show "event_set (l_stop_event s) s \<Longrightarrow> l_io_lock s \<noteq> Some 0 \<Longrightarrow> apc s \<noteq> W_Done \<Longrightarrow> life pc' < life (apc s)"
    using io other' by (cases "\<exists>c t. apc s = W_Io c t") fastforce+
qed

section \<open>A stopped thread ends, and a busy lock is granted\<close>

lemma rely_lock: "rely s t \<Longrightarrow> l_io_lock s \<noteq> Some 0 \<Longrightarrow> l_io_lock t \<noteq> Some 0"
  by (simp add: rely_def)

lemma rely_event: "rely s t \<Longrightarrow> event_set (l_stop_event t) t \<longleftrightarrow> event_set (l_stop_event s) s"
  by (simp add: rely_def event_set_def)

lemma done_step: "threads_ok s \<Longrightarrow> apc s = W_Done \<Longrightarrow> worker_step cfg w s = s"
  using stale_step [of s w cfg] by (cases "l_renew_thread s = Some w") (auto simp: worker_step_def apc_def)

theorem thread_ends:
  assumes "core s" "l_renew_thread s = Some t" "event_set (l_stop_event s) s" "l_io_lock s \<noteq> Some 0"
    and "life (apc s) \<le> n"
  shows "safe_move s ((worker_step cfg t ^^ n) s) \<and> apc ((worker_step cfg t ^^ n) s) = W_Done"
  using assms
proof (induction n arbitrary: s)
  case 0
  then show ?case using safe_move_refl [of s] by (simp add: life_0)
next
  case (Suc n)
  define s1 where "s1 = worker_step cfg t s"
  have move: "safe_move s s1" unfolding s1_def using Suc.prems(1) by (rule step_safe)
  then have s1: "core s1" "rely s s1" by (simp_all add: safe_move_def)
  have "life (apc s1) \<le> n"
  proof (cases "apc s = W_Done")
    case True
    with Suc.prems(1) show ?thesis by (simp add: s1_def core_def done_step)
  next
    case False
    from step_ranks(2) [OF Suc.prems(1,2,3,4) False, where cfg = cfg] Suc.prems(5) show ?thesis by (simp add: s1_def)
  qed
  moreover have "l_renew_thread s1 = Some t" using s1(2) Suc.prems(2) by (simp add: rely_def)
  ultimately have "safe_move s1 ((worker_step cfg t ^^ n) s1) \<and> apc ((worker_step cfg t ^^ n) s1) = W_Done"
    using s1 Suc.prems(3,4) rely_lock rely_event by (intro Suc.IH) auto
  with safe_move_trans [OF move] show ?case by (simp add: s1_def funpow_swap1)
qed

lemma sched_worker [simp]: "l_sched (worker_step cfg w s) = l_sched s"
proof -
  have "l_sched (safe_renew_once cfg w c t s) = l_sched s" for c t
  proof -
    obtain x s1 where x: "proto_renew cfg c t s = (x, s1)" by (rule prod.exhaust)
    from touches_attrs(10) [OF proto_renew_run [OF x]] x show ?thesis
      by (simp add: safe_renew_once_def w_leave_def split: sum.split)
  qed
  then show ?thesis
    by (simp add: worker_step_def Let_def w_leave_def conn_close_run split: wpc.split option.split)
qed

lemma sched_fold [simp]: "l_sched (fold (worker_step cfg) ws s) = l_sched s"
  by (induction ws arbitrary: s) simp_all

lemma sched_burst [simp]: "l_sched (burst cfg s) = tl (l_sched s)"
  by (simp add: burst_def split: list.split)

text \<open>The number of turns \<open>wait_io\<close> needs: a burst of the schedule may let the thread take the lock
  again, and each turn uses up one; after the last, seven steps free it.\<close>

definition io_turns :: "lock \<Rightarrow> nat" where
  "io_turns s = length (l_sched s) + (if l_sched s = [] then hold_rank (apc s) else 8)"

lemma lock_owner:
  assumes "core s" "l_io_lock s = Some owner" "l_io_lock s \<noteq> Some 0"
  shows "holding (apc s) \<and> l_renew_thread s = Some (owner - 1)"
  using assms by (auto simp: core_def core_at_def lock_at_def split: if_splits)

theorem io_lock_granted:
  assumes "core s" "l_io_lock s \<noteq> Some 0" "io_turns s \<le> n"
  shows "safe_move s (wait_io cfg n s) \<and> l_io_lock (wait_io cfg n s) = None"
  using assms
proof (induction n arbitrary: s)
  case 0
  then have "\<not> holding (apc s)" by (auto simp: io_turns_def hold_rank_0 split: if_splits)
  with 0 have "l_io_lock s = None" by (auto simp: core_def core_at_def lock_at_def)
  with 0 show ?case by (simp add: safe_move_refl)
next
  case (Suc n)
  show ?case
  proof (cases "l_io_lock s")
    case None
    with Suc.prems show ?thesis by (simp add: safe_move_refl)
  next
    case (Some owner)
    note own = lock_owner [OF Suc.prems(1) Some Suc.prems(2)]
    define s1 where "s1 = worker_step cfg (owner - 1) s"
    define s2 where "s2 = burst cfg s1"
    have m1: "safe_move s s1" unfolding s1_def using Suc.prems(1) by (rule step_safe)
    then have m2: "safe_move s1 s2" unfolding s2_def by (intro burst_safe) (simp add: safe_move_def)
    have move: "safe_move s s2" using m1 m2 by (rule safe_move_trans)
    then have s2: "core s2" "l_io_lock s2 \<noteq> Some 0"
      using Suc.prems(2) rely_lock by (auto simp: safe_move_def)
    have rank: "hold_rank (apc s1) < hold_rank (apc s)"
      unfolding s1_def using step_ranks(1) [of s "owner - 1" cfg] own Suc.prems(1) by simp
    have "io_turns s2 \<le> n"
    proof (cases "l_sched s")
      case Nil
      then have "s2 = s1" by (simp add: s2_def s1_def burst_def)
      with Nil rank Suc.prems(3) show ?thesis by (simp add: io_turns_def s1_def)
    next
      case (Cons a r)
      then have "l_sched s2 = r" by (simp add: s2_def s1_def)
      with Cons Suc.prems(3) hold_rank_le [of "apc s2"] show ?thesis
        by (auto simp: io_turns_def)
    qed
    from Suc.IH [OF s2 this] safe_move_trans [OF move] Some show ?thesis
      by (simp add: s1_def s2_def)
  qed
qed

lemma io_turns_bound: "io_turns s \<le> length (l_sched s) + 8"
  using hold_rank_le [of "apc s"] by (simp add: io_turns_def)

end
