(* ===== verification/Client_Spec.thy ===== *)
theory Client_Spec
  imports Client_Config
begin

text \<open>
  What a lock object promises its user, without connections, threads or tasks: a state machine over
  three phases, shared by the sync and the async client.  The locale \<open>lock_object\<close> is the contract of an
  implementation; its lemmas, proved once, say that every execution of the implementation is one of
  the specification.
\<close>

section \<open>Phases and outcomes\<close>

datatype phase = Idle | Queued | Holding pystr

datatype op = OAcquire | OEnqueue | OWait pyval | ORelease | OClose | OEnter | OExit

datatype outcome = Returned bool | Status pystr | Finished | Raised | Interrupted

text \<open>An \<open>Exception\<close> is an error of the operation; what is not one (\<open>KeyboardInterrupt\<close>,
  \<open>CancelledError\<close>) is an interruption from outside.\<close>

definition failure :: "exn \<Rightarrow> outcome" where
  "failure e = (if isinstance e BuiltinException then Raised else Interrupted)"

definition outcome_of :: "('a \<Rightarrow> outcome) \<Rightarrow> (exn + 'a) \<times> 's \<Rightarrow> outcome \<times> 's" where
  "outcome_of f r = (case r of (Inl e, t) \<Rightarrow> (failure e, t) | (Inr a, t) \<Rightarrow> (f a, t))"

fun is_holding :: "phase \<Rightarrow> bool" where
  "is_holding (Holding _) = True"
| "is_holding _ = False"

text \<open>The object's phase as its attributes \<open>_conn\<close> and \<open>token\<close> show it.\<close>

definition phase_of :: "nat option \<Rightarrow> pystr option \<Rightarrow> phase" where
  "phase_of conn token =
    (case token of Some tok \<Rightarrow> Holding tok | None \<Rightarrow> if conn = None then Idle else Queued)"

lemma phase_of_simps [simp]:
  "phase_of c (Some tok) = Holding tok" "phase_of None None = Idle" "phase_of (Some d) None = Queued"
  by (simp_all add: phase_of_def)

lemma is_holding_phase [simp]: "is_holding (phase_of c t) \<longleftrightarrow> t \<noteq> None"
  by (simp add: phase_of_def split: option.split)

section \<open>The state machine\<close>

text \<open>\<open>spec_step p a r q\<close>: the operation \<open>a\<close> in phase \<open>p\<close> may end with \<open>r\<close> in phase \<open>q\<close>.\<close>

fun spec_step :: "phase \<Rightarrow> op \<Rightarrow> outcome \<Rightarrow> phase \<Rightarrow> bool" where
  "spec_step p OAcquire r q =
    (case r of
       Returned b \<Rightarrow> if b then is_holding q else q = Idle
     | Raised \<Rightarrow> q = Idle
     | Interrupted \<Rightarrow> q = Idle \<or> q = p
     | _ \<Rightarrow> False)"
| "spec_step p OEnqueue r q =
    (case r of
       Status st \<Rightarrow> st = lit ''acquired'' \<and> is_holding q \<or> st = lit ''queued'' \<and> q = Queued
     | Raised \<Rightarrow> q = Idle
     | Interrupted \<Rightarrow> q = Idle \<or> q = p
     | _ \<Rightarrow> False)"
| "spec_step p (OWait _) r q =
    (case p of
       Holding _ \<Rightarrow> r = Returned True \<and> q = p
     | Queued \<Rightarrow> r = Returned True \<and> is_holding q \<or> r \<in> {Returned False, Raised, Interrupted} \<and> q = Idle
     | Idle \<Rightarrow> r = Raised \<and> q = Idle)"
| "spec_step p ORelease r q =
    (case r of
       Returned b \<Rightarrow> q = Idle \<and> (b \<longrightarrow> is_holding p)
     | Interrupted \<Rightarrow> q = Idle \<or> q = p
     | _ \<Rightarrow> False)"
| "spec_step p OClose r q = (r \<in> {Finished, Interrupted} \<and> q = Idle)"
| "spec_step p OEnter r q =
    (case r of
       Finished \<Rightarrow> is_holding q
     | Raised \<Rightarrow> q = Idle
     | Interrupted \<Rightarrow> q = Idle \<or> q = p
     | _ \<Rightarrow> False)"
| "spec_step p OExit r q =
    (case r of
       Finished \<Rightarrow> q = Idle
     | Interrupted \<Rightarrow> q = Idle \<or> q = p
     | _ \<Rightarrow> False)"

text \<open>A held lock can be lost at any time, also while an operation runs.\<close>

definition may_lose :: "phase \<Rightarrow> phase \<Rightarrow> bool" where
  "may_lose p q \<longleftrightarrow> q = p \<or> is_holding p \<and> q = Idle"

definition spec_call :: "phase \<Rightarrow> op \<Rightarrow> outcome \<Rightarrow> phase \<Rightarrow> bool" where
  "spec_call p a r q \<longleftrightarrow> spec_step p a r q \<or> is_holding p \<and> spec_step Idle a r q"

lemma may_lose_refl [simp]: "may_lose p p"
  by (simp add: may_lose_def)

section \<open>Executions\<close>

datatype event = Call op outcome | Background

datatype cmd = Do op | Step nat

inductive spec_exec :: "phase \<Rightarrow> event list \<Rightarrow> phase \<Rightarrow> bool" where
  stop: "spec_exec p [] p"
| call: "spec_call p a r q \<Longrightarrow> spec_exec q es u \<Longrightarrow> spec_exec p (Call a r # es) u"
| lose: "may_lose p q \<Longrightarrow> spec_exec q es u \<Longrightarrow> spec_exec p (Background # es) u"

inductive_cases spec_exec_NilE: "spec_exec p [] q"
inductive_cases spec_exec_ConsE: "spec_exec p (e # es) q"

fun exec :: "(op \<Rightarrow> 's \<Rightarrow> outcome \<times> 's) \<Rightarrow> (nat \<Rightarrow> 's \<Rightarrow> 's) \<Rightarrow> cmd list \<Rightarrow> 's \<Rightarrow> event list \<times> 's" where
  "exec call tick [] s = ([], s)"
| "exec call tick (Do a # cs) s =
    (let (r, t) = call a s; (es, u) = exec call tick cs t in (Call a r # es, u))"
| "exec call tick (Step w # cs) s =
    (let (es, u) = exec call tick cs (tick w s) in (Background # es, u))"

text \<open>Successful releases, and the events that report a lock as held.\<close>

fun is_release :: "event \<Rightarrow> bool" where
  "is_release (Call ORelease (Returned b)) = b"
| "is_release _ = False"

fun is_grant :: "event \<Rightarrow> bool" where
  "is_grant (Call OAcquire (Returned b)) = b"
| "is_grant (Call OEnqueue (Status st)) = (st = lit ''acquired'')"
| "is_grant (Call (OWait _) (Returned b)) = b"
| "is_grant (Call OEnter Finished) = True"
| "is_grant _ = False"

text \<open>Holding a lock takes a report of it: releases never outnumber the grants.\<close>

definition holds :: "phase \<Rightarrow> nat" where
  "holds p = (if is_holding p then 1 else 0)"

lemma step_counts:
  assumes "spec_step p a r q"
  shows "holds q + (if is_release (Call a r) then 1 else 0) \<le> (if is_grant (Call a r) then 1 else 0) + holds p"
  using assms
  by (cases a; cases r; cases p) (auto simp: holds_def split: if_splits simp del: lit_Cons)

lemma call_counts:
  assumes "spec_call p a r q"
  shows "holds q + (if is_release (Call a r) then 1 else 0) \<le> (if is_grant (Call a r) then 1 else 0) + holds p"
proof (cases "spec_step p a r q")
  case True
  then show ?thesis by (rule step_counts)
next
  case False
  with assms have "spec_step Idle a r q" by (simp add: spec_call_def)
  from step_counts [OF this] have
    "holds q + (if is_release (Call a r) then 1 else 0) \<le> (if is_grant (Call a r) then 1 else 0)"
    by (simp add: holds_def)
  then show ?thesis by (rule trans_le_add1)
qed

lemma exec_counts:
  "spec_exec p es q \<Longrightarrow> holds q + length (filter is_release es) \<le> length (filter is_grant es) + holds p"
proof (induction rule: spec_exec.induct)
  case (call p a r q es u)
  with call_counts [OF call.hyps(1)] show ?case by (auto split: if_splits)
next
  case (lose p q es u)
  then show ?case by (auto simp: may_lose_def holds_def split: if_splits)
qed simp

section \<open>The contract of an implementation\<close>

locale lock_object =
  fixes inv :: "'s \<Rightarrow> bool"
    and phase :: "'s \<Rightarrow> phase"
    and call :: "op \<Rightarrow> 's \<Rightarrow> outcome \<times> 's"
    and tick :: "nat \<Rightarrow> 's \<Rightarrow> 's"
  assumes call_correct: "inv s \<Longrightarrow> call a s = (r, t) \<Longrightarrow> inv t \<and> spec_call (phase s) a r (phase t)"
    and tick_correct: "inv s \<Longrightarrow> inv (tick w s) \<and> may_lose (phase s) (phase (tick w s))"
begin

lemma refines: "inv s \<Longrightarrow> exec call tick cs s = (es, t) \<Longrightarrow> inv t \<and> spec_exec (phase s) es (phase t)"
proof (induction cs arbitrary: s es)
  case (Cons c cs)
  show ?case
  proof (cases c)
    case (Do a)
    obtain r u es' where run: "call a s = (r, u)" "exec call tick cs u = (es', t)" "es = Call a r # es'"
      using Cons.prems(2) Do by (auto split: prod.splits)
    with call_correct [OF Cons.prems(1) run(1)] Cons.IH [OF _ run(2)] show ?thesis
      by (auto intro: spec_exec.call)
  next
    case (Step w)
    obtain es' where run: "exec call tick cs (tick w s) = (es', t)" "es = Background # es'"
      using Cons.prems(2) Step by (auto split: prod.splits)
    with tick_correct [OF Cons.prems(1)] Cons.IH [OF _ run(1)] show ?thesis
      by (auto intro: spec_exec.lose)
  qed
qed (simp add: spec_exec.stop)

lemma releases_need_grants:
  assumes "inv s" "phase s = Idle" "exec call tick cs s = (es, t)"
  shows "length (filter is_release es) \<le> length (filter is_grant es)"
  using exec_counts [of "phase s" es "phase t"] refines [OF assms(1,3)] assms(2) by (simp add: holds_def)

end

end
