(* ===== verification/Sync_Lifecycle.thy ===== *)
theory Sync_Lifecycle
  imports Sync_Invariant Client_Spec
begin

text \<open>
  What each method of a sync lock object does, from any state between two calls of the API (\<open>rest\<close>) and
  under every interference of the renewal thread.  Each method has one weakest-precondition lemma;
  the lemmas follow the call graph from \<open>close\<close> and \<open>stop_renew\<close> up to the public methods, and end in
  the invariance of \<open>rest\<close>.
\<close>

section \<open>States\<close>

definition joins_ok :: "lock \<Rightarrow> bool" where
  "joins_ok s \<longleftrightarrow> set (l_joins s) \<subseteq> {True}"

text \<open>The caller may run: the invariant holds and the caller does not own \<open>_io_lock\<close>.\<close>

definition runnable :: "lock \<Rightarrow> bool" where
  "runnable s \<longleftrightarrow> core s \<and> l_io_lock s \<noteq> Some 0 \<and> joins_ok s"

text \<open>\<open>calm\<close>: no renewal thread; \<open>blank\<close>: moreover nothing is held and no connection is open.\<close>

definition calm :: "lock \<Rightarrow> bool" where
  "calm s \<longleftrightarrow> runnable s \<and> l_renew_thread s = None"

definition blank :: "lock \<Rightarrow> bool" where
  "blank s \<longleftrightarrow> calm s \<and> l_conn s = None \<and> l_token s = None \<and> l_lease s = 0"

definition rest :: "lock \<Rightarrow> bool" where
  "rest s \<longleftrightarrow> runnable s \<and> held_ok s \<and> (l_closed s \<longrightarrow> blank s)"

text \<open>The phase the object's attributes show.\<close>

definition lphase :: "lock \<Rightarrow> phase" where
  "lphase s = phase_of (l_conn s) (l_token s)"

lemma lphase_same: "l_conn t = l_conn s \<Longrightarrow> l_token t = l_token s \<Longrightarrow> lphase t = lphase s"
  by (simp add: lphase_def)

lemma lphase_values:
  "l_token s = Some tok \<Longrightarrow> lphase s = Holding tok" "l_token s = None \<Longrightarrow> l_conn s = None \<Longrightarrow> lphase s = Idle"
  "l_token s = None \<Longrightarrow> l_conn s \<noteq> None \<Longrightarrow> lphase s = Queued"
  by (auto simp: lphase_def)

text \<open>Told to close: the flag and the stop event are set.\<close>

definition stopping :: "lock \<Rightarrow> bool" where
  "stopping s \<longleftrightarrow> runnable s \<and> l_closed s \<and> event_set (l_stop_event s) s"

lemma calm_apc: "calm s \<Longrightarrow> apc s = W_Done"
  by (simp add: calm_def apc_def)

lemma blank_closed_sockets: "blank s \<Longrightarrow> \<not> conn_open s c"
  by (auto simp: blank_def calm_def runnable_def core_def core_at_def conn_at_def apc_def)

section \<open>Rules for interference\<close>

lemma runnable_move: "runnable s \<Longrightarrow> safe_move s t \<Longrightarrow> runnable t"
  by (auto simp: runnable_def safe_move_def rely_def joins_ok_def)

text \<open>What the caller may rely on across interference.\<close>

definition open_conns :: "lock \<Rightarrow> nat set" where
  "open_conns s = {c. conn_open s c}"

definition drift :: "lock \<Rightarrow> lock \<Rightarrow> bool" where
  "drift s t \<longleftrightarrow>
    l_closed t = l_closed s \<and> l_stop_event t = l_stop_event s \<and> l_events t = l_events s \<and>
    l_renew_thread t = l_renew_thread s \<and> (l_conn t = l_conn s \<or> l_conn t = None) \<and>
    (l_token t = l_token s \<or> l_token t = None) \<and> open_conns t \<subseteq> open_conns s \<and>
    (quiesced s \<longrightarrow> quiesced t) \<and> (held_ok s \<longrightarrow> held_ok t) \<and>
    (apc s = W_Done \<longrightarrow> apc t = W_Done)"

lemma move_drift: "safe_move s t \<Longrightarrow> drift s t"
  unfolding safe_move_def rely_def drift_def open_conns_def by (elim conjE) (intro conjI; assumption)

lemma drift_refl [simp]: "drift s s"
  by (simp add: drift_def)

lemma drift_trans: "drift s t \<Longrightarrow> drift t u \<Longrightarrow> drift s u"
  unfolding drift_def by (elim conjE) (intro conjI; (metis subset_trans)?)

lemma driftD:
  assumes "drift s t"
  shows "l_closed t = l_closed s" "l_stop_event t = l_stop_event s" "l_events t = l_events s"
    "l_renew_thread t = l_renew_thread s" "l_conn t = l_conn s \<or> l_conn t = None"
    "l_token t = l_token s \<or> l_token t = None" "open_conns t \<subseteq> open_conns s"
    "quiesced s \<Longrightarrow> quiesced t" "held_ok s \<Longrightarrow> held_ok t" "apc s = W_Done \<Longrightarrow> apc t = W_Done"
    "event_set e t = event_set e s"
  using assms by (simp_all add: drift_def event_set_def)

lemma wp_interfere:
  "runnable s \<Longrightarrow> (\<And>t. drift s t \<Longrightarrow> runnable t \<Longrightarrow> Q () t) \<Longrightarrow> wp (interfere cfg) Q E s"
  using burst_safe [of s cfg] runnable_move [of s "burst cfg s"] move_drift [of s "burst cfg s"]
  by (simp add: interfere_def wp_modP runnable_def)

lemma wp_rd:
  "runnable s \<Longrightarrow> (\<And>t. drift s t \<Longrightarrow> runnable t \<Longrightarrow> Q (f t) t) \<Longrightarrow> wp (rd cfg f) Q E s"
  by (auto simp: rd_def wp_bindP wp_getP intro: wp_interfere)

lemma wp_wr:
  "runnable s \<Longrightarrow> (\<And>t. drift s t \<Longrightarrow> runnable t \<Longrightarrow> Q () (f t)) \<Longrightarrow> wp (wr cfg f) Q E s"
  by (auto simp: wr_def wp_bindP wp_modP intro: wp_interfere)

text \<open>Without a running thread, a burst only uses up the schedule.\<close>

lemma fold_idle: "threads_ok s \<Longrightarrow> apc s = W_Done \<Longrightarrow> fold (worker_step cfg) ws s = s"
  by (induction ws) (simp_all add: done_step)

lemma burst_idle: "threads_ok s \<Longrightarrow> apc s = W_Done \<Longrightarrow> burst cfg s = s\<lparr>l_sched := tl (l_sched s)\<rparr>"
  using fold_idle [of "s\<lparr>l_sched := tl (l_sched s)\<rparr>" cfg]
  by (cases "l_sched s") (simp_all add: burst_def)

lemma calm_burst: "calm s \<Longrightarrow> burst cfg s = s\<lparr>l_sched := tl (l_sched s)\<rparr>"
  using burst_idle [of s cfg] calm_apc [of s] by (simp add: calm_def runnable_def core_def)

lemma wp_rd_calm: "calm s \<Longrightarrow> (\<And>r. Q (f (s\<lparr>l_sched := r\<rparr>)) (s\<lparr>l_sched := r\<rparr>)) \<Longrightarrow> wp (rd cfg f) Q E s"
  by (simp add: rd_def interfere_def wp_bindP wp_modP wp_getP calm_burst)

lemma wp_wr_calm: "calm s \<Longrightarrow> (\<And>r. Q () (f (s\<lparr>l_sched := r\<rparr>))) \<Longrightarrow> wp (wr cfg f) Q E s"
  by (simp add: wr_def interfere_def wp_bindP wp_modP calm_burst)

section \<open>Writes of the caller that keep the invariant\<close>

lemma core_frame:
  assumes "core s"
    and "l_workers t = l_workers s" "l_renew_thread t = l_renew_thread s" "l_stop_event t = l_stop_event s"
    and "length (l_events t) = length (l_events s)" "l_io_lock t = l_io_lock s" "l_conn t = l_conn s"
    and "l_token t = l_token s" "length (socks t) = length (socks s)" "{c. conn_open t c} \<subseteq> {c. conn_open s c}"
  shows "core t" "apc t = apc s"
proof -
  show apc: "apc t = apc s" using assms by (simp add: apc_def cong: option.case_cong)
  have "threads_ok t" using assms by (auto simp: core_def threads_ok_def)
  moreover have "lock_at (apc t) t" using assms apc by (auto simp: core_def core_at_def lock_at_def)
  moreover have "conn_at (apc t) t" using assms apc by (auto simp: core_def core_at_def conn_at_def)
  moreover have "knows (apc t) t" using assms apc by (cases "apc s") (auto simp: core_def core_at_def)
  ultimately show "core t" by (simp add: core_def core_at_def)
qed

lemma runnable_frame:
  assumes "runnable s"
    and "l_workers t = l_workers s" "l_renew_thread t = l_renew_thread s" "l_stop_event t = l_stop_event s"
    and "length (l_events t) = length (l_events s)" "l_io_lock t = l_io_lock s" "l_conn t = l_conn s"
    and "l_token t = l_token s" "length (socks t) = length (socks s)" "{c. conn_open t c} \<subseteq> {c. conn_open s c}"
    and "l_joins t = l_joins s"
  shows "runnable t" "apc t = apc s"
  using assms core_frame [of s t] by (simp_all add: runnable_def joins_ok_def)

section \<open>Waiting for the thread\<close>

lemma joins_frame [simp]:
  "core (s\<lparr>l_joins := js\<rparr>) = core s" "apc (s\<lparr>l_joins := js\<rparr>) = apc s"
  "event_set e (s\<lparr>l_joins := js\<rparr>) = event_set e s" "conn_open (s\<lparr>l_joins := js\<rparr>) c = conn_open s c"
  "quiesced (s\<lparr>l_joins := js\<rparr>) = quiesced s" "held_ok (s\<lparr>l_joins := js\<rparr>) = held_ok s"
proof -
  show "core (s\<lparr>l_joins := js\<rparr>) = core s"
    using core_frame(1) [of s "s\<lparr>l_joins := js\<rparr>"] core_frame(1) [of "s\<lparr>l_joins := js\<rparr>" s]
    by (auto simp: conn_open_def)
qed (simp_all add: apc_def event_set_def conn_open_def quiesced_def held_ok_def held_at_def cong: option.case_cong)

lemma drift_joins: "drift s (s\<lparr>l_joins := js\<rparr>)"
  by (simp add: drift_def open_conns_def)

text \<open>A stopped thread has ended when \<open>join\<close> returns.\<close>

lemma wp_join:
  assumes "runnable s" "l_renew_thread s = Some t" "event_set (l_stop_event s) s"
    and Q: "\<And>u. drift s u \<Longrightarrow> runnable u \<Longrightarrow> apc u = W_Done \<Longrightarrow> Q () u"
  shows "wp (join_thread cfg t) Q E s"
  unfolding join_thread_def wp_bindP
proof (rule wp_interfere [OF assms(1)])
  fix u
  assume u: "drift s u" "runnable u"
  define v where "v = u\<lparr>l_joins := tl (l_joins u)\<rparr>"
  have js: "(case l_joins u of False # r \<Rightarrow> u\<lparr>l_joins := r\<rparr>
      | _ \<Rightarrow> (worker_step cfg t ^^ 16) (u\<lparr>l_joins := tl (l_joins u)\<rparr>)) = (worker_step cfg t ^^ 16) v"
    using u(2) by (auto simp: v_def runnable_def joins_ok_def split: list.split bool.split)
  have v: "core v" "l_renew_thread v = Some t" "event_set (l_stop_event v) v" "l_io_lock v \<noteq> Some 0"
    using u assms(2,3) by (auto simp: v_def runnable_def drift_def event_set_def)
  have run: "runnable v"
    using u(2) v(1) by (cases "l_joins u") (auto simp: v_def runnable_def joins_ok_def)
  have "life (apc v) \<le> 16" using life_le [of "apc v"] by simp
  from thread_ends [OF v this] have "safe_move v ((worker_step cfg t ^^ 16) v)"
    and ended: "apc ((worker_step cfg t ^^ 16) v) = W_Done" by simp_all
  moreover have "drift s v" using drift_trans [OF u(1) drift_joins] by (simp add: v_def)
  ultimately have "drift s ((worker_step cfg t ^^ 16) v)" "runnable ((worker_step cfg t ^^ 16) v)"
    using run runnable_move move_drift drift_trans by blast+
  with ended show "wp (modP (\<lambda>s. case l_joins s of False # r \<Rightarrow> s\<lparr>l_joins := r\<rparr>
      | _ \<Rightarrow> (worker_step cfg t ^^ 16) (s\<lparr>l_joins := tl (l_joins s)\<rparr>))) Q E u"
    unfolding wp_modP js by (intro Q)
qed

text \<open>Dropping a thread that has ended.\<close>

lemma drop_thread:
  assumes "runnable s" "apc s = W_Done"
  shows "calm (s\<lparr>l_renew_thread := None\<rparr>)" "held_ok s \<Longrightarrow> held_ok (s\<lparr>l_renew_thread := None\<rparr>)"
    "conn_open (s\<lparr>l_renew_thread := None\<rparr>) c = conn_open s c"
proof -
  let ?t = "s\<lparr>l_renew_thread := None\<rparr>"
  have apc: "apc ?t = W_Done" by (simp add: apc_def)
  have th: "threads_ok s" using assms(1) by (simp add: runnable_def core_def)
  have "w_pc (l_workers s ! w) = W_Done" if "w < length (l_workers s)" for w
    using th assms(2) that by (cases "l_renew_thread s = Some w") (simp_all add: threads_ok_def apc_def)
  with th have "threads_ok ?t" by (simp add: threads_ok_def)
  moreover have "core_at W_Done s" using assms by (simp add: runnable_def core_def)
  moreover have "core_at W_Done ?t = core_at W_Done s"
    by (simp add: core_at_def lock_at_def conn_at_def conn_open_def)
  ultimately show "calm ?t"
    using assms(1) apc by (simp add: calm_def runnable_def core_def joins_ok_def)
  show "held_ok s \<Longrightarrow> held_ok ?t" using assms(2) apc by (auto simp: held_ok_def held_at_def event_set_def)
  show "conn_open ?t c = conn_open s c" by (simp add: conn_open_def)
qed

section \<open>\<open>_stop_renew\<close>\<close>

lemma set_event:
  assumes "runnable s"
  defines "t \<equiv> s\<lparr>l_events := (l_events s)[l_stop_event s := True]\<rparr>"
  shows "runnable t" "apc t = apc s" "event_set (l_stop_event t) t" "conn_open t c = conn_open s c"
    "l_renew_thread s \<noteq> None \<Longrightarrow> held_ok s \<Longrightarrow> held_ok t"
proof -
  show "runnable t" and apc: "apc t = apc s"
    using runnable_frame [OF assms(1), of t] by (auto simp: t_def conn_open_def)
  show "l_renew_thread s \<noteq> None \<Longrightarrow> held_ok s \<Longrightarrow> held_ok t"
    using apc by (auto simp: held_ok_def held_at_def t_def)
  show "event_set (l_stop_event t) t"
    using assms(1) by (simp add: t_def event_set_def runnable_def core_def threads_ok_def)
  show "conn_open t c = conn_open s c" by (simp add: t_def conn_open_def)
qed

lemma wp_stop_renew:
  assumes s: "runnable s"
    and Q: "\<And>t. calm t \<Longrightarrow> l_closed t = l_closed s \<Longrightarrow> l_conn t = l_conn s \<or> l_conn t = None \<Longrightarrow>
      l_token t = l_token s \<or> l_token t = None \<Longrightarrow> held_ok s \<longrightarrow> held_ok t \<Longrightarrow>
      open_conns t \<subseteq> open_conns s \<Longrightarrow> held_ok s \<longrightarrow> lphase t = lphase s \<or> lphase t = Idle \<Longrightarrow> Q () t"
  shows "wp (stop_renew cfg) Q E s"
proof (cases "l_renew_thread s")
  case None
  then have c: "calm s" using s by (simp add: calm_def)
  show ?thesis
    unfolding stop_renew_def wp_bindP
  proof (rule wp_rd_calm [OF c])
    fix r
    have "runnable (s\<lparr>l_sched := r\<rparr>)"
      using s by (rule runnable_move) (use s in \<open>simp add: runnable_def sched_safe\<close>)
    then have "Q () (s\<lparr>l_sched := r\<rparr>)"
      by (intro Q) (simp_all add: calm_def None open_conns_def lphase_def held_ok_def)
    then show "wp (case l_renew_thread (s\<lparr>l_sched := r\<rparr>) of None \<Rightarrow> retP ()
      | Some th \<Rightarrow> seqP (set_stop_event cfg) (seqP (join_thread cfg th) (wr cfg (\<lambda>s. s\<lparr>l_renew_thread := None\<rparr>))))
      Q E (s\<lparr>l_sched := r\<rparr>)" by (simp add: None wp_retP)
  qed
next
  case running: (Some th0)
  show ?thesis
  unfolding stop_renew_def wp_bindP
proof (rule wp_rd [OF s])
  fix t
  assume t: "drift s t" "runnable t"
  show "wp (case l_renew_thread t of None \<Rightarrow> retP ()
      | Some th \<Rightarrow> seqP (set_stop_event cfg) (seqP (join_thread cfg th) (wr cfg (\<lambda>s. s\<lparr>l_renew_thread := None\<rparr>)))) Q E t"
  proof (cases "l_renew_thread t")
    case None
    with running driftD(4) [OF t(1)] show ?thesis by simp
  next
    case (Some th)
    show ?thesis
      unfolding Some option.case wp_bindP set_stop_event_def
    proof (rule wp_wr [OF t(2)])
      fix u
      assume u: "drift t u" "runnable u"
      define v where "v = u\<lparr>l_events := (l_events u)[l_stop_event u := True]\<rparr>"
      note ev = set_event [OF u(2), folded v_def]
      have th: "l_renew_thread v = Some th" using u(1) Some by (simp add: v_def drift_def)
      show "wp (join_thread cfg th) (\<lambda>_. wp (wr cfg (\<lambda>s. s\<lparr>l_renew_thread := None\<rparr>)) Q E) E v"
      proof (rule wp_join [OF ev(1) th ev(3)], rule wp_wr)
        fix x y
        assume x: "drift v x" "apc x = W_Done" and y: "drift x y" "runnable y"
        define z where "z = y\<lparr>l_renew_thread := None\<rparr>"
        have vy: "drift v y" using x(1) y(1) by (rule drift_trans)
        have su: "drift s u" using t(1) u(1) by (rule drift_trans)
        note z = drop_thread [OF y(2) driftD(10) [OF y(1) x(2)], folded z_def]
        have v: "l_closed v = l_closed u" "l_conn v = l_conn u" "l_token v = l_token u"
          "open_conns v = open_conns u"
          using ev(4) by (simp_all add: v_def open_conns_def)
        show "Q () z"
        proof (rule Q [OF z(1)])
          show "l_closed z = l_closed s"
            using driftD(1) [OF su] driftD(1) [OF vy] v by (simp add: z_def)
          show "l_conn z = l_conn s \<or> l_conn z = None"
            using driftD(5) [OF su] driftD(5) [OF vy] v by (auto simp: z_def)
          show tok: "l_token z = l_token s \<or> l_token z = None"
            using driftD(6) [OF su] driftD(6) [OF vy] v by (auto simp: z_def)
          show ok: "held_ok s \<longrightarrow> held_ok z"
            using driftD(9) [OF su] driftD(9) [OF vy] z(2) ev(5) driftD(4) [OF u(1)] Some by simp
          have "event_set (l_stop_event z) z"
            using ev(3) driftD(2,11) [OF vy] by (simp add: z_def event_set_def)
          then show "held_ok s \<longrightarrow> lphase z = lphase s \<or> lphase z = Idle"
            using ok tok by (cases "l_token z") (auto simp: held_ok_def held_at_def lphase_def)
          have "open_conns z = open_conns y" using z(3) by (simp add: open_conns_def)
          then show "open_conns z \<subseteq> open_conns s"
            using driftD(7) [OF su] driftD(7) [OF vy] v(4) by blast
        qed
      qed
    qed
  qed
qed
qed

section \<open>\<open>_close_unlocked\<close>\<close>

lemma stopping_drift: "stopping s \<Longrightarrow> drift s t \<Longrightarrow> runnable t \<Longrightarrow> stopping t"
  by (simp add: stopping_def driftD)

lemma io_lock_same: "l_io_lock t = None \<Longrightarrow> t\<lparr>l_io_lock := None\<rparr> = t" for t :: lock
  by (cases t) simp

lemma wp_io_lock_close:
  assumes s: "runnable s"
    and Q: "\<And>t. drift s t \<Longrightarrow> runnable t \<Longrightarrow> l_io_lock t = None \<Longrightarrow>
      Q () (upd_sock c (\<lambda>k. k\<lparr>sk_open := False\<rparr>) t)"
  shows "wp (with_io_lock cfg (conn_close c)) Q E s"
  unfolding with_io_lock_def wp_bindP
proof (rule wp_interfere [OF s])
  fix u
  assume u: "drift s u" "runnable u"
  define v where "v = wait_io cfg (length (l_sched u) + 8) u"
  have move: "safe_move u v" and free: "l_io_lock v = None"
    using io_lock_granted [of u "length (l_sched u) + 8" cfg] u(2) io_turns_bound [of u]
    by (simp_all add: v_def runnable_def)
  have v: "drift s v" "runnable v"
    using drift_trans [OF u(1) move_drift [OF move]] runnable_move [OF u(2) move] by simp_all
  define f :: "sock \<Rightarrow> sock" where "f = (\<lambda>k. k\<lparr>sk_open := False\<rparr>)"
  have "(upd_sock c f (v\<lparr>l_io_lock := Some 0\<rparr>))\<lparr>l_io_lock := None\<rparr> = upd_sock c f (v\<lparr>l_io_lock := None\<rparr>)"
    by (simp add: upd_sock_def)
  then have same: "(upd_sock c f (v\<lparr>l_io_lock := Some 0\<rparr>))\<lparr>l_io_lock := None\<rparr> = upd_sock c f v"
    using io_lock_same [OF free] by simp
  show "wp (modP (\<lambda>s. (wait_io cfg (length (l_sched s) + 8) s)\<lparr>l_io_lock := Some 0\<rparr>))
      (\<lambda>_. wp (tryP (conn_close c)
        (\<lambda>e. seqP (modP (\<lambda>s. s\<lparr>l_io_lock := None\<rparr>)) (raiseP e))
        (\<lambda>a. seqP (modP (\<lambda>s. s\<lparr>l_io_lock := None\<rparr>)) (retP a))) Q E) E u"
    using Q [OF v free, folded f_def] same
    by (simp add: wp_simps conn_close_def v_def [symmetric] f_def [symmetric])
qed

text \<open>Dropping a closed connection once the thread is quiet.\<close>

lemma quiesced_pc: "quiesced s \<Longrightarrow> closing (apc s) = None \<and> (\<forall>t. l_token t = l_token s \<longrightarrow> knows (apc s) s \<longrightarrow> knows (apc s) t)"
  by (cases "apc s") (auto simp: quiesced_def deep_def)

lemma drop_conn:
  assumes "runnable s" "quiesced s" "l_conn s = Some c \<or> l_conn s = None" "\<not> conn_open s c"
  shows "runnable (s\<lparr>l_conn := None\<rparr>)" "apc (s\<lparr>l_conn := None\<rparr>) = apc s"
proof -
  let ?t = "s\<lparr>l_conn := None\<rparr>"
  show apc: "apc ?t = apc s" by (simp add: apc_def cong: option.case_cong)
  have at: "threads_ok s" "lock_at (apc s) s" "conn_at (apc s) s" "knows (apc s) s"
    using assms(1) by (simp_all add: runnable_def core_def core_at_def)
  have "\<not> conn_open s d" for d
    using at(3) quiesced_pc [OF assms(2)] assms(3,4) unfolding conn_at_def by fastforce
  then have "conn_at (apc s) ?t" by (simp add: conn_at_def)
  moreover have "threads_ok ?t = threads_ok s" "lock_at (apc s) ?t = lock_at (apc s) s"
    by (simp_all add: threads_ok_def lock_at_def)
  moreover have "knows (apc s) ?t" using quiesced_pc [OF assms(2)] at(4) by simp
  ultimately show "runnable ?t"
    using at assms(1) by (simp add: runnable_def core_def core_at_def apc joins_ok_def)
qed

lemma wp_shutdown_and_close:
  assumes s: "stopping s" and Q: "\<And>t. stopping t \<Longrightarrow> l_conn t = None \<Longrightarrow> Q () t"
  shows "wp (shutdown_and_close_conn cfg) Q E s"
  unfolding shutdown_and_close_conn_def wp_bindP
proof (rule wp_rd)
  show "runnable s" using s by (simp add: stopping_def)
  fix t
  assume t: "drift s t" "runnable t"
  note st = stopping_drift [OF s t]
  show "wp (case l_conn t of None \<Rightarrow> retP ()
      | Some c \<Rightarrow> seqP (seqP (interfere cfg) (shutdown_read c))
          (seqP (with_io_lock cfg (conn_close c)) (wr cfg (\<lambda>s. s\<lparr>l_conn := None\<rparr>)))) Q E t"
  proof (cases "l_conn t")
    case None
    with Q [OF st] show ?thesis by (simp add: wp_retP)
  next
    case (Some c)
    show ?thesis
      unfolding Some option.case wp_bindP
    proof (rule wp_interfere [OF t(2)])
      fix u
      assume u: "drift t u" "runnable u"
      define v where "v = upd_sock c (\<lambda>k. k\<lparr>sk_shut := True\<rparr>) u"
      have op: "conn_open v = conn_open u"
        unfolding fun_eq_iff v_def conn_open_upd_sock by (auto simp: conn_open_def [of u c])
      have v: "runnable v" using runnable_frame(1) [OF u(2), of v] by (simp add: v_def op [unfolded v_def])
      have sv: "stopping v" using stopping_drift [OF st u] v by (simp add: stopping_def v_def)
      have cv: "l_conn v = Some c \<or> l_conn v = None" using driftD(5) [OF u(1)] Some by (simp add: v_def)
      have "wp (with_io_lock cfg (conn_close c)) (\<lambda>_. wp (wr cfg (\<lambda>s. s\<lparr>l_conn := None\<rparr>)) Q E) E v"
      proof (rule wp_io_lock_close [OF v], rule wp_wr)
        fix x
        assume x: "drift v x" "runnable x" "l_io_lock x = None"
        define y where "y = upd_sock c (\<lambda>k. k\<lparr>sk_open := False\<rparr>) x"
        have opy: "{d. conn_open y d} \<subseteq> {d. conn_open x d}" "\<not> conn_open y c"
          by (auto simp: y_def conn_open_upd_sock split: if_splits)
        show ry: "runnable y"
          using runnable_frame(1) [OF x(2), of y] opy(1) by (simp add: y_def)
        have sy: "stopping y" using stopping_drift [OF sv x(1,2)] ry by (simp add: stopping_def y_def)
        have "\<not> holding (apc y)"
          using ry x(3) by (auto simp: runnable_def core_def core_at_def lock_at_def y_def split: if_splits)
        then have qy: "quiesced y" using sy by (simp add: quiesced_def deep_def stopping_def)
        have cy: "l_conn y = Some c \<or> l_conn y = None" using driftD(5) [OF x(1)] cv by (auto simp: y_def)
        fix z
        assume z: "drift y z" "runnable z"
        have "\<not> conn_open z c" using driftD(7) [OF z(1)] opy(2) by (auto simp: open_conns_def)
        moreover have "l_conn z = Some c \<or> l_conn z = None" using driftD(5) [OF z(1)] cy by auto
        ultimately have rz: "runnable (z\<lparr>l_conn := None\<rparr>)"
          using drop_conn(1) [OF z(2) driftD(8) [OF z(1) qy]] by blast
        show "Q () (z\<lparr>l_conn := None\<rparr>)"
          by (rule Q) (use rz stopping_drift [OF sy z] in \<open>simp_all add: stopping_def event_set_def\<close>)
      qed
      then show "wp (shutdown_read c) (\<lambda>_. wp (with_io_lock cfg (conn_close c))
          (\<lambda>_. wp (wr cfg (\<lambda>s. s\<lparr>l_conn := None\<rparr>)) Q E) E) E u"
        by (simp add: shutdown_read_def wp_modP v_def)
    qed
  qed
qed

lemma wp_join_renew_thread:
  assumes s: "stopping s" "l_conn s = None"
    and Q: "\<And>t. calm t \<Longrightarrow> l_closed t \<Longrightarrow> l_conn t = None \<Longrightarrow> Q () t"
  shows "wp (join_renew_thread cfg) Q E s"
  unfolding join_renew_thread_def wp_bindP
proof (rule wp_rd)
  show "runnable s" using s(1) by (simp add: stopping_def)
  fix t
  assume t: "drift s t" "runnable t"
  note st = stopping_drift [OF s(1) t]
  have ct: "l_conn t = None" using driftD(5) [OF t(1)] s(2) by auto
  show "wp (case l_renew_thread t of None \<Rightarrow> wr cfg (\<lambda>s. s\<lparr>l_renew_thread := None\<rparr>)
      | Some th \<Rightarrow> seqP (join_thread cfg th) (wr cfg (\<lambda>s. s\<lparr>l_renew_thread := None\<rparr>))) Q E t"
  proof (cases "l_renew_thread t")
    case None
    show ?thesis
      unfolding None option.case
    proof (rule wp_wr [OF t(2)])
      fix u
      assume u: "drift t u" "runnable u"
      have "l_renew_thread u = None" using driftD(4) [OF u(1)] None by simp
      then have "apc u = W_Done" by (simp add: apc_def)
      note dropped = drop_thread [OF u(2) this]
      show "Q () (u\<lparr>l_renew_thread := None\<rparr>)"
        by (rule Q) (use dropped stopping_drift [OF st u] driftD(5) [OF u(1)] ct in \<open>auto simp: stopping_def\<close>)
    qed
  next
    case (Some th)
    show ?thesis
      unfolding Some option.case wp_bindP
    proof (rule wp_join [OF t(2) Some])
      show "event_set (l_stop_event t) t" using st by (simp add: stopping_def)
      fix u
      assume u: "drift t u" "runnable u" "apc u = W_Done"
      note su = stopping_drift [OF st u(1,2)]
      show "wp (wr cfg (\<lambda>s. s\<lparr>l_renew_thread := None\<rparr>)) Q E u"
      proof (rule wp_wr [OF u(2)])
        fix x
        assume x: "drift u x" "runnable x"
        note dropped = drop_thread [OF x(2) driftD(10) [OF x(1) u(3)]]
        have "l_conn x = None" using driftD(5) [OF u(1)] driftD(5) [OF x(1)] ct by auto
        then show "Q () (x\<lparr>l_renew_thread := None\<rparr>)"
          by (intro Q) (use dropped stopping_drift [OF su x] in \<open>simp_all add: stopping_def\<close>)
      qed
    qed
  qed
qed

text \<open>Without a thread, the caller's writes and its own requests keep \<open>calm\<close>.\<close>

lemma calm_frame:
  assumes "calm s"
    and "l_workers t = l_workers s" "l_renew_thread t = l_renew_thread s" "l_stop_event t = l_stop_event s"
    and "length (l_events t) = length (l_events s)" "l_io_lock t = l_io_lock s" "l_conn t = l_conn s"
    and "length (socks t) = length (socks s)" "{c. conn_open t c} \<subseteq> {c. conn_open s c}"
    and "l_joins t = l_joins s"
  shows "calm t"
proof -
  define u where "u = t\<lparr>l_token := l_token s\<rparr>"
  have "runnable u"
    by (rule runnable_frame(1) [of s]) (use assms in \<open>simp_all add: u_def calm_def conn_open_def\<close>)
  moreover have "apc u = W_Done" "apc t = W_Done" using assms by (simp_all add: u_def apc_def calm_def)
  moreover have "threads_ok u = threads_ok t" "lock_at W_Done u = lock_at W_Done t"
    "conn_at W_Done u = conn_at W_Done t"
    by (simp_all add: u_def threads_ok_def lock_at_def conn_at_def)
  ultimately have "runnable t"
    by (simp add: runnable_def core_def core_at_def u_def joins_ok_def)
  with assms show ?thesis by (simp add: calm_def)
qed

lemma calm_sched [simp]: "calm s \<Longrightarrow> calm (s\<lparr>l_sched := r\<rparr>)"
  by (rule calm_frame) simp_all

lemma calm_touches:
  assumes "calm s" "touches c s t"
  shows "calm t"
  by (rule calm_frame [OF assms(1)])
    (use touches_attrs [OF assms(2)] touches_open [OF assms(2)] in simp_all)

lemma wp_clear_held:
  assumes "calm s" and Q: "\<And>r. Q () (s\<lparr>l_token := None, l_sched := r, l_lease := 0\<rparr>)"
  shows "wp (clear_held_state cfg) Q E s"
  unfolding clear_held_state_def wp_bindP
proof (rule wp_wr_calm [OF assms(1)], rule wp_wr_calm)
  fix r
  show "calm (s\<lparr>l_sched := r, l_token := None\<rparr>)"
    by (rule calm_frame [OF assms(1)]) (simp_all add: conn_open_def)
  fix r'
  show "Q () (s\<lparr>l_sched := r, l_token := None, l_sched := r', l_lease := 0\<rparr>)"
    using Q [of r'] by simp
qed

lemma wp_close:
  assumes s: "runnable s"
    and closed: "\<And>t. l_closed s \<Longrightarrow> drift s t \<Longrightarrow> runnable t \<Longrightarrow> Q () t"
    and open': "\<And>t. \<not> l_closed s \<Longrightarrow> blank t \<Longrightarrow> l_closed t \<Longrightarrow> Q () t"
  shows "wp (close_unlocked cfg) Q E s"
  unfolding close_unlocked_def wp_bindP
proof (rule wp_rd [OF s])
  fix t
  assume t: "drift s t" "runnable t"
  show "wp (if l_closed t then retP () else seqP (begin_close cfg) (tear_down_conn_and_thread cfg)) Q E t"
  proof (cases "l_closed t")
    case True
    then show ?thesis using closed [OF _ t] driftD(1) [OF t(1)] by (simp add: wp_retP)
  next
    case False
    then have ns: "\<not> l_closed s" using driftD(1) [OF t(1)] by simp
    have down: "wp (tear_down_conn_and_thread cfg) Q E u" if u: "stopping u" for u
      unfolding tear_down_conn_and_thread_def wp_bindP
    proof (rule wp_shutdown_and_close [OF u], rule wp_join_renew_thread, assumption, assumption, rule wp_clear_held)
      fix x r
      assume x: "calm x" "l_closed x" "l_conn x = None"
      show "Q () (x\<lparr>l_token := None, l_sched := r, l_lease := 0\<rparr>)"
      proof (rule open' [OF ns])
        have "calm (x\<lparr>l_token := None, l_sched := r, l_lease := 0\<rparr>)"
          by (rule calm_frame [OF x(1)]) (simp_all add: conn_open_def)
        then show "blank (x\<lparr>l_token := None, l_sched := r, l_lease := 0\<rparr>)"
          using x by (simp add: blank_def)
        show "l_closed (x\<lparr>l_token := None, l_sched := r, l_lease := 0\<rparr>)" using x by simp
      qed
    qed
    have "wp (begin_close cfg) (\<lambda>_. wp (tear_down_conn_and_thread cfg) Q E) E t"
      unfolding begin_close_def wp_bindP set_stop_event_def
    proof (rule wp_wr [OF t(2)], rule wp_wr)
      fix u
      assume u: "drift t u" "runnable u"
      show "runnable (u\<lparr>l_closed := True\<rparr>)"
        using runnable_frame(1) [OF u(2), of "u\<lparr>l_closed := True\<rparr>"] by (simp add: conn_open_def)
      fix x
      assume x: "drift (u\<lparr>l_closed := True\<rparr>) x" "runnable x"
      have "l_closed x" using driftD(1) [OF x(1)] by simp
      then show "wp (tear_down_conn_and_thread cfg) Q E (x\<lparr>l_events := (l_events x)[l_stop_event x := True]\<rparr>)"
        using set_event [OF x(2)] by (intro down) (simp add: stopping_def)
    qed
    with False show ?thesis by (simp add: wp_bindP)
  qed
qed

section \<open>\<open>_reset_for_new_attempt\<close> and connecting\<close>

lemma calm_iff:
  "calm s \<longleftrightarrow> threads_ok s \<and> l_renew_thread s = None \<and> l_io_lock s = None \<and> joins_ok s \<and> conn_at W_Done s"
proof (cases "l_renew_thread s")
  case None
  then have "apc s = W_Done" by (simp add: apc_def)
  with None show ?thesis
    by (auto simp: calm_def runnable_def core_def core_at_def lock_at_def)
qed (simp add: calm_def)

lemma conn_at_Done:
  "conn_at W_Done s \<longleftrightarrow>
    (\<forall>c. l_conn s = Some c \<longrightarrow> c < length (socks s)) \<and> open_conns s \<subseteq> set_option (l_conn s)"
  by (auto simp: conn_at_def open_conns_def elem_set)

lemma wp_wr_idle:
  assumes "threads_ok s" "l_renew_thread s = None" and Q: "\<And>r. Q () (f (s\<lparr>l_sched := r\<rparr>))"
  shows "wp (wr cfg f) Q E s"
proof -
  have "apc s = W_Done" using assms(2) by (simp add: apc_def)
  from burst_idle [OF assms(1) this] Q show ?thesis
    by (simp add: wr_def interfere_def wp_bindP wp_modP)
qed

text \<open>Armed for a new attempt: nothing held, the flag and the new stop event not set.\<close>

definition fresh :: "lock \<Rightarrow> bool" where
  "fresh s \<longleftrightarrow> blank s \<and> \<not> l_closed s \<and> \<not> event_set (l_stop_event s) s"

lemma blank_close:
  assumes s: "calm s" "held_ok s" "l_closed s \<longrightarrow> blank s" "drift s t" "runnable t" "l_closed s"
  shows "blank t"
proof -
  have b: "l_conn s = None" "l_token s = None" "l_renew_thread s = None"
    using s by (simp_all add: blank_def calm_def)
  have t: "l_conn t = None" "l_token t = None" "l_renew_thread t = None"
    using driftD(4,5,6) [OF s(4)] b by auto
  moreover have "l_lease t = 0" using driftD(9) [OF s(4,2)] t by (simp add: held_ok_def held_at_def)
  ultimately show ?thesis using s(5) by (simp add: blank_def calm_def)
qed

lemma wp_reset:
  assumes s: "rest s" and Q: "\<And>t. fresh t \<Longrightarrow> Q () t"
  shows "wp (reset_for_new_attempt cfg) Q E s"
  unfolding reset_for_new_attempt_def wp_bindP
proof (rule wp_stop_renew)
  show "runnable s" using s by (simp add: rest_def)
  fix t
  assume t: "calm t" "l_closed t = l_closed s" "l_conn t = l_conn s \<or> l_conn t = None"
    "l_token t = l_token s \<or> l_token t = None" "held_ok s \<longrightarrow> held_ok t"
  have h: "held_ok t" using s t(5) by (simp add: rest_def)
  have bt: "l_closed t \<longrightarrow> blank t"
  proof
    assume "l_closed t"
    then have "l_conn t = None" "l_token t = None" using s t by (auto simp: rest_def blank_def)
    with h t(1) show "blank t" by (simp add: blank_def held_ok_def held_at_def)
  qed
  have rearm: "wp (wr cfg (\<lambda>s. s\<lparr>l_closed := False\<rparr>))
      (\<lambda>_. wp (wr cfg (\<lambda>s. s\<lparr>l_stop_event := length (l_events s), l_events := l_events s @ [False]\<rparr>)) Q E) E u"
    if u: "blank u" for u
  proof (rule wp_wr_calm, goal_cases)
    case 1
    show ?case using u by (simp add: blank_def)
  next
    case (2 r)
    have c: "calm (u\<lparr>l_sched := r, l_closed := False\<rparr>)"
      by (rule calm_frame [of u]) (use u in \<open>simp_all add: blank_def conn_open_def\<close>)
    show ?case
    proof (rule wp_wr_calm [OF c])
      fix r'
      let ?v = "u\<lparr>l_closed := False, l_sched := r', l_stop_event := length (l_events u), l_events := l_events u @ [False]\<rparr>"
      have cu: "threads_ok u" "l_renew_thread u = None" "l_io_lock u = None" "joins_ok u" "conn_at W_Done u"
        using u by (simp_all add: blank_def calm_iff)
      moreover have "conn_at W_Done ?v \<longleftrightarrow> conn_at W_Done u" by (simp add: conn_at_def conn_open_def)
      moreover have "threads_ok ?v" using cu(1,2) by (simp add: threads_ok_def)
      ultimately have "calm ?v" by (simp add: calm_iff joins_ok_def)
      then have "fresh ?v" using u by (simp add: fresh_def blank_def event_set_def)
      with Q [of ?v] show "Q () ((\<lambda>s. s\<lparr>l_stop_event := length (l_events s), l_events := l_events s @ [False]\<rparr>)
          ((u\<lparr>l_sched := r, l_closed := False\<rparr>)\<lparr>l_sched := r'\<rparr>))"
        by simp
    qed
  qed
  show "wp (close_unlocked cfg) (\<lambda>_. wp (wr cfg (\<lambda>s. s\<lparr>l_closed := False\<rparr>))
      (\<lambda>_. wp (wr cfg (\<lambda>s. s\<lparr>l_stop_event := length (l_events s), l_events := l_events s @ [False]\<rparr>)) Q E) E) E t"
  proof (rule wp_close)
    show "runnable t" using t(1) by (simp add: calm_def)
  next
    fix u
    assume "l_closed t" "drift t u" "runnable u"
    with blank_close [OF t(1) h bt] show "wp (wr cfg (\<lambda>s. s\<lparr>l_closed := False\<rparr>))
      (\<lambda>_. wp (wr cfg (\<lambda>s. s\<lparr>l_stop_event := length (l_events s), l_events := l_events s @ [False]\<rparr>)) Q E) E u"
      by (intro rearm) blast
  qed (rule rearm)
qed

text \<open>Dialled and authenticated, nothing held yet.\<close>

definition connected :: "lock \<Rightarrow> bool" where
  "connected s \<longleftrightarrow> calm s \<and> l_conn s \<noteq> None \<and> l_token s = None \<and> l_lease s = 0 \<and>
    \<not> l_closed s \<and> \<not> event_set (l_stop_event s) s"

text \<open>\<open>nets_only s t\<close>: only the sockets and the scripts of the network differ.\<close>

definition nets_only :: "lock \<Rightarrow> lock \<Rightarrow> bool" where
  "nets_only s t \<longleftrightarrow> (\<exists>ks es ds. t = s\<lparr>dials := ds, socks := ks, ios := es\<rparr>)"

lemma nets_only_trans:
  assumes "nets_only s t" "nets_only t u"
  shows "nets_only s u"
proof -
  from assms obtain ks es ds ks' es' ds' where t: "t = s\<lparr>dials := ds, socks := ks, ios := es\<rparr>"
    and u: "u = t\<lparr>dials := ds', socks := ks', ios := es'\<rparr>" by (auto simp: nets_only_def)
  have "u = s\<lparr>dials := ds', socks := ks', ios := es'\<rparr>" unfolding u t by simp
  then show ?thesis unfolding nets_only_def by blast
qed

lemma nets_only_touches: "touches c s t \<Longrightarrow> nets_only s t"
proof -
  assume "touches c s t"
  then obtain k r where "t = s\<lparr>socks := (socks s)[c := k], ios := r\<rparr>" by (auto simp: touches_def)
  then have "t = s\<lparr>dials := dials s, socks := (socks s)[c := k], ios := r\<rparr>" by simp
  then show ?thesis unfolding nets_only_def by blast
qed

lemma nets_only_upd: "nets_only s (upd_sock c f s)"
proof -
  have "upd_sock c f s = s\<lparr>dials := dials s, socks := (socks s)[c := f (socks s ! c)], ios := ios s\<rparr>"
    by (simp add: upd_sock_def)
  then show ?thesis unfolding nets_only_def by blast
qed

lemma nets_only_idle:
  assumes "nets_only s t" "calm s"
  shows "threads_ok t" "l_renew_thread t = None" "l_io_lock t = None" "joins_ok t"
    "l_conn t = l_conn s" "l_token t = l_token s" "l_lease t = l_lease s" "l_closed t = l_closed s"
    "l_stop_event t = l_stop_event s" "l_events t = l_events s"
  using assms by (auto simp: nets_only_def calm_iff threads_ok_def joins_ok_def)

lemma fresh_nets_only:
  assumes "fresh s" "nets_only s t" "open_conns t = {}"
  shows "fresh t"
proof -
  have c: "calm s" "l_conn s = None" using assms(1) by (simp_all add: fresh_def blank_def)
  note t = nets_only_idle [OF assms(2) c(1)]
  have "conn_at W_Done t" using t(5) c(2) assms(3) by (simp add: conn_at_Done)
  with t have "calm t" by (simp add: calm_iff)
  with assms(1) t show ?thesis by (simp add: fresh_def blank_def event_set_def)
qed

lemma open_conn_lock:
  assumes "open_conn h p tls ct s = (x, s')"
  shows "nets_only s s'"
    and "x = Inr c \<Longrightarrow> c = length (socks s) \<and> socks s' = socks s @ [fresh_sock]"
    and "x = Inl e \<Longrightarrow> open_conns s' = open_conns s"
proof -
  consider e where "x = Inl e" "s' = s"
    | "open_socket tls (rat_val ct) s = (x, s')"
    using assms by (auto simp: open_conn_def bindP_liftE split: sum.splits)
  then have "nets_only s s' \<and> (x = Inr c \<longrightarrow> c = length (socks s) \<and> socks s' = socks s @ [fresh_sock]) \<and>
    (x = Inl e \<longrightarrow> open_conns s' = open_conns s)"
  proof cases
    case 1
    have "s = s\<lparr>dials := dials s, socks := socks s, ios := ios s\<rparr>" by simp
    then have "nets_only s s" unfolding nets_only_def by blast
    with 1 show ?thesis by simp
  next
    case 2
    obtain ds ks where s': "s' = s\<lparr>dials := ds, socks := ks\<rparr>" using open_socket_frame [OF 2] by blast
    then have "s' = s\<lparr>dials := ds, socks := ks, ios := ios s\<rparr>" by simp
    then have "nets_only s s'" unfolding nets_only_def by blast
    with open_socket_run [where tls = tls and t = "rat_val ct" and s = s] 2 show ?thesis
      by (cases x) (simp_all add: open_conns_def)
  qed
  then show "nets_only s s'" "x = Inr c \<Longrightarrow> c = length (socks s) \<and> socks s' = socks s @ [fresh_sock]"
    "x = Inl e \<Longrightarrow> open_conns s' = open_conns s" by simp_all
qed

lemma touches_conns: "touches c s t \<Longrightarrow> open_conns t \<subseteq> open_conns s"
  using touches_open [of c s t] by (simp add: open_conns_def)

lemma close_conns: "open_conns (upd_sock c (\<lambda>k. k\<lparr>sk_open := False\<rparr>) s) = open_conns s - {c}"
  by (auto simp: open_conns_def conn_open_upd_sock)

text \<open>Authentication: the connection it was given, or an exception and that connection closed.\<close>

lemma maybe_authenticate_run:
  assumes "maybe_authenticate c tok s = (x, s')"
  shows "nets_only s s' \<and> length (socks s') = length (socks s) \<and>
    (case x of Inr c' \<Rightarrow> c' = c \<and> open_conns s' \<subseteq> open_conns s
             | Inl e \<Rightarrow> open_conns s' \<subseteq> open_conns s - {c})"
proof (cases tok)
  case None
  have "s = s\<lparr>dials := dials s, socks := socks s, ios := ios s\<rparr>" by simp
  then have "nets_only s s" unfolding nets_only_def by blast
  with None assms show ?thesis by (auto simp: maybe_authenticate_def)
next
  case (Some t)
  obtain y s1 where y: "authenticate c t s = (y, s1)" by (rule prod.exhaust)
  have touch: "touches c s s1"
    using y unfolding authenticate_def by (auto dest!: sync.authenticate_effect simp del: lit_Cons)
  note n = nets_only_touches [OF touch] and l = touches_attrs(14) [OF touch] and o = touches_conns [OF touch]
  show ?thesis
  proof (cases y)
    case (Inl e)
    with Some assms y have "x = Inl e" "s' = upd_sock c (\<lambda>k. k\<lparr>sk_open := False\<rparr>) s1"
      by (simp_all add: maybe_authenticate_def tryP_def bindP_def conn_close_run)
    with n l o nets_only_trans [OF n nets_only_upd] show ?thesis by (auto simp: close_conns)
  next
    case (Inr u)
    with Some assms y have "x = Inr c" "s' = s1"
      by (simp_all add: maybe_authenticate_def tryP_def bindP_def)
    with n l o show ?thesis by simp
  qed
qed

lemma wp_open:
  assumes s: "fresh s" and Q: "\<And>t. connected t \<Longrightarrow> Q () t" and E: "\<And>e t. fresh t \<Longrightarrow> E e t"
  shows "wp (open_and_authenticate cfg) Q E s"
proof -
  have none: "open_conns s = {}" "l_conn s = None" and calm: "calm s"
    using s blank_closed_sockets [of s] by (auto simp: fresh_def blank_def open_conns_def)
  have auth: "wp (maybe_authenticate c (cf_auth_token cfg)) (\<lambda>c. wp (wr cfg (\<lambda>s. s\<lparr>l_conn := Some c\<rparr>)) Q E) E s1"
    if run: "open_conn h p (cf_ssl_context cfg) (cf_connect_timeout_s cfg) s = (Inr c, s1)" for h p c s1
  proof (rule wp_runI)
    have c: "nets_only s s1" "c = length (socks s)" "socks s1 = socks s @ [fresh_sock]"
      using open_conn_lock [OF run] by simp_all
    have op: "open_conns s1 \<subseteq> {c}"
      using none(1) c(2,3) by (auto simp: open_conns_def conn_open_def nth_append split: if_splits)
    {
      fix e s2
      assume "maybe_authenticate c (cf_auth_token cfg) s1 = (Inl e, s2)"
      from maybe_authenticate_run [OF this] op nets_only_trans [OF c(1), of s2] have
        "nets_only s s2" "open_conns s2 = {}" by auto
      then show "E e s2" using fresh_nets_only [OF s] E by blast
    next
      fix c' s2
      assume "maybe_authenticate c (cf_auth_token cfg) s1 = (Inr c', s2)"
      from maybe_authenticate_run [OF this] op nets_only_trans [OF c(1), of s2] c(2,3)
      have s2: "nets_only s s2" "open_conns s2 \<subseteq> {c}" "c' = c" "c < length (socks s2)" by auto
      note idle = nets_only_idle [OF s2(1) calm]
      show "wp (wr cfg (\<lambda>s. s\<lparr>l_conn := Some c'\<rparr>)) Q E s2"
      proof (rule wp_wr_idle [OF idle(1,2)], rule Q)
        fix r
        let ?t = "s2\<lparr>l_sched := r, l_conn := Some c'\<rparr>"
        have "open_conns ?t = open_conns s2" by (simp add: open_conns_def)
        then have "conn_at W_Done ?t" using s2 by (simp add: conn_at_Done)
        moreover have "threads_ok ?t" using idle(1) by (simp add: threads_ok_def)
        ultimately have "calm ?t" using idle by (simp add: calm_iff joins_ok_def)
        with s idle show "connected ?t" by (simp add: connected_def fresh_def blank_def event_set_def)
      qed
    }
  qed
  show ?thesis
    unfolding open_and_authenticate_def wp_bindP wp_liftE
  proof (cases "pick_server cfg")
    case (Inl e)
    with E [OF s] show "case pick_server cfg of Inl e \<Rightarrow> E e s | Inr a \<Rightarrow> wp (case a of (host, port) \<Rightarrow>
        bindP (open_conn host port (cf_ssl_context cfg) (cf_connect_timeout_s cfg)) (\<lambda>conn.
        bindP (maybe_authenticate conn (cf_auth_token cfg)) (\<lambda>conn. wr cfg (\<lambda>s. s\<lparr>l_conn := Some conn\<rparr>)))) Q E s"
      by simp
  next
    case (Inr hp)
    obtain h p where hp: "hp = (h, p)" by (rule prod.exhaust)
    have "wp (open_conn h p (cf_ssl_context cfg) (cf_connect_timeout_s cfg))
        (\<lambda>c. wp (maybe_authenticate c (cf_auth_token cfg)) (\<lambda>c. wp (wr cfg (\<lambda>s. s\<lparr>l_conn := Some c\<rparr>)) Q E) E) E s"
    proof (rule wp_runI, erule auth)
      fix e t
      assume run: "open_conn h p (cf_ssl_context cfg) (cf_connect_timeout_s cfg) s = (Inl e, t)"
      from open_conn_lock(1,3) [OF run] none(1) have "nets_only s t" "open_conns t = {}" by simp_all
      then show "E e t" using fresh_nets_only [OF s] E by blast
    qed
    with Inr hp show "case pick_server cfg of Inl e \<Rightarrow> E e s | Inr a \<Rightarrow> wp (case a of (host, port) \<Rightarrow>
        bindP (open_conn host port (cf_ssl_context cfg) (cf_connect_timeout_s cfg)) (\<lambda>conn.
        bindP (maybe_authenticate conn (cf_auth_token cfg)) (\<lambda>conn. wr cfg (\<lambda>s. s\<lparr>l_conn := Some conn\<rparr>)))) Q E s"
      by (simp add: wp_bindP_fun)
  qed
qed

section \<open>Acquire, enqueue, wait\<close>

text \<open>A grant is held: token and lease as granted, the connection kept, a renewal thread started.\<close>

definition held :: "lock \<Rightarrow> bool" where
  "held s \<longleftrightarrow> runnable s \<and> apc s = W_Init \<and> l_conn s \<noteq> None \<and> \<not> l_closed s \<and>
    \<not> event_set (l_stop_event s) s \<and>
    (\<exists>tok. l_token s = Some tok \<and> is_field tok) \<and> 1 \<le> l_lease s \<and> l_lease s \<le> MAX_PROTOCOL_SECONDS"

definition closed_blank :: "lock \<Rightarrow> bool" where
  "closed_blank s \<longleftrightarrow> blank s \<and> l_closed s"

lemma start_thread:
  assumes "calm s"
  defines "t \<equiv> s\<lparr>l_renew_thread := Some (length (l_workers s)),
    l_workers := l_workers s @ [\<lparr>w_event = l_stop_event s, w_pc = W_Init\<rparr>]\<rparr>"
  shows "runnable t" "apc t = W_Init"
proof -
  have s: "threads_ok s" "l_renew_thread s = None" "l_io_lock s = None" "joins_ok s" "conn_at W_Done s"
    using assms(1) by (simp_all add: calm_iff)
  show apc: "apc t = W_Init" by (simp add: apc_def t_def)
  have "threads_ok t" using s(1,2) by (auto simp: threads_ok_def t_def nth_append less_Suc_eq)
  moreover have "conn_at W_Init t = conn_at W_Done s" by (simp add: conn_at_def t_def conn_open_def)
  ultimately show "runnable t"
    using s by (simp add: runnable_def core_def core_at_def lock_at_def apc joins_ok_def) (simp add: t_def)
qed

lemma wp_start_renew:
  assumes "calm s"
    and Q: "\<And>t. runnable t \<Longrightarrow> apc t = W_Init \<Longrightarrow> l_conn t = l_conn s \<Longrightarrow> l_token t = l_token s \<Longrightarrow>
      l_lease t = l_lease s \<Longrightarrow> l_closed t = l_closed s \<Longrightarrow>
      event_set (l_stop_event t) t = event_set (l_stop_event s) s \<Longrightarrow> Q () t"
  shows "wp (start_renew cfg) Q E s"
  unfolding start_renew_def wp_bindP
proof (rule wp_rd_calm [OF assms(1)], rule wp_wr_calm)
  fix r
  show "calm (s\<lparr>l_sched := r\<rparr>)" using assms(1) by simp
  fix r'
  have c: "calm (s\<lparr>l_sched := r'\<rparr>)" using assms(1) by simp
  from start_thread [OF this]
  show "Q () (s\<lparr>l_sched := r, l_sched := r',
      l_renew_thread := Some (length (l_workers (s\<lparr>l_sched := r, l_sched := r'\<rparr>))),
      l_workers := l_workers (s\<lparr>l_sched := r, l_sched := r'\<rparr>) @
        [\<lparr>w_event = l_stop_event (s\<lparr>l_sched := r\<rparr>), w_pc = W_Init\<rparr>]\<rparr>)"
    by (intro Q) (simp_all add: event_set_def)
qed

lemma wp_set_held:
  assumes "calm s"
    and Q: "\<And>t. calm t \<Longrightarrow> l_conn t = l_conn s \<Longrightarrow> l_token t = tok \<Longrightarrow> l_lease t = n \<Longrightarrow>
      l_closed t = l_closed s \<Longrightarrow> event_set (l_stop_event t) t = event_set (l_stop_event s) s \<Longrightarrow> Q () t"
  shows "wp (set_held cfg tok n) Q E s"
  unfolding set_held_def wp_bindP
proof (rule wp_wr_calm [OF assms(1)], rule wp_wr_calm)
  fix r
  show "calm (s\<lparr>l_sched := r, l_token := tok\<rparr>)"
    by (rule calm_frame [OF assms(1)]) (simp_all add: conn_open_def)
  fix r'
  have "calm (s\<lparr>l_token := tok, l_sched := r', l_lease := n\<rparr>)"
    by (rule calm_frame [OF assms(1)]) (simp_all add: conn_open_def)
  then show "Q () (s\<lparr>l_sched := r, l_token := tok, l_sched := r', l_lease := n\<rparr>)"
    by (intro Q) (simp_all add: event_set_def)
qed

text \<open>Closing after a failed attempt, when no thread runs.\<close>

lemma wp_close_calm:
  assumes "calm s" "\<not> l_closed s" and Q: "\<And>t. closed_blank t \<Longrightarrow> Q () t"
  shows "wp (close_unlocked cfg) Q E s"
  by (rule wp_close) (use assms in \<open>auto simp: calm_def closed_blank_def\<close>)

lemma proto_touches:
  "proto_acquire cfg c s = (x, t) \<Longrightarrow> touches c s t"
  "proto_enqueue cfg c s = (y, t) \<Longrightarrow> touches c s t"
  "proto_wait cfg c tm s = (x, t) \<Longrightarrow> touches c s t"
  "proto_release cfg c tok s = (z, t) \<Longrightarrow> touches c s t"
  unfolding proto_defs
  by (cases "cf_kind cfg"; auto dest!: sync.acquire_effect sync.enqueue_effect sync.wait_effect
      sync.release_effect simp del: lit_Cons)+

lemma proto_grants:
  "proto_acquire cfg c s = (Inr (tok, n), t) \<Longrightarrow> is_field tok \<and> 1 \<le> n \<and> n \<le> MAX_PROTOCOL_SECONDS"
  "proto_wait cfg c tm s = (Inr (tok, n), t) \<Longrightarrow> is_field tok \<and> 1 \<le> n \<and> n \<le> MAX_PROTOCOL_SECONDS"
  unfolding proto_defs
  by (cases "cf_kind cfg"; auto dest!: sync.acquire_reply sync.wait_reply simp del: lit_Cons)+

text \<open>The statement both grants share: request, remember the grant, start the renewals; close on
  every exception.\<close>

lemma wp_granting:
  assumes s: "calm s" "\<not> l_closed s" "\<not> event_set (l_stop_event s) s" "l_conn s \<noteq> None"
    and touch: "\<And>x t. m s = (x, t) \<Longrightarrow> touches c s t"
    and grant: "\<And>tok n t. m s = (Inr (tok, n), t) \<Longrightarrow> is_field tok \<and> 1 \<le> n \<and> n \<le> MAX_PROTOCOL_SECONDS"
    and Q: "\<And>t. held t \<Longrightarrow> Q True t" "\<And>t. closed_blank t \<Longrightarrow> Q False t"
    and E: "\<And>e t. closed_blank t \<Longrightarrow> E e t"
  shows "wp (bindP m (\<lambda>(tok, lease). set_held cfg (Some tok) lease))
    (\<lambda>_. wp (seqP (start_renew cfg) (retP True)) Q E)
    (\<lambda>e. wp (if isinstance e DflockdTimeoutError then seqP (close_unlocked cfg) (retP False)
        else seqP (close_unlocked cfg) (raiseP e)) Q E) s"
  unfolding wp_bindP
proof (rule wp_runI)
  fix e t
  assume t: "m s = (Inl e, t)"
  have "calm t" "\<not> l_closed t" using calm_touches [OF s(1) touch [OF t]] touches_attrs [OF touch [OF t]] s(2)
    by simp_all
  then show "wp (if isinstance e DflockdTimeoutError then seqP (close_unlocked cfg) (retP False)
      else seqP (close_unlocked cfg) (raiseP e)) Q E t"
    by (auto simp: wp_bindP wp_retP wp_raiseP intro!: wp_close_calm Q E)
next
  fix g t
  assume g: "m s = (Inr g, t)"
  obtain tok n where gn: "g = (tok, n)" by (rule prod.exhaust)
  note t = calm_touches [OF s(1) touch [OF g]] touches_attrs [OF touch [OF g]] grant [OF g [unfolded gn]]
  show "wp (case g of (tok, lease) \<Rightarrow> set_held cfg (Some tok) lease)
      (\<lambda>_. wp (start_renew cfg) (\<lambda>_. wp (retP True) Q E) E)
      (\<lambda>e. wp (if isinstance e DflockdTimeoutError then seqP (close_unlocked cfg) (retP False)
        else seqP (close_unlocked cfg) (raiseP e)) Q E) t"
    unfolding gn prod.case
  proof (rule wp_set_held [OF t(1)])
    fix u
    assume u: "calm u" "l_conn u = l_conn t" "l_token u = Some tok" "l_lease u = n"
      "l_closed u = l_closed t" "event_set (l_stop_event u) u = event_set (l_stop_event t) t"
    have ev: "event_set (l_stop_event t) t = event_set (l_stop_event s) s"
      using touches_attrs [OF touch [OF g]] by (simp add: event_set_def)
    show "wp (start_renew cfg) (\<lambda>_. wp (retP True) Q E) E u"
      unfolding wp_retP
      by (rule wp_start_renew [OF u(1)], rule Q(1)) (use u t s ev in \<open>simp add: held_def\<close>)
  qed
qed

lemma wp_require_conn:
  assumes "calm s" "l_conn s = Some c" and Q: "\<And>r. Q c (s\<lparr>l_sched := r\<rparr>)"
  shows "wp (require_conn cfg) Q E s"
  unfolding require_conn_def wp_bindP
  by (rule wp_rd_calm [OF assms(1)]) (simp add: assms(2) wp_retP Q)

lemma connected_sched: "connected s \<Longrightarrow> connected (s\<lparr>l_sched := r\<rparr>)"
  by (simp add: connected_def)

lemma wp_invoke_acquire:
  assumes s: "connected s"
    and Q: "\<And>t. held t \<Longrightarrow> Q True t" "\<And>t. closed_blank t \<Longrightarrow> Q False t"
    and E: "\<And>e t. closed_blank t \<Longrightarrow> E e t"
  shows "wp (invoke_acquire cfg) Q E s"
proof -
  obtain c where c: "l_conn s = Some c" "calm s" using s by (auto simp: connected_def)
  show ?thesis
    unfolding invoke_acquire_def wp_tryP wp_bindP_fun [of "require_conn cfg"]
  proof (rule wp_require_conn [OF c(2,1)])
    fix r
    have r: "connected (s\<lparr>l_sched := r\<rparr>)" using s by (rule connected_sched)
    show "wp (bindP (proto_acquire cfg c) (\<lambda>(tok, lease). set_held cfg (Some tok) lease))
        (\<lambda>a. wp (seqP (start_renew cfg) (retP True)) Q E)
        (\<lambda>e. wp (if isinstance e DflockdTimeoutError then seqP (close_unlocked cfg) (retP False)
          else seqP (close_unlocked cfg) (raiseP e)) Q E) (s\<lparr>l_sched := r\<rparr>)"
      by (rule wp_granting [where c = c])
        (use r Q E in \<open>auto simp: connected_def dest: proto_touches(1) proto_grants(1)\<close>)
  qed
qed

text \<open>\<open>acquire\<close>: what \<open>True\<close>, \<open>False\<close> and an exception mean.\<close>

lemma wp_acquire:
  assumes s: "rest s"
    and Q: "\<And>t. held t \<Longrightarrow> Q True t" "\<And>t. closed_blank t \<Longrightarrow> Q False t"
    and E: "\<And>e t. blank t \<Longrightarrow> E e t"
  shows "wp (acquire_unlocked cfg) Q E s"
  unfolding acquire_unlocked_def wp_bindP_fun
  by (rule wp_reset [OF s], erule wp_open, erule wp_invoke_acquire)
    (use Q E in \<open>auto simp: fresh_def closed_blank_def\<close>)

lemma wp_invoke_enqueue:
  assumes s: "connected s"
    and Q: "\<And>t. held t \<Longrightarrow> Q (lit ''acquired'') t" "\<And>t. connected t \<Longrightarrow> Q (lit ''queued'') t"
    and E: "\<And>e t. closed_blank t \<Longrightarrow> E e t"
  shows "wp (invoke_enqueue cfg) Q E s"
proof -
  obtain c where c: "l_conn s = Some c" "calm s" using s by (auto simp: connected_def)
  show ?thesis
    unfolding invoke_enqueue_def wp_tryP wp_bindP_fun [of "require_conn cfg"]
  proof (rule wp_require_conn [OF c(2,1)], rule wp_runI)
    fix r e t
    assume t: "proto_enqueue cfg c (s\<lparr>l_sched := r\<rparr>) = (Inl e, t)"
    note touch = proto_touches(2) [OF t]
    have "calm t" "\<not> l_closed t"
      using calm_touches [OF _ touch] touches_attrs(6) [OF touch] s by (simp_all add: connected_def)
    then show "wp (seqP (close_unlocked cfg) (raiseP e)) Q E t"
      unfolding wp_bindP wp_raiseP by (rule wp_close_calm) (rule E)
  next
    fix r g t
    assume t: "proto_enqueue cfg c (s\<lparr>l_sched := r\<rparr>) = (Inr g, t)"
    obtain status tok n where g: "g = (status, tok, n)" by (cases g)
    note touch = proto_touches(2) [OF t]
    have conn: "connected t"
      using calm_touches [OF _ touch] touches_attrs [OF touch] s by (simp add: connected_def event_set_def)
    have "status = lit ''queued'' \<and> tok = None \<and> n = None \<or>
      (\<exists>t k. status = lit ''acquired'' \<and> tok = Some t \<and> n = Some k \<and> is_field t \<and> 1 \<le> k \<and> k \<le> MAX_PROTOCOL_SECONDS)"
      using t [unfolded g] unfolding proto_defs
      by (cases "cf_kind cfg") (auto dest!: sync.enqueue_reply simp del: lit_Cons)
    then show "wp (case g of (status, tok, lease) \<Rightarrow> handle_enqueue_status cfg status tok lease) Q E t"
    proof (elim disjE exE conjE)
      assume "status = lit ''queued''"
      then show ?thesis using Q(2) [OF conn] by (simp add: g handle_enqueue_status_def wp_simps)
    next
      fix tk k
      assume a: "status = lit ''acquired''" "tok = Some tk" "n = Some k" "is_field tk" "1 \<le> k"
        "k \<le> MAX_PROTOCOL_SECONDS"
      have "wp (set_held cfg (Some tk) k) (\<lambda>_. wp (start_renew cfg) (\<lambda>_. Q (lit ''acquired'')) E) E t"
      proof (rule wp_set_held)
        show "calm t" using conn by (simp add: connected_def)
        fix u
        assume u: "calm u" "l_conn u = l_conn t" "l_token u = Some tk" "l_lease u = k"
          "l_closed u = l_closed t" "event_set (l_stop_event u) u = event_set (l_stop_event t) t"
        show "wp (start_renew cfg) (\<lambda>_. Q (lit ''acquired'')) E u"
          by (rule wp_start_renew [OF u(1)], rule Q(1)) (use u conn a in \<open>simp add: held_def connected_def\<close>)
      qed
      with a g show ?thesis
        by (simp add: handle_enqueue_status_def wp_bindP_fun wp_whenP wp_retP_fun del: lit_Cons)
    qed
  qed
qed

lemma wp_enqueue:
  assumes s: "rest s"
    and Q: "\<And>t. held t \<Longrightarrow> Q (lit ''acquired'') t" "\<And>t. connected t \<Longrightarrow> Q (lit ''queued'') t"
    and E: "\<And>e t. blank t \<Longrightarrow> E e t"
  shows "wp (enqueue_unlocked cfg) Q E s"
  unfolding enqueue_unlocked_def wp_bindP_fun
  by (rule wp_reset [OF s], erule wp_open, erule wp_invoke_enqueue)
    (use Q E in \<open>auto simp: fresh_def closed_blank_def simp del: lit_Cons\<close>)

section \<open>Where the methods end: the states between calls\<close>

lemma held_rest: "held s \<Longrightarrow> rest s"
  by (auto simp: held_def rest_def held_ok_def held_at_def)

lemma connected_rest: "connected s \<Longrightarrow> rest s"
  by (auto simp: connected_def rest_def held_ok_def held_at_def calm_def)

lemma blank_rest: "blank s \<Longrightarrow> rest s"
  by (auto simp: blank_def rest_def held_ok_def held_at_def calm_def)

lemma closed_blank_rest: "closed_blank s \<Longrightarrow> rest s"
  by (simp add: closed_blank_def blank_rest)

lemmas rest_intros = held_rest connected_rest blank_rest closed_blank_rest

lemma rest_drift: "rest s \<Longrightarrow> drift s t \<Longrightarrow> runnable t \<Longrightarrow> rest t"
proof -
  assume s: "rest s" and t: "drift s t" "runnable t"
  have h: "held_ok t" using driftD(9) [OF t(1)] s by (simp add: rest_def)
  have "blank t" if "l_closed t"
  proof -
    have b: "blank s" using s that driftD(1) [OF t(1)] by (simp add: rest_def)
    show ?thesis
      by (rule blank_close [of s]) (use s b t that driftD(1) [OF t(1)] in \<open>simp_all add: rest_def blank_def\<close>)
  qed
  with h t(2) show ?thesis by (simp add: rest_def)
qed

text \<open>A connection without a grant: no thread runs, so the request may be sent.\<close>

lemma waiting_calm:
  assumes "rest s" "l_token s = None" "l_conn s \<noteq> None"
  shows "connected s"
  using assms by (auto simp: rest_def connected_def held_ok_def held_at_def calm_def blank_def)

lemma wp_invoke_wait:
  assumes s: "rest s" "l_token s = None"
    and Q: "\<And>t. held t \<Longrightarrow> l_conn s \<noteq> None \<Longrightarrow> Q True t"
      "\<And>t. closed_blank t \<Longrightarrow> l_conn s \<noteq> None \<Longrightarrow> Q False t"
    and none: "\<And>t. l_conn t = None \<Longrightarrow> rest t \<Longrightarrow> l_token t = None \<Longrightarrow>
      E (Exn RuntimeError [Txt (lit ''not connected; call enqueue() first'')]) t"
    and E: "\<And>e t. closed_blank t \<Longrightarrow> l_conn s \<noteq> None \<Longrightarrow> E e t"
  shows "wp (invoke_wait cfg tm) Q E s"
proof (cases "l_conn s")
  case None
  show ?thesis
    unfolding invoke_wait_def require_conn_for_wait_def wp_bindP_fun
  proof (rule wp_rd)
    show "runnable s" using s by (simp add: rest_def)
    fix t
    assume t: "drift s t" "runnable t"
    have "l_conn t = None" "l_token t = None" using driftD(5,6) [OF t(1)] None s(2) by auto
    with none [of t] rest_drift [OF s(1) t]
    show "wp (case l_conn t of None \<Rightarrow> raiseP (Exn RuntimeError [Txt (lit ''not connected; call enqueue() first'')])
      | Some c \<Rightarrow> retP c)
      (\<lambda>conn. wp (tryP (bindP (proto_wait cfg conn tm) (\<lambda>(tok, lease). set_held cfg (Some tok) lease))
          (\<lambda>e. if isinstance e DflockdTimeoutError then seqP (close_unlocked cfg) (retP False)
            else seqP (close_unlocked cfg) (raiseP e))
          (\<lambda>_. seqP (start_renew cfg) (retP True))) Q E) E t"
      by (simp add: wp_raiseP)
  qed
next
  case (Some c)
  have conn: "connected s" using waiting_calm s Some by simp
  then have c: "calm s" by (simp add: connected_def)
  show ?thesis
    unfolding invoke_wait_def require_conn_for_wait_def wp_bindP_fun [of "bindP _ _"] wp_bindP_fun [of "rd _ _"]
  proof (rule wp_rd_calm [OF c])
    fix r
    have r: "connected (s\<lparr>l_sched := r\<rparr>)" using conn by (rule connected_sched)
    have "wp (bindP (proto_wait cfg c tm) (\<lambda>(tok, lease). set_held cfg (Some tok) lease))
        (\<lambda>a. wp (seqP (start_renew cfg) (retP True)) Q E)
        (\<lambda>e. wp (if isinstance e DflockdTimeoutError then seqP (close_unlocked cfg) (retP False)
          else seqP (close_unlocked cfg) (raiseP e)) Q E) (s\<lparr>l_sched := r\<rparr>)"
      by (rule wp_granting [where c = c])
        (use r Q E Some in \<open>auto simp: connected_def dest: proto_touches(3) proto_grants(2)\<close>)
    then show "wp (case l_conn (s\<lparr>l_sched := r\<rparr>) of
        None \<Rightarrow> raiseP (Exn RuntimeError [Txt (lit ''not connected; call enqueue() first'')]) | Some c \<Rightarrow> retP c)
      (\<lambda>conn. wp (tryP (bindP (proto_wait cfg conn tm) (\<lambda>(tok, lease). set_held cfg (Some tok) lease))
          (\<lambda>e. if isinstance e DflockdTimeoutError then seqP (close_unlocked cfg) (retP False)
            else seqP (close_unlocked cfg) (raiseP e))
          (\<lambda>_. seqP (start_renew cfg) (retP True))) Q E) E (s\<lparr>l_sched := r\<rparr>)"
      by (simp add: Some wp_retP wp_tryP)
  qed
qed

lemma wp_wait:
  assumes s: "rest s"
    and fast: "\<And>t. drift s t \<Longrightarrow> rest t \<Longrightarrow> l_token t \<noteq> None \<Longrightarrow> Q True t"
    and Q: "\<And>t. held t \<Longrightarrow> lphase s = Queued \<Longrightarrow> Q True t" "\<And>t. closed_blank t \<Longrightarrow> lphase s = Queued \<Longrightarrow> Q False t"
    and none: "\<And>t. l_conn t = None \<Longrightarrow> rest t \<Longrightarrow> l_token t = None \<Longrightarrow>
      E (Exn RuntimeError [Txt (lit ''not connected; call enqueue() first'')]) t"
    and E: "\<And>e t. closed_blank t \<Longrightarrow> lphase s = Queued \<Longrightarrow> E e t"
  shows "wp (wait_unlocked cfg tm) Q E s"
proof -
  have run: "runnable s" using s by (simp add: rest_def)
  have turn: "wp (if l_token t \<noteq> None then retP True
      else invoke_wait cfg (if \<not> is_None tm then tm else cf_acquire_timeout_s cfg)) Q E t"
    if t: "drift s t" "rest t" and queued: "l_token t = None \<Longrightarrow> l_conn t \<noteq> None \<Longrightarrow> lphase s = Queued" for t
  proof (cases "l_token t")
    case None
    then have "wp (invoke_wait cfg (if \<not> is_None tm then tm else cf_acquire_timeout_s cfg)) Q E t"
      by (intro wp_invoke_wait [OF t(2) None] Q none E queued)
    with None show ?thesis by (simp only: simp_thms if_False)
  next
    case (Some tok)
    with fast [OF t] show ?thesis by (simp add: wp_retP)
  qed
  show ?thesis
    unfolding wait_unlocked_def wp_bindP_fun
  proof (cases "l_renew_thread s")
    case None
    then have c: "calm s" using run by (simp add: calm_def)
    show "wp (rd cfg l_token) (\<lambda>token. wp (if token \<noteq> None then retP True
      else invoke_wait cfg (if \<not> is_None tm then tm else cf_acquire_timeout_s cfg)) Q E) E s"
    proof (rule wp_rd_calm [OF c], rule turn)
      fix r
      show d: "drift s (s\<lparr>l_sched := r\<rparr>)" using run by (intro move_drift sched_safe) (simp add: runnable_def)
      show "rest (s\<lparr>l_sched := r\<rparr>)"
        by (rule rest_drift [OF s d]) (use calm_sched [OF c] in \<open>simp add: calm_def\<close>)
    qed (auto simp: lphase_def)
  next
    case (Some th)
    show "wp (rd cfg l_token) (\<lambda>token. wp (if token \<noteq> None then retP True
      else invoke_wait cfg (if \<not> is_None tm then tm else cf_acquire_timeout_s cfg)) Q E) E s"
    proof (rule wp_rd [OF run])
      fix t
      assume t: "drift s t" "runnable t"
      have r: "rest t" by (rule rest_drift [OF s t])
      have "l_conn t = None" if "l_token t = None"
        using r that Some driftD(4) [OF t(1)] by (auto simp: rest_def held_ok_def held_at_def)
      then show "wp (if l_token t \<noteq> None then retP True
        else invoke_wait cfg (if \<not> is_None tm then tm else cf_acquire_timeout_s cfg)) Q E t"
        by (intro turn [OF t(1) r]) simp
    qed
  qed
qed

section \<open>Release\<close>

lemma wp_rd_idle:
  assumes "threads_ok s" "l_renew_thread s = None" and Q: "\<And>r. Q (f (s\<lparr>l_sched := r\<rparr>)) (s\<lparr>l_sched := r\<rparr>)"
  shows "wp (rd cfg f) Q E s"
proof -
  have "apc s = W_Done" using assms(2) by (simp add: apc_def)
  from burst_idle [OF assms(1) this] Q show ?thesis
    by (simp add: rd_def interfere_def wp_bindP wp_modP wp_getP)
qed

text \<open>\<open>sent s t\<close>: at most the connection's socket, the log and the owner of \<open>_io_lock\<close> differ.\<close>

definition sent :: "lock \<Rightarrow> lock \<Rightarrow> bool" where
  "sent s t \<longleftrightarrow>
    l_conn t = l_conn s \<and> l_token t = l_token s \<and> l_lease t = l_lease s \<and>
    l_renew_thread t = l_renew_thread s \<and> l_stop_event t = l_stop_event s \<and> l_closed t = l_closed s \<and>
    l_events t = l_events s \<and> l_workers t = l_workers s \<and> l_joins t = l_joins s \<and>
    length (socks t) = length (socks s) \<and> {d. conn_open t d} \<subseteq> {d. conn_open s d}"

lemma sent_calm: "calm s \<Longrightarrow> sent s t \<Longrightarrow> calm (t\<lparr>l_io_lock := None\<rparr>)"
  by (rule calm_frame [of s]) (simp_all add: sent_def calm_iff)

lemma sent_held: "sent s t \<Longrightarrow> held_ok (t\<lparr>l_io_lock := None\<rparr>) = held_ok s"
  by (simp add: held_ok_def held_at_def apc_def event_set_def sent_def cong: option.case_cong)

lemma sent_refl: "sent s (s\<lparr>l_sched := r, l_io_lock := x\<rparr>)"
  by (simp add: sent_def)

lemma sent_touches: "sent s u \<Longrightarrow> touches d u t \<Longrightarrow> sent s t"
  using touches_attrs [of d u t] touches_open [of d u t] by (auto simp: sent_def)

lemma log_open [simp]: "conn_open (s\<lparr>l_log := l\<rparr>) c = conn_open s c"
  by (simp add: conn_open_def)

lemma proto_release_interrupted:
  "proto_release cfg c tok s = (Inl e, t) \<Longrightarrow> \<not> isinstance e BuiltinException \<Longrightarrow> \<not> conn_open t c"
  by (cases "cf_kind cfg") (auto simp: proto_defs dest: sync.release_interrupted simp del: lit_Cons)

lemma wp_send_release:
  assumes s: "calm s" and u: "u = s\<lparr>l_sched := r, l_io_lock := Some 0\<rparr>"
    and Q: "\<And>b t. sent s t \<Longrightarrow> (b \<Longrightarrow> l_token s \<noteq> None \<and> l_conn s \<noteq> None) \<Longrightarrow> Q b t"
    and E: "\<And>e t. sent s t \<Longrightarrow> \<not> isinstance e BuiltinException \<Longrightarrow> l_token s \<noteq> None \<Longrightarrow>
      (\<exists>c. l_conn s = Some c \<and> \<not> conn_open t c) \<Longrightarrow> E e t"
  shows "wp (send_release_quietly cfg) Q E u"
proof -
  have idle: "threads_ok (u\<lparr>l_sched := r'\<rparr>)" "l_renew_thread (u\<lparr>l_sched := r'\<rparr>) = None" for r'
    using s by (auto simp: calm_iff u threads_ok_def)
  have same: "u\<lparr>l_sched := r'\<rparr> = s\<lparr>l_sched := r', l_io_lock := Some 0\<rparr>" for r' by (simp add: u)
  have none: "Q False (u\<lparr>l_sched := r'\<rparr>)" for r'
    unfolding same by (rule Q [OF sent_refl]) simp
  have req: "wp (safe_release cfg c tok) Q E (u\<lparr>l_sched := r'\<rparr>)"
    if "l_conn s = Some c" "l_token s = Some tok" for c tok r'
    unfolding safe_release_def wp_tryP
  proof (rule wp_runI)
    fix e t
    assume run: "proto_release cfg c tok (u\<lparr>l_sched := r'\<rparr>) = (Inl e, t)"
    from sent_touches [OF sent_refl proto_touches(4) [OF run [unfolded same]]] have t: "sent s t" .
    have dead: "\<not> conn_open t c" if "\<not> isinstance e BuiltinException"
      by (rule proto_release_interrupted [OF run that])
    from t have "sent s (t\<lparr>l_log := l\<rparr>)" for l by (simp add: sent_def)
    with t that dead show "wp (if isinstance e BuiltinException
        then seqP (modP (\<lambda>s. s\<lparr>l_log := l_log s @ [ReleaseFailed (cf_key cfg)]\<rparr>)) (retP False) else raiseP e) Q E t"
      by (simp add: wp_simps Q E)
  next
    fix a t
    assume "proto_release cfg c tok (u\<lparr>l_sched := r'\<rparr>) = (Inr a, t)"
    from sent_touches [OF sent_refl proto_touches(4) [OF this [unfolded same]]] have "sent s t" .
    with that show "wp (retP True) Q E t" by (simp add: wp_retP Q)
  qed
  have idle_u: "threads_ok u" "l_renew_thread u = None" using s by (auto simp: calm_iff u threads_ok_def)
  show ?thesis
    unfolding send_release_quietly_def wp_bindP
  proof (rule wp_rd_idle [OF idle_u], rule wp_rd_idle)
    fix r' r''
    show "threads_ok (u\<lparr>l_sched := r'\<rparr>)" "l_renew_thread (u\<lparr>l_sched := r'\<rparr>) = None" by (rule idle)+
    have "l_conn u = l_conn s" "l_token u = l_token s" by (simp_all add: u)
    with none [of r''] req [of _ _ r''] show "wp (case (l_conn (u\<lparr>l_sched := r'\<rparr>), l_token (u\<lparr>l_sched := r', l_sched := r''\<rparr>)) of
        (Some c, Some t) \<Rightarrow> safe_release cfg c t | _ \<Rightarrow> retP False) Q E (u\<lparr>l_sched := r', l_sched := r''\<rparr>)"
      by (auto simp: wp_retP split: option.split)
  qed
qed

lemma wp_with_io_calm:
  assumes s: "calm s"
    and m: "\<And>r. wp m (\<lambda>a t. Q a (t\<lparr>l_io_lock := None\<rparr>)) (\<lambda>e t. E e (t\<lparr>l_io_lock := None\<rparr>))
      (s\<lparr>l_sched := r, l_io_lock := Some 0\<rparr>)"
  shows "wp (with_io_lock cfg m) Q E s"
proof -
  have free: "l_io_lock s = None" using s by (simp add: calm_iff)
  then have "wait_io cfg (n + 8) (s\<lparr>l_sched := r\<rparr>) = s\<lparr>l_sched := r\<rparr>" for n r
    by (simp add: numeral_eq_Suc)
  then show ?thesis
    using m by (simp add: with_io_lock_def interfere_def wp_bindP_fun wp_modP_fun wp_raiseP_fun wp_retP_fun
        wp_tryP wp_modP calm_burst [OF s] free)
qed

lemma wp_release:
  assumes s: "rest s"
    and Q: "\<And>b t. closed_blank t \<Longrightarrow> (b \<Longrightarrow> l_token s \<noteq> None) \<Longrightarrow> Q b t"
    and E: "\<And>e t. \<not> isinstance e BuiltinException \<Longrightarrow> calm t \<Longrightarrow> rest t \<Longrightarrow>
      lphase t = lphase s \<Longrightarrow> l_token t = l_token s \<Longrightarrow> l_token s \<noteq> None \<Longrightarrow>
      (\<exists>c. l_conn t = Some c \<and> \<not> conn_open t c) \<Longrightarrow> E e t"
  shows "wp (release_unlocked cfg) Q E s"
  unfolding release_unlocked_def wp_bindP
proof (rule wp_stop_renew)
  show "runnable s" using s by (simp add: rest_def)
  fix t
  assume t: "calm t" "l_closed t = l_closed s" "l_conn t = l_conn s \<or> l_conn t = None"
    "l_token t = l_token s \<or> l_token t = None" "held_ok s \<longrightarrow> held_ok t"
    "held_ok s \<longrightarrow> lphase t = lphase s \<or> lphase t = Idle"
  have h: "held_ok t" using s t(5) by (simp add: rest_def)
  have bt: "l_closed t \<longrightarrow> blank t"
    using s t(1-5) h by (auto simp: rest_def blank_def held_ok_def held_at_def)
  have after: "calm v" "l_closed v = l_closed t" "held_ok v" "l_closed v \<longrightarrow> blank v" if "v = u\<lparr>l_io_lock := None\<rparr>" "sent t u" for u v
    using sent_calm [OF t(1) that(2)] sent_held [OF that(2)] that h bt by (auto simp: sent_def blank_def)
  show "wp (with_io_lock cfg (send_release_quietly cfg))
      (\<lambda>b. wp (close_unlocked cfg) (\<lambda>_. wp (retP b) Q E) E) E t"
  proof (rule wp_with_io_calm [OF t(1)], rule wp_send_release [OF t(1) refl])
    fix b u
    assume u: "sent t u" and b: "b \<Longrightarrow> l_token t \<noteq> None \<and> l_conn t \<noteq> None"
    note v = after [OF refl u]
    have b': "b \<Longrightarrow> l_token s \<noteq> None" using b t(4) by auto
    show "wp (close_unlocked cfg) (\<lambda>_. wp (retP b) Q E) E (u\<lparr>l_io_lock := None\<rparr>)"
      unfolding wp_retP
    proof (rule wp_close, goal_cases)
      case 1
      then show ?case using v(1) by (simp add: calm_def)
    next
      case (2 x)
      from blank_close [OF v(1,3,4) 2(2,3,1)] driftD(1) [OF 2(2)] 2(1) b' show ?case
        by (intro Q) (simp_all add: closed_blank_def)
    next
      case (3 x)
      with b' show ?case by (intro Q) (simp_all add: closed_blank_def)
    qed
  next
    fix e u
    assume u: "sent t u" and e: "\<not> isinstance e BuiltinException" "l_token t \<noteq> None"
      and dead: "\<exists>c. l_conn t = Some c \<and> \<not> conn_open u c"
    have dead': "\<exists>c. l_conn (u\<lparr>l_io_lock := None\<rparr>) = Some c \<and> \<not> conn_open (u\<lparr>l_io_lock := None\<rparr>) c"
      using dead u by (simp add: sent_def conn_open_def)
    note v = after [OF refl u]
    have tok: "l_token u = l_token s" "l_token s \<noteq> None" using u e(2) t(4) by (auto simp: sent_def)
    then have "lphase (u\<lparr>l_io_lock := None\<rparr>) = lphase s" by (auto simp: lphase_def)
    then show "E e (u\<lparr>l_io_lock := None\<rparr>)"
      using tok dead' by (intro E [OF e(1) v(1)]) (use v s in \<open>simp_all add: rest_def calm_def\<close>)
  qed
qed

section \<open>The context manager, and the invariant between calls\<close>

lemma wp_enter:
  assumes s: "rest s" and Q: "\<And>t. held t \<Longrightarrow> Q () t" and E: "\<And>e t. blank t \<Longrightarrow> E e t"
  shows "wp (enter cfg) Q E s"
  unfolding enter_def wp_bindP
  by (rule wp_acquire [OF s]) (auto simp: wp_simps closed_blank_def intro: Q E)

lemma wp_exit:
  assumes s: "rest s" and Q: "\<And>t. closed_blank t \<Longrightarrow> Q () t"
    and E: "\<And>e t. \<not> isinstance e BuiltinException \<Longrightarrow> calm t \<Longrightarrow> rest t \<Longrightarrow>
      lphase t = lphase s \<Longrightarrow> l_token t = l_token s \<Longrightarrow> l_token s \<noteq> None \<Longrightarrow>
      (\<exists>c. l_conn t = Some c \<and> \<not> conn_open t c) \<Longrightarrow> E e t"
  shows "wp (exit cfg) Q E s"
  unfolding exit_def wp_tryP
  by (rule wp_release [OF s]) (auto simp: wp_simps intro: Q E)

lemma wp_close_rest:
  assumes s: "rest s" and Q: "\<And>t. closed_blank t \<Longrightarrow> Q () t"
  shows "wp (close_unlocked cfg) Q E s"
proof (rule wp_close)
  show "runnable s" using s by (simp add: rest_def)
  fix t
  assume t: "l_closed s" "drift s t" "runnable t"
  have "rest t" by (rule rest_drift [OF s t(2,3)])
  with t driftD(1) [OF t(2)] show "Q () t" by (intro Q) (simp add: rest_def closed_blank_def)
qed (simp add: Q closed_blank_def)

lemma rest_worker: "rest s \<Longrightarrow> rest (worker_step cfg w s)"
proof -
  assume s: "rest s"
  then have move: "safe_move s (worker_step cfg w s)" by (intro step_safe) (simp add: rest_def runnable_def)
  show ?thesis by (rule rest_drift [OF s move_drift [OF move] runnable_move [OF _ move]])
    (use s in \<open>simp add: rest_def\<close>)
qed

lemma rest_api: "rest s \<Longrightarrow> rest (run_api cfg a s)"
proof (cases a)
  case Acquire
  assume s: "rest s"
  show ?thesis unfolding Acquire run_api_def api.case
    by (rule wp_snd, rule wp_acquire [OF s]) (auto intro: rest_intros)
next
  case Enqueue
  assume s: "rest s"
  show ?thesis unfolding Enqueue run_api_def api.case
    by (rule wp_snd, rule wp_enqueue [OF s]) (auto intro: rest_intros)
next
  case (Wait tm)
  assume s: "rest s"
  show ?thesis unfolding Wait run_api_def api.case
    by (rule wp_snd, rule wp_wait [OF s]) (auto intro: rest_intros)
next
  case Release
  assume s: "rest s"
  show ?thesis unfolding Release run_api_def api.case
    by (rule wp_snd, rule wp_release [OF s]) (auto intro: rest_intros)
next
  case Close
  assume s: "rest s"
  show ?thesis unfolding Close run_api_def api.case
    by (rule wp_snd, rule wp_close_rest [OF s]) (auto intro: rest_intros)
next
  case Enter
  assume s: "rest s"
  show ?thesis unfolding Enter run_api_def api.case
    by (rule wp_snd, rule wp_enter [OF s]) (auto intro: rest_intros)
next
  case Exit
  assume s: "rest s"
  show ?thesis unfolding Exit run_api_def api.case
    by (rule wp_snd, rule wp_exit [OF s]) (auto intro: rest_intros)
qed

lemma rest_init: "set joins \<subseteq> {True} \<Longrightarrow> rest (init_lock ios0 dials0 sched joins)"
  by (simp add: rest_def runnable_def core_def core_at_def threads_ok_def lock_at_def conn_at_def apc_def
      joins_ok_def conn_open_def held_ok_def held_at_def init_lock_def event_set_def)

theorem reachable_rest: "sync_reachable cfg s \<Longrightarrow> rest s"
proof (induction rule: sync_reachable.induct)
  case (step s s')
  from step.hyps(2) step.IH show ?case by cases (auto intro: rest_api rest_worker)
qed (rule rest_init)

end
