(* ===== verification/Sync_Properties.thy ===== *)
theory Sync_Properties
  imports Sync_Lifecycle Transport_Properties Protocol_Properties
begin

text \<open>
  The properties of the sync lock and semaphore objects: what holds in every reachable state, what
  each public method leaves behind, how the renewal thread behaves, and one acquire followed from the
  constructor to the granted lock.  A state is reachable (\<open>sync_reachable\<close>) when no \<open>join(timeout=5)\<close> on the way was cut
  off by its timeout; what holds without this is in \<open>Sync_Mutex\<close> and \<open>Sync_Wire\<close>.
\<close>

section \<open>Runs without interference\<close>

text \<open>With an empty schedule no thread moves between the caller's steps.\<close>

lemma quiet_runs:
  "l_sched s = [] \<Longrightarrow> interfere cfg s = (Inr (), s)"
  "l_sched s = [] \<Longrightarrow> rd cfg f s = (Inr (f s), s)"
  "l_sched s = [] \<Longrightarrow> wr cfg g s = (Inr (), g s)"
  by (simp_all add: rd_def wr_def interfere_def bindP_def burst_def)

text \<open>Nor does one that has ended: \<open>idle\<close> objects are undisturbed under every schedule.\<close>

definition idle :: "lock \<Rightarrow> bool" where
  "idle s \<longleftrightarrow> (\<forall>k \<in> set (l_workers s). w_pc k = W_Done)"

lemma idle_calm: "calm s \<Longrightarrow> idle s"
  by (auto simp: calm_iff threads_ok_def idle_def in_set_conv_nth)

lemma idle_burst: "idle s \<Longrightarrow> burst cfg s = s\<lparr>l_sched := tl (l_sched s)\<rparr>"
proof -
  assume s: "idle s"
  have "worker_step cfg w t = t" if "l_workers t = l_workers s" for w t
    using s that by (auto simp: worker_step_def idle_def Let_def)
  then have "fold (worker_step cfg) ws (s\<lparr>l_sched := r\<rparr>) = s\<lparr>l_sched := r\<rparr>" for ws r
    by (induction ws) simp_all
  then show ?thesis by (cases "l_sched s") (simp_all add: burst_def)
qed

lemma idle_runs:
  "idle s \<Longrightarrow> rd cfg f s = (Inr (f (s\<lparr>l_sched := tl (l_sched s)\<rparr>)), s\<lparr>l_sched := tl (l_sched s)\<rparr>)"
  "idle s \<Longrightarrow> wr cfg g s = (Inr (), g (s\<lparr>l_sched := tl (l_sched s)\<rparr>))"
  by (simp_all add: rd_def wr_def interfere_def bindP_def idle_burst)

lemmas idle_simps = idle_runs [unfolded idle_def]

text \<open>Re-arming an object that holds nothing.\<close>

lemma quiet_reset:
  assumes "blank s"
  obtains t where "reset_for_new_attempt cfg s = (Inr (), t)" "fresh t" "l_sched s = [] \<longrightarrow> l_sched t = []"
    "socks t = socks s" "ios t = ios s" "dials t = dials s"
proof -
  have b: "l_renew_thread s = None" "l_conn s = None" "\<forall>k \<in> set (l_workers s). w_pc k = W_Done"
    using assms idle_calm [of s] by (simp_all add: blank_def calm_def idle_def)
  obtain t where t: "reset_for_new_attempt cfg s = (Inr (), t)" "l_sched s = [] \<longrightarrow> l_sched t = []"
    "socks t = socks s" "ios t = ios s" "dials t = dials s"
    using b
    by (cases "l_closed s") (simp_all add: reset_for_new_attempt_def stop_renew_def close_unlocked_def
        begin_close_def set_stop_event_def tear_down_conn_and_thread_def shutdown_and_close_conn_def
        join_renew_thread_def clear_held_state_def idle_simps bindP_def)
  have "wp (reset_for_new_attempt cfg) (\<lambda>_. fresh) (\<lambda>_ _. False) s"
    by (rule wp_reset [OF blank_rest [OF assms(1)]])
  from wp_Inr [OF this t(1)] t that show thesis by blast
qed

lemma connect_timeout_fits:
  assumes "validate_connect_timeout_s v = Inr ()"
  shows "0 \<le> rat_val v" "timeout_fits (rat_val v)"
proof -
  have v: "0 < rat_val v" "rat_val v \<le> 9223372036"
    using assms by (auto simp: validate_connect_timeout_s_iff rat_val_def limits int_val_VInt)
  then have "0 < rat_val v * 10 ^ 9" "rat_val v * 10 ^ 9 \<le> 9223372036 * 10 ^ 9" by simp_all
  with fl_error [of "rat_val v * 10 ^ 9"] have "fl (rat_val v * 10 ^ 9) \<le> 9223372036 * 10 ^ 9 + 1024"
    by (simp add: abs_le_iff)
  then show "timeout_fits (rat_val v)" by (simp add: timeout_fits_def)
  show "0 \<le> rat_val v" using v by simp
qed

text \<open>What the server has to answer before the first request, and what the client sends before it.\<close>

definition admits :: "config \<Rightarrow> io_event list \<Rightarrow> bool" where
  "admits cfg pre \<longleftrightarrow>
    (case cf_auth_token cfg of
       None \<Rightarrow> pre = []
     | Some a \<Rightarrow> validate_auth_token a = Inr () \<and> (\<exists>raw. pre = [Io raw Eof] \<and> response raw Eof (lit ''ok'')))"

definition auth_lines :: "config \<Rightarrow> pystr list list" where
  "auth_lines cfg = (case cf_auth_token cfg of None \<Rightarrow> [] | Some a \<Rightarrow> [[lit ''auth'', lit ''_'', a]])"

definition frames_on :: "('r) net_scheme \<Rightarrow> nat \<Rightarrow> pystr option list list" where
  "frames_on s c = map frame_lines (sent_on s c)"

lemma frames_on_same: "sent_on t c = sent_on s c \<Longrightarrow> frames_on t c = frames_on s c"
  "sent_on t c = sent_on s c @ [f] \<Longrightarrow> frames_on t c = frames_on s c @ [frame_lines f]"
  by (simp_all add: frames_on_def)

text \<open>A connection ready for its first request.\<close>

definition ready_conn :: "config \<Rightarrow> nat \<Rightarrow> ('r) net_scheme \<Rightarrow> bool" where
  "ready_conn cfg c s \<longleftrightarrow>
    conn_open s c \<and> \<not> sk_shut (socks s ! c) \<and> sk_in (socks s ! c) = [] \<and>
    frames_on s c = map (map Some) (auth_lines cfg)"

lemma ready_conn_frame: "socks t = socks s \<Longrightarrow> ready_conn cfg c t = ready_conn cfg c s"
  by (simp add: ready_conn_def conn_open_def frames_on_def sent_on_def)

lemma ready_fresh: "cf_auth_token cfg = None \<Longrightarrow> c < length (socks s) \<Longrightarrow> socks s ! c = fresh_sock \<Longrightarrow> ready_conn cfg c s"
  by (simp add: ready_conn_def conn_open_def frames_on_def sent_on_def fresh_sock_def auth_lines_def)

lemma authenticate_answered:
  assumes "validate_auth_token a = Inr ()" "c < length (socks s)" "socks s ! c = fresh_sock"
    and "ios s = Io raw e # r" "response raw e (lit ''ok'')" "cf_auth_token cfg = Some a"
  obtains g where "authenticate c a s = (Inr (), upd_sock c g (s\<lparr>ios := r\<rparr>))"
    "ready_conn cfg c (upd_sock c g (s\<lparr>ios := r\<rparr>))"
proof -
  have "encodable a" "0x0A \<notin> set a" "0x0D \<notin> set a" using assms(1) by (auto simp: validator_iff)
  then have "\<exists>f. encode_lines [lit ''auth'', lit ''_'', a] = Inr f"
    by (auto simp: encode_lines_eq_Inr encodable_def is_scalar_def is_surrogate_def)
  then obtain f where f: "encode_lines [lit ''auth'', lit ''_'', a] = Inr f" by blast
  let ?g = "\<lambda>k. k\<lparr>sk_sent := sk_sent k @ [f], sk_end := e, sk_in := []\<rparr>"
  have s: "conn_open s c" "\<not> sk_shut (socks s ! c)" "sk_in (socks s ! c) = []"
    using assms(2,3) by (simp_all add: conn_open_def fresh_sock_def)
  have "sync_command c (lit ''auth'') (lit ''_'') a 30 s = (Inr (lit ''ok''), upd_sock c ?g (s\<lparr>ios := r\<rparr>))"
    using fits_30 by (intro sync_command_response [OF s _ _ f assms(4,5)]) simp_all
  then have "authenticate c a s = (Inr (), upd_sock c ?g (s\<lparr>ios := r\<rparr>))"
    using assms(1) by (simp add: authenticate_def authenticate_via_def bindP_liftE bindP_def IO_SLACK_S_def
        parse_auth_response_def del: lit_Cons)
  moreover have "ready_conn cfg c (upd_sock c ?g (s\<lparr>ios := r\<rparr>))"
    using s assms(2,3,6) frame_of_command [OF f]
    by (simp add: ready_conn_def conn_open_def frames_on_def sent_on_def auth_lines_def fresh_sock_def del: lit_Cons)
  ultimately show thesis by (rule that)
qed

lemma maybe_authenticate_answered:
  fixes s :: lock
  assumes "admits cfg pre" "c < length (socks s)" "socks s ! c = fresh_sock" "ios s = pre @ r"
  obtains t where "maybe_authenticate c (cf_auth_token cfg) s = (Inr c, t)" "ready_conn cfg c t"
    "ios t = r" "dials t = dials s" "length (socks t) = length (socks s)" "l_sched t = l_sched s" "l_workers t = l_workers s"
proof (cases "cf_auth_token cfg")
  case None
  with assms that [of s] show thesis by (simp add: admits_def maybe_authenticate_def ready_fresh)
next
  case (Some a)
  with assms(1) obtain raw where a: "validate_auth_token a = Inr ()" "pre = [Io raw Eof]" "response raw Eof (lit ''ok'')"
    by (auto simp: admits_def)
  obtain g where "authenticate c a s = (Inr (), upd_sock c g (s\<lparr>ios := r\<rparr>))"
    "ready_conn cfg c (upd_sock c g (s\<lparr>ios := r\<rparr>))"
    using authenticate_answered [OF a(1) assms(2,3) _ a(3) Some] assms(4) a(2) by auto
  then show thesis
    by (intro that [of "upd_sock c g (s\<lparr>ios := r\<rparr>)"])
      (simp_all add: Some maybe_authenticate_def tryP_def bindP_def upd_sock_def)
qed

text \<open>Dialling, when the peer accepts the connection and admits the client.\<close>

lemma quiet_open:
  assumes "fresh s" "dials s = DialOk # ds" "ios s = pre @ r" "admits cfg pre"
    and "pick_server cfg = Inr (VStr h, VInt p)"
    and "validate_server_endpoint (VStr h) (VInt p) = Inr (h, p)"
    and "validate_connect_timeout_s (cf_connect_timeout_s cfg) = Inr ()"
  obtains t where "open_and_authenticate cfg s = (Inr (), t)" "connected t" "l_sched s = [] \<longrightarrow> l_sched t = []"
    "l_conn t = Some (length (socks s))" "ready_conn cfg (length (socks s)) t" "ios t = r"
    "length (socks t) = Suc (length (socks s))"
proof -
  note fits = connect_timeout_fits [OF assms(7)]
  have idle: "idle s" using assms(1) by (simp add: fresh_def blank_def idle_calm)
  define u where "u = s\<lparr>dials := ds, socks := socks s @ [fresh_sock]\<rparr>"
  have dial: "open_conn (VStr h) (VInt p) (cf_ssl_context cfg) (cf_connect_timeout_s cfg) s = (Inr (length (socks s)), u)"
    using assms(2,6,7) fits
    by (cases "cf_ssl_context cfg")
      (simp_all add: u_def open_conn_def open_socket_def next_dial_def wrap_ssl_def settimeout_def conn_open_def
        fresh_sock_def bindP_def tryP_def prog_runs bindP_liftE not_less)
  obtain v where v: "maybe_authenticate (length (socks s)) (cf_auth_token cfg) u = (Inr (length (socks s)), v)"
    "ready_conn cfg (length (socks s)) v" "ios v = r" "length (socks v) = length (socks u)" "l_sched v = l_sched u"
    "l_workers v = l_workers u"
    by (rule maybe_authenticate_answered [OF assms(4), of "length (socks s)" u r]) (simp_all add: u_def assms(3))
  have idle_v: "idle v" using idle v(6) by (simp add: u_def idle_def)
  define t where "t = v\<lparr>l_sched := tl (l_sched v), l_conn := Some (length (socks s))\<rparr>"
  have run: "open_and_authenticate cfg s = (Inr (), t)"
    using assms(5) by (simp add: open_and_authenticate_def bindP_liftE bindP_def dial v(1) idle_runs idle_v t_def)
  have "wp (open_and_authenticate cfg) (\<lambda>_. connected) (\<lambda>_ _. True) s"
    by (rule wp_open [OF assms(1)]) simp_all
  from wp_Inr [OF this run] have "connected t" .
  moreover have "ready_conn cfg (length (socks s)) t" 
    using v(2) ready_conn_frame [of t v] by (simp add: t_def)
  ultimately show thesis
    using v(3-5) by (intro that [OF run]) (simp_all add: t_def u_def)
qed

text \<open>The request of an acquire, by class of the object.\<close>

definition acquire_prefix :: "config \<Rightarrow> pystr" where
  "acquire_prefix cfg = (case cf_kind cfg of LockKind \<Rightarrow> [] | SemaphoreKind _ \<Rightarrow> lit ''s'')"

definition acquire_limit :: "config \<Rightarrow> pyval" where
  "acquire_limit cfg = (case cf_kind cfg of LockKind \<Rightarrow> VNone | SemaphoreKind limit \<Rightarrow> limit)"

lemma proto_acquire_eq:
  "proto_acquire cfg c =
    acquire c (cf_key cfg) (cf_acquire_timeout_s cfg) (cf_lease_ttl_s cfg) (acquire_prefix cfg) (acquire_limit cfg)"
  by (cases "cf_kind cfg")
    (simp_all add: proto_acquire_def lock_proto_acquire_def sem_proto_acquire_def acquire_prefix_def acquire_limit_def)

lemma post_init_request:
  assumes "post_init cfg = Inr ()"
  shows "validate_prefix_limit (acquire_prefix cfg) (acquire_limit cfg) = Inr ()"
    "validate_key (lit ''key'') (cf_key cfg) = Inr ()"
    "validate_connect_timeout_s (cf_connect_timeout_s cfg) = Inr ()"
proof -
  note base = post_init_base [OF assms]
  show "validate_key (lit ''key'') (cf_key cfg) = Inr ()"
    "validate_connect_timeout_s (cf_connect_timeout_s cfg) = Inr ()"
    using base by (simp_all add: base_post_init_iff)
  show "validate_prefix_limit (acquire_prefix cfg) (acquire_limit cfg) = Inr ()"
    using assms by (cases "cf_kind cfg")
      (auto simp: acquire_prefix_def acquire_limit_def validate_prefix_limit_iff post_init_def res_simps
        validate_semaphore_limit_iff)
qed

lemma quiet_acquire:
  assumes cfg: "post_init cfg = Inr ()" "pick_server cfg = Inr x" "admits cfg pre"
    and arg: "cf_acquire_timeout_s cfg = VInt n" "n \<le> LARGEST_USABLE_TIMEOUT_S"
      "make_acquire_arg (VInt n) (opt_int (acquire_limit cfg)) (cf_lease_ttl_s cfg) = Inr arg"
    and s: "blank s" "dials s = DialOk # ds" "ios s = pre @ Io raw e # r"
    and resp: "response raw e resp"
      "parse_grant_response resp (op_label (acquire_prefix cfg) (lit ''acquire'')) = Inr (tok, k)"
  shows "\<exists>t. acquire_unlocked cfg s = (Inr True, t) \<and> held t \<and> l_token t = Some tok \<and> l_lease t = k \<and>
    l_conn t = Some (length (socks s)) \<and> conn_open t (length (socks s)) \<and> (l_sched s = [] \<longrightarrow> l_sched t = []) \<and>
    frames_on t (length (socks s)) =
      map (map Some) (auth_lines cfg @ [[acquire_prefix cfg @ lit ''l'', cf_key cfg, arg]])"
proof -
  note v = post_init_request [OF cfg(1)]
  obtain h p where hp: "pick_server cfg = Inr (VStr h, VInt p)"
    "validate_server_endpoint (VStr h) (VInt p) = Inr (h, p)" by (rule picked_valid [OF cfg(1,2)])
  obtain s1 where s1: "reset_for_new_attempt cfg s = (Inr (), s1)" "fresh s1" "l_sched s = [] \<longrightarrow> l_sched s1 = []"
    "socks s1 = socks s" "ios s1 = ios s" "dials s1 = dials s" by (rule quiet_reset [OF s(1)])
  define c where "c = length (socks s)"
  obtain s2 where s2: "open_and_authenticate cfg s1 = (Inr (), s2)" "connected s2" "l_sched s1 = [] \<longrightarrow> l_sched s2 = []"
    "l_conn s2 = Some c" "ready_conn cfg c s2" "ios s2 = Io raw e # r" "length (socks s2) = Suc c"
    by (rule quiet_open [OF s1(2) _ _ cfg(3) hp v(3)]) (use s s1 in \<open>simp_all add: c_def\<close>)
  have idle: "\<forall>k \<in> set (l_workers s2). w_pc k = W_Done"
    using s2(2) idle_calm [of s2] by (simp add: connected_def idle_def)
  define s3 where "s3 = s2\<lparr>l_sched := tl (l_sched s2)\<rparr>"
  have open3: "conn_open s3 c" "\<not> sk_shut (socks s3 ! c)" "sk_in (socks s3 ! c) = []" "ios s3 = Io raw e # r"
    "frames_on s3 c = map (map Some) (auth_lines cfg)"
    using s2(5-7) by (simp_all add: s3_def ready_conn_def conn_open_def frames_on_def sent_on_def)
  obtain f s4 where s4: "proto_acquire cfg c s3 = (Inr (tok, k), s4)"
    "frame_lines f = map Some [acquire_prefix cfg @ lit ''l'', cf_key cfg, arg]" "sent_on s4 c = sent_on s3 c @ [f]"
    "conn_open s4 c"
    using acquire_on_response [OF v(1,2) arg(3,2) open3(1-4) resp]
    by (auto simp: proto_acquire_eq arg(1) simp del: lit_Cons)
  note same = touches_attrs [OF proto_touches(1) [OF s4(1)]]
  have idle4: "\<forall>k \<in> set (l_workers s4). w_pc k = W_Done" using idle same by (simp add: s3_def)
  define t where "t = snd (invoke_acquire cfg s2)"
  have t: "invoke_acquire cfg s2 = (Inr True, t)" "l_token t = Some tok" "l_lease t = k" "l_conn t = Some c"
    "sent_on t c = sent_on s4 c" "conn_open t c" "l_sched t = tl (tl (tl (tl (tl (l_sched s2)))))"
    using idle idle4 s2(4) s4(1,4) same
    by (simp_all add: t_def s3_def invoke_acquire_def tryP_def bindP_def require_conn_def idle_simps set_held_def
        start_renew_def sent_on_def conn_open_def)
  have "wp (invoke_acquire cfg) (\<lambda>b t. b \<longrightarrow> held t) (\<lambda>_ _. True) s2"
    by (rule wp_invoke_acquire [OF s2(2)]) simp_all
  from wp_Inr [OF this t(1)] have "held t" by simp
  moreover have "acquire_unlocked cfg s = (Inr True, t)"
    by (simp add: acquire_unlocked_def bindP_def s1(1) s2(1) t(1))
  moreover have "frames_on t c = map (map Some) (auth_lines cfg @ [[acquire_prefix cfg @ lit ''l'', cf_key cfg, arg]])"
    using t(5) s4(2,3) open3(5) by (simp add: frames_on_def del: lit_Cons)
  moreover have "l_sched s = [] \<longrightarrow> l_sched t = []" using t(7) s1(3) s2(3) by simp
  ultimately show ?thesis using t(2-4,6) unfolding c_def by blast
qed

section \<open>A sample object, for the instances\<close>

definition sample_config :: config where
  "sample_config = default_config (lit ''k'')"

definition sample_lock :: lock where
  "sample_lock = init_lock [Io (grant_bytes (lit ''ab12'') 33 @ [0x0A]) Eof] [DialOk] [] []"

definition sample_held :: lock where
  "sample_held = snd (acquire_unlocked sample_config sample_lock)"

lemma blank_init: "set joins \<subseteq> {True} \<Longrightarrow> blank (init_lock es ds sched joins)"
  using rest_init [of joins es ds sched]
  by (simp add: blank_def calm_def rest_def) (simp add: init_lock_def)

lemma reachable_init: "set joins \<subseteq> {True} \<Longrightarrow> sync_reachable cfg (init_lock es ds sched joins)"
  by (rule sync_reachable.init)

lemma sample_reachable: "sync_reachable sample_config sample_lock"
  by (simp add: sample_lock_def reachable_init)

lemma sample_config_ok:
  "post_init sample_config = Inr ()"
  "pick_server sample_config = Inr (VStr (lit ''127.0.0.1''), VInt 6388)"
  "validate_server_endpoint (VStr (lit ''127.0.0.1'')) (VInt 6388) = Inr (lit ''127.0.0.1'', 6388)"
  "acquire_prefix sample_config = []" "acquire_limit sample_config = VNone"
  "cf_acquire_timeout_s sample_config = VInt 10" "cf_lease_ttl_s sample_config = VNone"
  "cf_key sample_config = lit ''k''" "cf_auth_token sample_config = None"
proof -
  show ok: "post_init sample_config = Inr ()"
    by (simp add: sample_config_def post_init_def base_post_init_iff default_config_def validator_iff limits
        half_ratio_ex validate_server_iff seq_items_def MAX_TCP_PORT_def encodable_def is_scalar_def
        is_surrogate_def wire_size_def utf8_char_def)
  show "validate_server_endpoint (VStr (lit ''127.0.0.1'')) (VInt 6388) = Inr (lit ''127.0.0.1'', 6388)"
    by (simp add: validate_server_endpoint_iff MAX_TCP_PORT_def)
  show "pick_server sample_config = Inr (VStr (lit ''127.0.0.1''), VInt 6388)"
  proof -
    have "encodable (lit ''k'')" by (simp add: encodable_def is_scalar_def is_surrogate_def)
    then obtain i where i: "stable_hash_shard (lit ''k'') 1 = Inr (VInt i)" "validate_shard_index (VInt i) 1 = Inr i"
      using stable_hash_shard_index [of 1 "lit ''k''"] by auto
    then have "i = 0" by (simp add: validate_shard_index_iff)
    with i show ?thesis
      by (simp add: pick_server_def sample_config_def default_config_def seq_items_def unpack_pair_def
          del: lit_Cons)
  qed
qed (simp_all add: sample_config_def default_config_def acquire_prefix_def acquire_limit_def)

lemma grant_parsed:
  assumes "is_field tok" "1 \<le> k" "k \<le> MAX_PROTOCOL_SECONDS"
  shows "parse_grant_response (grant_line (lit ''ok'') tok k) op = Inr (tok, k)"
proof -
  have "starts_with (grant_line (lit ''ok'') tok k) (lit ''ok '')"
    by (simp add: grant_line_def starts_with_def)
  then show ?thesis
    using grant_line_split [OF is_field_ok assms(1)] py_int_seconds [of k] assms(2,3)
    by (auto simp: parse_grant_iff)
qed

lemma sample_init:
  "blank sample_lock" "l_sched sample_lock = []" "dials sample_lock = DialOk # []" "socks sample_lock = []"
  "ios sample_lock = Io (grant_bytes (lit ''ab12'') 33 @ [0x0A]) Eof # []"
  unfolding sample_lock_def by (rule blank_init) (simp_all add: init_lock_def)

lemma sample_request:
  "make_acquire_arg (VInt 10) (opt_int (acquire_limit sample_config)) (cf_lease_ttl_s sample_config) = Inr (lit ''10'')"
  "10 \<le> LARGEST_USABLE_TIMEOUT_S"
proof -
  show "make_acquire_arg (VInt 10) (opt_int (acquire_limit sample_config)) (cf_lease_ttl_s sample_config) = Inr (lit ''10'')"
    using sample_args(3) by (simp only: sample_config_ok)
qed (simp add: LARGEST_USABLE_TIMEOUT_S_def)

lemma sample_held:
  "sync_reachable sample_config sample_held" "held sample_held" "l_token sample_held = Some (lit ''ab12'')"
  "l_lease sample_held = 33" "l_conn sample_held = Some 0" "conn_open sample_held 0"
  "l_sched sample_held = []" "acquire_unlocked sample_config sample_lock = (Inr True, sample_held)"
proof -
  have resp: "response (grant_bytes (lit ''ab12'') 33 @ [0x0A]) Eof (grant_line (lit ''ok'') (lit ''ab12'') 33)"
    using sample_args by (intro grant_response) (simp_all add: limits)
  have parse: "parse_grant_response (grant_line (lit ''ok'') (lit ''ab12'') 33) op = Inr (lit ''ab12'', 33)" for op
    using sample_args by (intro grant_parsed) (simp_all add: limits)
  have admits: "admits sample_config []" by (simp add: admits_def sample_config_ok(9))
  have "ios sample_lock = [] @ Io (grant_bytes (lit ''ab12'') 33 @ [0x0A]) Eof # []" by (simp add: sample_init(5))
  from quiet_acquire [OF sample_config_ok(1,2) admits sample_config_ok(6) sample_request(2,1) sample_init(1,3) this
      resp parse] sample_init(2,4)
  obtain t where t: "acquire_unlocked sample_config sample_lock = (Inr True, t)" "held t"
    "l_token t = Some (lit ''ab12'')" "l_lease t = 33" "l_conn t = Some 0" "conn_open t 0" "l_sched t = []"
    by (simp del: lit_Cons) blast
  then have run: "run_api sample_config Acquire sample_lock = t" "sample_held = t"
    by (simp_all add: sample_held_def run_api_def)
  have "sync_reachable sample_config t"
    using sync_reachable.step [OF sample_reachable sync_step.api [of sample_config sample_lock Acquire]]
    unfolding run(1) .
  with t show "sync_reachable sample_config sample_held" "held sample_held"
    "l_token sample_held = Some (lit ''ab12'')" "l_lease sample_held = 33" "l_conn sample_held = Some 0" "conn_open sample_held 0"
    "l_sched sample_held = []" "acquire_unlocked sample_config sample_lock = (Inr True, sample_held)"
    unfolding run(2) by simp_all
qed

section \<open>Every reachable state\<close>

lemma reachable_facts:
  assumes "sync_reachable cfg s"
  shows "rest s" "core s" "threads_ok s" "lock_at (apc s) s" "conn_at (apc s) s" "knows (apc s) s"
    "held_at (apc s) s" "l_io_lock s \<noteq> Some 0"
  using reachable_rest [OF assms] by (simp_all add: rest_def runnable_def core_def core_at_def held_ok_def)

text \<open>The program counter of a thread that has not ended is that of the object's own thread.\<close>

lemma active_thread:
  assumes "threads_ok s" "w < length (l_workers s)" "w_pc (l_workers s ! w) \<noteq> W_Done"
  shows "l_renew_thread s = Some w" "apc s = w_pc (l_workers s ! w)" "w_event (l_workers s ! w) = l_stop_event s"
  using assms by (auto simp: threads_ok_def apc_def)

lemma apc_thread:
  "threads_ok s \<Longrightarrow> apc s \<noteq> W_Done \<Longrightarrow>
    \<exists>w. l_renew_thread s = Some w \<and> w < length (l_workers s) \<and> w_pc (l_workers s ! w) = apc s"
  by (auto simp: apc_def threads_ok_def split: option.splits)

text \<open>
  C8. No socket is lost: in every state a sync lock or semaphore object can reach, under every
  schedule, every network and every sequence of public calls, an open socket is the object's current
  connection, or the one a renewal thread has just dropped after a failure and is about to close while
  it owns \<open>_io_lock\<close>.
\<close>

theorem open_socket_owned:
  assumes "sync_reachable cfg s" "conn_open s c"
  shows "l_conn s = Some c \<or>
    (\<exists>w. l_renew_thread s = Some w \<and> l_io_lock s = Some (Suc w) \<and>
       w_pc (l_workers s ! w) \<in> {W_FailClear c, W_FailClose c})"
proof (cases "l_conn s = Some c")
  case False
  note r = reachable_facts [OF assms(1)]
  have c: "closing (apc s) = Some c" using r(5) assms(2) False by (auto simp: conn_at_def)
  then have pc: "apc s \<in> {W_FailClear c, W_FailClose c}" by (cases "apc s") simp_all
  then have "apc s \<noteq> W_Done" "holding (apc s)" by auto
  with apc_thread [OF r(3)] r(4) pc show ?thesis by (auto simp: lock_at_def)
qed simp

theorem open_socket_owned_witness:
  "conn_open sample_held 0 \<and> (l_conn sample_held = Some 0 \<or>
    (\<exists>w. l_renew_thread sample_held = Some w \<and> l_io_lock sample_held = Some (Suc w) \<and>
       w_pc (l_workers sample_held ! w) \<in> {W_FailClear 0, W_FailClose 0}))"
  using open_socket_owned [OF sample_held(1,6)] sample_held(6) by blast

text \<open>
  There is one renewal thread: in every reachable state at most one of the threads
  the object ever started has not ended, namely the one its attribute names.
\<close>

lemma one_renewal_thread:
  assumes "sync_reachable cfg s" "w < length (l_workers s)" "w_pc (l_workers s ! w) \<noteq> W_Done"
  shows "l_renew_thread s = Some w"
  using active_thread(1) [OF reachable_facts(3) [OF assms(1)] assms(2,3)] .

lemma sample_thread: "\<exists>w. l_renew_thread sample_held = Some w \<and> w < length (l_workers sample_held) \<and>
    w_pc (l_workers sample_held ! w) = W_Init"
  using apc_thread [of sample_held] reachable_facts(3) [OF sample_held(1)] sample_held(2)
  by (simp add: held_def)

text \<open>
  C10. The attributes agree in every reachable state: no token means lease \<open>0\<close>, a token has a positive
  lease and a connection (except while a failing renewal is between dropping the one and the other), a
  connection without a token has no renewal thread, and a closed object holds nothing: no token,
  no connection, no open socket and no thread that has not ended.
\<close>

theorem attributes_agree:
  assumes "sync_reachable cfg s"
  shows "(case l_token s of
      None \<Rightarrow> l_lease s = 0 \<and> (l_conn s = None \<or> l_renew_thread s = None)
    | Some _ \<Rightarrow> 1 \<le> l_lease s \<and> (l_conn s \<noteq> None \<or> (\<exists>c. apc s = W_FailClear c)) \<and> \<not> l_closed s) \<and>
    (l_closed s \<longrightarrow> l_conn s = None \<and> l_token s = None \<and> (\<forall>c. \<not> conn_open s c) \<and>
      (\<forall>w < length (l_workers s). w_pc (l_workers s ! w) = W_Done))"
proof -
  note r = reachable_facts [OF assms]
  have closed: "blank s" if "l_closed s" using r(1) that by (simp add: rest_def)
  have ended: "w_pc (l_workers s ! w) = W_Done" if "blank s" "w < length (l_workers s)" for w
    using r(3) that by (simp add: blank_def calm_def threads_ok_def)
  have "\<not> l_closed s" if "l_token s \<noteq> None" using that closed by (auto simp: blank_def)
  with r(7) have "case l_token s of
      None \<Rightarrow> l_lease s = 0 \<and> (l_conn s = None \<or> l_renew_thread s = None)
    | Some _ \<Rightarrow> 1 \<le> l_lease s \<and> (l_conn s \<noteq> None \<or> (\<exists>c. apc s = W_FailClear c)) \<and> \<not> l_closed s"
    by (cases "l_token s") (auto simp: held_at_def)
  with closed ended blank_closed_sockets show ?thesis by (simp add: blank_def)
qed

theorem attributes_agree_witness:
  "l_token sample_held = Some (lit ''ab12'') \<and> 1 \<le> l_lease sample_held \<and> l_conn sample_held \<noteq> None \<and>
    \<not> l_closed sample_held"
  using attributes_agree [OF sample_held(1)] sample_held(2,3) by (auto simp: held_def)

section \<open>What the public methods leave behind\<close>

text \<open>
  C11. \<open>acquire\<close> from any reachable state, under every schedule and network.  \<open>True\<close>: the object holds a
  token field and a lease in range, keeps its connection, is not closed and has a fresh renewal
  thread about to start.  \<open>False\<close> (the server timed the request out) and every exception: nothing is held,
  no socket is open and no renewal thread is left.
\<close>

theorem acquire_outcome:
  assumes "sync_reachable cfg s"
  shows "case acquire_unlocked cfg s of
      (Inr True, t) \<Rightarrow> held t
    | (Inr False, t) \<Rightarrow> blank t \<and> l_closed t \<and> (\<forall>c. \<not> conn_open t c)
    | (Inl e, t) \<Rightarrow> blank t \<and> (\<forall>c. \<not> conn_open t c)"
proof -
  have "wp (acquire_unlocked cfg) (\<lambda>b t. if b then held t else closed_blank t) (\<lambda>_. blank) s"
    by (rule wp_acquire [OF reachable_rest [OF assms]]) simp_all
  then show ?thesis
    using blank_closed_sockets by (auto simp: wp_def closed_blank_def split: prod.splits sum.splits bool.splits)
qed

theorem acquire_outcome_witness:
  "fst (acquire_unlocked sample_config sample_lock) = Inr True \<and>
    held (snd (acquire_unlocked sample_config sample_lock))"
  using acquire_outcome [OF sample_reachable] by (simp add: sample_held(8))

text \<open>
  C12. \<open>enqueue\<close> from any reachable state returns \<open>acquired\<close> with the grant held as after \<open>acquire\<close>, or
  \<open>queued\<close> with an open connection, no token and no renewal thread, or raises with nothing held and no
  socket open; no other status is ever returned.
\<close>

theorem enqueue_outcome:
  assumes "sync_reachable cfg s"
  shows "case enqueue_unlocked cfg s of
      (Inr status, t) \<Rightarrow> status = lit ''acquired'' \<and> held t \<or>
        status = lit ''queued'' \<and> l_conn t \<noteq> None \<and> l_token t = None \<and> l_renew_thread t = None \<and> \<not> l_closed t
    | (Inl e, t) \<Rightarrow> blank t \<and> (\<forall>c. \<not> conn_open t c)"
proof -
  let ?Q = "\<lambda>st t. st = lit ''acquired'' \<and> held t \<or> st = lit ''queued'' \<and> connected t"
  have w: "wp (enqueue_unlocked cfg) ?Q (\<lambda>_. blank) s"
    by (rule wp_enqueue [OF reachable_rest [OF assms]]) simp_all
  obtain x t where run: "enqueue_unlocked cfg s = (x, t)" by (rule prod.exhaust)
  show ?thesis
  proof (cases x)
    case (Inl e)
    have "blank t" by (rule wp_Inl [OF w]) (simp only: run Inl)
    with run Inl blank_closed_sockets [of t] show ?thesis by simp
  next
    case (Inr st)
    have "?Q st t" by (rule wp_Inr [OF w]) (simp only: run Inr)
    then have "st = lit ''acquired'' \<and> held t \<or>
        st = lit ''queued'' \<and> l_conn t \<noteq> None \<and> l_token t = None \<and> l_renew_thread t = None \<and> \<not> l_closed t"
      unfolding connected_def calm_def by blast
    then show ?thesis unfolding run Inr prod.case sum.case .
  qed
qed

theorem enqueue_outcome_witness:
  "case enqueue_unlocked sample_config sample_held of
      (Inr status, t) \<Rightarrow> status = lit ''acquired'' \<and> held t \<or>
        status = lit ''queued'' \<and> l_conn t \<noteq> None \<and> l_token t = None \<and> l_renew_thread t = None \<and> \<not> l_closed t
    | (Inl e, t) \<Rightarrow> blank t \<and> (\<forall>c. \<not> conn_open t c)"
  by (rule enqueue_outcome [OF sample_held(1)])

text \<open>
  C13. \<open>wait\<close> from any reachable state: \<open>True\<close> when a token is already held (it still is, and nothing
  is closed) or with a new grant held as after \<open>acquire\<close>; \<open>False\<close> leaves everything closed; without a
  connection it raises \<open>RuntimeError\<close>, and every other exception leaves everything closed.
\<close>

theorem wait_outcome:
  assumes "sync_reachable cfg s"
  shows "case wait_unlocked cfg timeout_s s of
      (Inr True, t) \<Rightarrow> l_token s \<noteq> None \<and> l_token t = l_token s \<and> l_closed t = l_closed s \<or> held t
    | (Inr False, t) \<Rightarrow> closed_blank t \<and> (\<forall>c. \<not> conn_open t c)
    | (Inl e, t) \<Rightarrow> closed_blank t \<and> (\<forall>c. \<not> conn_open t c) \<or>
        e = Exn RuntimeError [Txt (lit ''not connected; call enqueue() first'')] \<and> l_conn t = None \<and> l_token t = None"
proof -
  let ?kept = "\<lambda>t. l_token s \<noteq> None \<and> l_token t = l_token s \<and> l_closed t = l_closed s"
  let ?none = "\<lambda>e t. e = Exn RuntimeError [Txt (lit ''not connected; call enqueue() first'')] \<and>
    l_conn t = None \<and> l_token t = None"
  have kept: "?kept t" if "drift s t" "l_token t \<noteq> None" for t
    using driftD(1,6) [OF that(1)] that(2) by auto
  have w: "wp (wait_unlocked cfg timeout_s) (\<lambda>b t. if b then ?kept t \<or> held t else closed_blank t)
      (\<lambda>e t. closed_blank t \<or> ?none e t) s"
  proof (rule wp_wait [OF reachable_rest [OF assms]])
    fix t
    assume "drift s t" "l_token t \<noteq> None"
    then have "?kept t" by (rule kept)
    then show "if True then ?kept t \<or> held t else closed_blank t" by (simp only: if_True simp_thms)
  qed simp_all
  obtain x t where run: "wait_unlocked cfg timeout_s s = (x, t)" by (rule prod.exhaust)
  have closed: "closed_blank t \<Longrightarrow> \<not> conn_open t c" for c
    using blank_closed_sockets by (simp add: closed_blank_def)
  show ?thesis
  proof (cases x)
    case (Inl e)
    with wp_Inl [OF w, of e t] run closed show ?thesis by auto
  next
    case (Inr b)
    with wp_Inr [OF w, of b t] run closed show ?thesis by (cases b) simp_all
  qed
qed

theorem wait_outcome_witness:
  "wait_unlocked sample_config VNone sample_held = (Inr True, sample_held) \<and>
    \<not> (l_token sample_held = None \<and> \<not> held sample_held)"
proof -
  have "wait_unlocked sample_config VNone sample_held = (Inr True, sample_held)"
    by (simp add: wait_unlocked_def bindP_def quiet_runs sample_held(3,7))
  with wait_outcome [OF sample_held(1), of VNone] show ?thesis by auto
qed

text \<open>
  C15. \<open>close\<close> from any reachable state returns, marks the object closed and leaves it without token,
  lease, connection and open socket, and no renewal thread can do anything afterwards, however many
  steps the scheduler still gives it.
\<close>

theorem close_outcome:
  assumes "sync_reachable cfg s"
  shows "\<exists>t. close_unlocked cfg s = (Inr (), t) \<and> l_closed t \<and> l_token t = None \<and> l_lease t = 0 \<and>
    l_conn t = None \<and> (\<forall>c. \<not> conn_open t c) \<and> (\<forall>ws. fold (worker_step cfg) ws t = t)"
proof -
  have w: "wp (close_unlocked cfg) (\<lambda>_. closed_blank) (\<lambda>_ _. False) s"
    by (rule wp_close_rest [OF reachable_rest [OF assms]])
  obtain x t where run: "close_unlocked cfg s = (x, t)" by (rule prod.exhaust)
  with w have x: "x = Inr ()" by (cases x) (auto dest: wp_Inl)
  from wp_Inr [OF w run [unfolded x]] have t: "blank t" "l_closed t" by (simp_all add: closed_blank_def)
  have "threads_ok t" "apc t = W_Done"
    using t(1) calm_apc by (auto simp: blank_def calm_iff)
  with t run x blank_closed_sockets [OF t(1)] show ?thesis by (simp add: blank_def fold_idle)
qed

theorem close_outcome_witness:
  "\<exists>t. close_unlocked sample_config sample_held = (Inr (), t) \<and> conn_open sample_held 0 \<and>
    l_token t = None \<and> \<not> conn_open t 0"
  using close_outcome [OF sample_held(1)] sample_held(6) by blast

lemma wait_with_token: "calm t \<Longrightarrow> l_token t \<noteq> None \<Longrightarrow> fst (wait_unlocked cfg timeout_s t) = Inr True"
  by (simp add: wait_unlocked_def rd_def interfere_def bindP_def modP_def getP_def retP_def calm_burst)

text \<open>What an interrupted release leaves: the renewal has been stopped, the connection is dead, and the
  object holds on to both.\<close>

definition still_held :: "config \<Rightarrow> pyval \<Rightarrow> lock \<Rightarrow> lock \<Rightarrow> bool" where
  "still_held cfg timeout_s s t \<longleftrightarrow>
    l_token s \<noteq> None \<and> l_token t = l_token s \<and> l_renew_thread t = None \<and> \<not> l_closed t \<and>
    (\<exists>c. l_conn t = Some c \<and> \<not> conn_open t c) \<and> fst (wait_unlocked cfg timeout_s t) = Inr True"

text \<open>
  C14. \<open>release\<close> from any reachable state, and \<open>__exit__\<close>, which calls it: it returns with everything
  closed as after \<open>close\<close>, and returns \<open>True\<close> only if a token was held when it was called; server errors
  and network errors do not escape.  What escapes is not an \<open>Exception\<close> (a \<open>KeyboardInterrupt\<close> during the
  request).  Then the renewal thread has been stopped and the socket of the request is closed, but the object is not:
  it is not marked closed, still has the dead connection and the token, and a later \<open>wait\<close> reports the
  lock as held.
\<close>

theorem release_outcome:
  assumes "sync_reachable cfg s"
  shows "case (release_unlocked cfg s, exit cfg s) of ((x, t), (y, u)) \<Rightarrow>
    (case x of
       Inr released \<Rightarrow> closed_blank t \<and> (\<forall>c. \<not> conn_open t c) \<and> (if released then l_token s \<noteq> None else True)
     | Inl e \<Rightarrow> \<not> isinstance e BuiltinException \<and> still_held cfg timeout_s s t) \<and>
    (case y of
       Inr _ \<Rightarrow> closed_blank u \<and> (\<forall>c. \<not> conn_open u c)
     | Inl e \<Rightarrow> \<not> isinstance e BuiltinException \<and> still_held cfg timeout_s s u)"
proof -
  note rest = reachable_rest [OF assms]
  let ?E = "\<lambda>e t. \<not> isinstance e BuiltinException \<and> still_held cfg timeout_s s t"
  have E: "?E e t" if "\<not> isinstance e BuiltinException" "calm t" "rest t" "l_token t = l_token s" "l_token s \<noteq> None"
    "\<exists>c. l_conn t = Some c \<and> \<not> conn_open t c" for e t
    using that wait_with_token [of t cfg timeout_s] by (auto simp: still_held_def calm_def rest_def blank_def)
  have w: "wp (release_unlocked cfg) (\<lambda>b t. closed_blank t \<and> (b \<longrightarrow> l_token s \<noteq> None)) ?E s"
    by (rule wp_release [OF rest]) (use E in simp_all)
  have w': "wp (exit cfg) (\<lambda>_. closed_blank) ?E s"
    by (rule wp_exit [OF rest]) (use E in simp_all)
  have no_socket: "\<not> conn_open t c" if "closed_blank t" for t c
    using that blank_closed_sockets by (simp add: closed_blank_def)
  obtain x t y u where run: "release_unlocked cfg s = (x, t)" "exit cfg s = (y, u)" by fastforce
  show ?thesis
    using wp_run [OF w run(1)] wp_run [OF w' run(2)] no_socket
    by (simp add: run) (cases x; cases y; simp)
qed

theorem release_outcome_witness:
  "\<exists>x t. release_unlocked sample_config sample_held = (x, t) \<and> conn_open sample_held 0 \<and>
    (case x of Inr _ \<Rightarrow> \<not> conn_open t 0 | Inl e \<Rightarrow> \<not> isinstance e BuiltinException)"
proof -
  obtain x t y u where "release_unlocked sample_config sample_held = (x, t)" "exit sample_config sample_held = (y, u)"
    by fastforce
  with release_outcome [OF sample_held(1)] sample_held(6) show ?thesis
    by (cases x) auto
qed

text \<open>
  \<open>with\<close>: entering from any reachable state either returns with the lock held, as a successful
  \<open>acquire\<close> does, or raises with no socket open and no renewal thread; a timeout becomes Python's
  \<open>TimeoutError\<close>.
\<close>

lemma enter_outcome:
  assumes "sync_reachable cfg s"
  shows "case enter cfg s of
      (Inr _, t) \<Rightarrow> held t
    | (Inl e, t) \<Rightarrow> blank t \<and> (\<forall>c. \<not> conn_open t c) \<and>
        (\<exists>b u. acquire_unlocked cfg s = (b, u) \<and>
          (b = Inl e \<or> b = Inr False \<and> e = Exn BuiltinTimeoutError [Txt (lit ''timeout acquiring ''), Repr (cf_key cfg)]))"
proof -
  have w: "wp (enter cfg) (\<lambda>_. held) (\<lambda>_. blank) s"
    by (rule wp_enter [OF reachable_rest [OF assms]]) simp_all
  obtain x t b u where run: "enter cfg s = (x, t)" "acquire_unlocked cfg s = (b, u)" by fastforce
  show ?thesis
  proof (cases x)
    case (Inr a)
    with wp_run [OF w run(1)] run(1) show ?thesis by simp
  next
    case (Inl e)
    have "b = Inl e \<or> b = Inr False \<and> e = Exn BuiltinTimeoutError [Txt (lit ''timeout acquiring ''), Repr (cf_key cfg)]"
      using run Inl by (cases b) (auto simp: enter_def bindP_def split: if_splits simp del: lit_Cons)
    with wp_run [OF w run(1)] run Inl blank_closed_sockets [of t] show ?thesis by simp
  qed
qed

section \<open>The renewal thread\<close>

lemma reachable_steps: "sync_reachable cfg s \<Longrightarrow> sync_reachable cfg ((worker_step cfg w ^^ n) s)"
  by (induction n) (auto intro: sync_reachable.step sync_step.renewal)

text \<open>A thread that starts comes to its first renewal in five steps when nobody interferes.\<close>

lemma first_renewal:
  fixes cfg :: config
  assumes s: "held s" "l_renew_thread s = Some w" "w < length (l_workers s)" "w_pc (l_workers s ! w) = W_Init"
    "w_event (l_workers s ! w) = l_stop_event s" "l_io_lock s = None" "l_conn s = Some c" "l_token s = Some tok"
  defines "t \<equiv> (worker_step cfg w ^^ 5) s"
  shows "w < length (l_workers t) \<and> w_pc (l_workers t ! w) = W_Io c tok \<and> \<not> l_closed t \<and>
    \<not> event_set (l_stop_event t) t \<and> w_event (l_workers t ! w) = l_stop_event t"
proof -
  have "\<not> l_closed s" "\<not> event_set (l_stop_event s) s" using s(1) by (simp_all add: held_def)
  then show ?thesis
    using s by (simp add: t_def eval_nat_numeral worker_step_def Let_def w_goto_def event_set_def)
qed

lemma sample_renewing:
  obtains s w where "sync_reachable sample_config s" "w < length (l_workers s)"
    "w_pc (l_workers s ! w) = W_Io 0 (lit ''ab12'')" "\<not> l_closed s" "\<not> event_set (l_stop_event s) s"
proof -
  note r = reachable_facts [OF sample_held(1)]
  obtain w where w: "l_renew_thread sample_held = Some w" "w < length (l_workers sample_held)"
    "w_pc (l_workers sample_held ! w) = W_Init"
    using sample_thread by blast
  then have "w_event (l_workers sample_held ! w) = l_stop_event sample_held" "l_io_lock sample_held = None"
    using r(3,4,8) by (auto simp: threads_ok_def lock_at_def apc_def)
  from first_renewal [OF sample_held(2) w this sample_held(5,3), of sample_config]
    reachable_steps [OF sample_held(1), of 5 w] that show ?thesis by blast
qed

text \<open>
  C17. A stopped renewal thread ends: once the stop event of a reachable state has been set, seven
  steps of the thread of its own are enough, whatever it was doing; on the way it opens no socket,
  sets neither token nor connection, and it leaves \<open>_io_lock\<close> free.
\<close>

theorem stopped_thread_ends:
  assumes "sync_reachable cfg s" "l_renew_thread s = Some w" "7 \<le> n"
  shows "let t = (worker_step cfg w ^^ n) (snd (set_stop_event cfg s)) in
    w_pc (l_workers t ! w) = W_Done \<and> l_io_lock t = None \<and> {c. conn_open t c} \<subseteq> {c. conn_open s c} \<and>
    (l_conn t = l_conn s \<or> l_conn t = None) \<and> (l_token t = l_token s \<or> l_token t = None)"
proof -
  have run: "runnable s" using reachable_rest [OF assms(1)] by (simp add: rest_def)
  let ?P = "\<lambda>u. runnable u \<and> event_set (l_stop_event u) u \<and> l_renew_thread u = Some w \<and>
    open_conns u \<subseteq> open_conns s \<and> (l_conn u = l_conn s \<or> l_conn u = None) \<and>
    (l_token u = l_token s \<or> l_token u = None)"
  have "wp (set_stop_event cfg) (\<lambda>_. ?P) (\<lambda>_. ?P) s"
    unfolding set_stop_event_def
  proof (rule wp_wr [OF run])
    fix u
    assume u: "drift s u" "runnable u"
    from set_event(1,3,4) [OF u(2)] driftD(4-7) [OF u(1)] assms(2)
    show "?P (u\<lparr>l_events := (l_events u)[l_stop_event u := True]\<rparr>)"
      by (simp add: open_conns_def)
  qed
  from wp_snd [OF this] obtain u where u: "u = snd (set_stop_event cfg s)" "?P u" by simp
  let ?t = "(worker_step cfg w ^^ n) u"
  have core: "core u" "l_io_lock u \<noteq> Some 0" using u(2) by (simp_all add: runnable_def)
  have "life (apc u) \<le> n" using life_le [of "apc u"] assms(3) by simp
  with u(2) core have m: "safe_move u ?t" "apc ?t = W_Done"
    using thread_ends [of u w n cfg] by simp_all
  then have t: "core ?t" "rely u ?t" by (simp_all add: safe_move_def)
  then have "w_pc (l_workers ?t ! w) = W_Done" using m(2) u(2) by (simp add: apc_def rely_def)
  moreover have "l_io_lock ?t = None"
    using t core(2) m(2) by (auto simp: core_def core_at_def lock_at_def rely_def)
  ultimately show ?thesis using t(2) u by (auto simp: Let_def rely_def open_conns_def)
qed

theorem stopped_thread_ends_witness:
  "\<exists>w. let t = (worker_step sample_config w ^^ 7) (snd (set_stop_event sample_config sample_held)) in
    w_pc (l_workers sample_held ! w) = W_Init \<and> w_pc (l_workers t ! w) = W_Done"
proof -
  obtain w where "l_renew_thread sample_held = Some w" "w_pc (l_workers sample_held ! w) = W_Init"
    using sample_thread by blast
  with stopped_thread_ends [OF sample_held(1) this(1), of 7] show ?thesis by (auto simp: Let_def)
qed

text \<open>
  C18. Blocking on \<open>_io_lock\<close> ends: from every reachable state, for every schedule, the caller gets the
  lock within the turns the model grants it, although other threads may take it again in between; meanwhile
  no socket is opened and nothing is granted.
\<close>

theorem io_lock_is_granted:
  assumes "sync_reachable cfg s"
  shows "let t = wait_io cfg (length (l_sched s) + 8) s in
    l_io_lock t = None \<and> {c. conn_open t c} \<subseteq> {c. conn_open s c} \<and>
    (l_conn t = l_conn s \<or> l_conn t = None) \<and> (l_token t = l_token s \<or> l_token t = None)"
  using io_lock_granted [of s "length (l_sched s) + 8" cfg] io_turns_bound [of s] reachable_facts [OF assms]
  by (simp add: Let_def safe_move_def rely_def)

theorem io_lock_is_granted_witness:
  "\<exists>s w. w_pc (l_workers s ! w) = W_Io 0 (lit ''ab12'') \<and> l_io_lock s = Some (Suc w) \<and>
    l_io_lock (wait_io sample_config (length (l_sched s) + 8) s) = None"
proof -
  obtain s w where s: "sync_reachable sample_config s" "w < length (l_workers s)"
    "w_pc (l_workers s ! w) = W_Io 0 (lit ''ab12'')" by (rule sample_renewing)
  have "l_io_lock s = Some (Suc w)"
    using active_thread [OF reachable_facts(3) [OF s(1)] s(2)] reachable_facts(4) [OF s(1)] s(3)
    by (auto simp: lock_at_def)
  with io_lock_is_granted [OF s(1)] s(3) show ?thesis by (auto simp: Let_def)
qed

text \<open>
  Every renewal request is for the current grant: when a renewal thread is about to send, it owns
  \<open>_io_lock\<close>, and the connection and the token it uses are the ones the object holds, so a renewal never
  mixes the token of one grant with the connection of another.
\<close>

lemma renewal_uses_current_grant:
  assumes "sync_reachable cfg s" "w < length (l_workers s)" "w_pc (l_workers s ! w) = W_Io c tok"
  shows "l_conn s = Some c \<and> l_token s = Some tok \<and> l_io_lock s = Some (Suc w) \<and> \<not> l_closed s"
proof -
  note r = reachable_facts [OF assms(1)]
  have "l_renew_thread s = Some w" "apc s = W_Io c tok"
    using active_thread [OF r(3) assms(2)] assms(3) by simp_all
  moreover from this have "l_conn s = Some c" "l_token s = Some tok" "l_io_lock s = Some (Suc w)"
    using r(4,6) by (auto simp: lock_at_def)
  moreover from this have "\<not> l_closed s" using r(1) by (auto simp: rest_def blank_def)
  ultimately show ?thesis by simp
qed

text \<open>One step, by program counter.\<close>

lemma pc_goto:
  "w < length (l_workers s) \<Longrightarrow> w_pc (l_workers (w_goto w pc s) ! w) = pc"
  "w < length (l_workers s) \<Longrightarrow> w_event (l_workers (w_goto w pc s) ! w) = w_event (l_workers s ! w)"
  by (simp_all add: w_goto_def)

lemma step_at:
  assumes "w < length (l_workers s)"
  shows "w_pc (l_workers s ! w) = W_Io c tok \<Longrightarrow> worker_step cfg w s = safe_renew_once cfg w c tok s"
    "w_pc (l_workers s ! w) = W_Fail c \<Longrightarrow> l_conn s = Some c \<Longrightarrow> worker_step cfg w s = w_goto w (W_FailSet c) s"
    "w_pc (l_workers s ! w) = W_FailSet c \<Longrightarrow> worker_step cfg w s = w_goto w (W_FailClear c) (s\<lparr>l_conn := None\<rparr>)"
    "w_pc (l_workers s ! w) = W_FailClear c \<Longrightarrow>
      worker_step cfg w s = w_goto w (W_FailClose c) (s\<lparr>l_token := None, l_lease := 0\<rparr>)"
    "w_pc (l_workers s ! w) = W_FailClose c \<Longrightarrow>
      worker_step cfg w s = w_leave w (W_Ret None) (upd_sock c (\<lambda>k. k\<lparr>sk_open := False\<rparr>) s)"
    "w_pc (l_workers s ! w) = W_Ret (Some n) \<Longrightarrow> \<not> event_set (w_event (l_workers s ! w)) s \<Longrightarrow>
      worker_step cfg w s = w_goto w (W_Update n) s"
    "w_pc (l_workers s ! w) = W_Update n \<Longrightarrow> worker_step cfg w s =
      (if n > 0 \<and> l_token s \<noteq> None \<and> \<not> l_closed s then w_goto w (W_Set n) s
       else w_goto w (W_Wait (renew_interval n (rat_val (cf_renew_ratio cfg)))) s)"
    "w_pc (l_workers s ! w) = W_Set n \<Longrightarrow>
      worker_step cfg w s = w_goto w (W_Wait (renew_interval n (rat_val (cf_renew_ratio cfg)))) (s\<lparr>l_lease := n\<rparr>)"
  using assms by (simp_all add: worker_step_def Let_def conn_close_run)

lemma step_funpow: "(worker_step cfg w ^^ Suc n) s = (worker_step cfg w ^^ n) (worker_step cfg w s)"
  by (simp add: funpow_swap1)

text \<open>
  C16. What one renewal does, followed from the request over the steps of its thread while nobody else
  takes a step.  When the request succeeds, the thread keeps token and connection and frees the lock;
  a thread that has not been told to stop then sets the lease if the remaining time is positive (and leaves it as it
  is for \<open>0\<close>) and sleeps for the renewal interval of the remaining time, and one that has been told to
  stop ends with the lease as it was.  When the request raises an \<open>Exception\<close>, token, lease and connection are
  dropped, the connection's socket is closed and the lock is freed; the loss is logged unless the thread
  had been told to stop.  When it raises anything else, the thread ends, the lock is freed and the
  attributes stay.
\<close>

theorem renewal_result:
  assumes "sync_reachable cfg s" "w < length (l_workers s)" "w_pc (l_workers s ! w) = W_Io c tok"
  shows "let stopped = event_set (l_stop_event s) s in
    case proto_renew cfg c tok s of
      (Inr n, _) \<Rightarrow>
        let t = (worker_step cfg w ^^ (if stopped then 2 else if n > 0 then 4 else 3)) s in
        l_lease t = (if \<not> stopped \<and> n > 0 then n else l_lease s) \<and> l_token t = Some tok \<and> l_conn t = Some c \<and>
        l_io_lock t = None \<and> w_pc (l_workers t ! w) =
          (if stopped then W_Done else W_Wait (renew_interval n (rat_val (cf_renew_ratio cfg))))
    | (Inl e, _) \<Rightarrow>
        if isinstance e BuiltinException
        then let t = (worker_step cfg w ^^ 5) s in
          l_token t = None \<and> l_lease t = 0 \<and> l_conn t = None \<and> \<not> conn_open t c \<and> l_io_lock t = None \<and>
          l_log t = l_log s @ (if stopped then [] else [LostLock (cf_key cfg) (token_for_log (Some tok))]) \<and>
          w_pc (l_workers t ! w) = W_Ret None
        else let t = worker_step cfg w s in
          l_token t = Some tok \<and> l_lease t = l_lease s \<and> l_conn t = Some c \<and> l_io_lock t = None \<and>
          w_pc (l_workers t ! w) = W_Done"
proof -
  note now = active_thread [OF reachable_facts(3) [OF assms(1)] assms(2), unfolded assms(3), simplified]
  note r = reachable_facts [OF assms(1)]
  have own: "l_conn s = Some c" "l_token s = Some tok" using r(6) now(2) by simp_all
  then have "\<not> l_closed s" using r(1) by (auto simp: rest_def blank_def)
  obtain x s1 where x: "proto_renew cfg c tok s = (x, s1)" by (rule prod.exhaust)
  note same = touches_attrs [OF proto_renew_run [OF x]]
  have w1: "w < length (l_workers s1)" and ev: "w_event (l_workers s1 ! w) = l_stop_event s1"
    "event_set (l_stop_event s1) s1 \<longleftrightarrow> event_set (l_stop_event s) s" "\<not> l_closed s1"
    "l_conn s1 = Some c" "l_token s1 = Some tok"
    using same assms(2) now(3) own \<open>\<not> l_closed s\<close> by (simp_all add: event_set_def)
  note run = step_at pc_goto w1 ev w_leave_def step_funpow
  show ?thesis
  proof (cases x)
    case (Inr n)
    define u where "u = w_leave w (W_Ret (Some n)) s1"
    have u: "worker_step cfg w s = u" using step_at(1) [OF assms(2,3)] x Inr by (simp add: safe_renew_once_def u_def)
    have ev_u: "event_set (w_event (l_workers u ! w)) u \<longleftrightarrow> event_set (l_stop_event s) s"
      using ev w1 by (simp add: u_def w_leave_def w_goto_def event_set_def)
    let ?pause = "W_Wait (renew_interval n (rat_val (cf_renew_ratio cfg)))"
    have pos: "(worker_step cfg w ^^ 3) u =
        w_goto w ?pause ((w_goto w (W_Set n) (w_goto w (W_Update n) u))\<lparr>l_lease := n\<rparr>)"
      if "n > 0" "\<not> event_set (l_stop_event s) s"
      using that ev_u by (simp add: u_def run eval_nat_numeral)
    have zero: "(worker_step cfg w ^^ 2) u = w_goto w ?pause (w_goto w (W_Update n) u)"
      if "\<not> n > 0" "\<not> event_set (l_stop_event s) s"
      using that ev_u by (simp add: u_def run eval_nat_numeral)
    have stop: "worker_step cfg w u = w_goto w W_Done u" if "event_set (l_stop_event s) s"
      using that ev_u w1 by (simp add: u_def w_leave_def worker_step_def Let_def pc_goto)
    have "(worker_step cfg w ^^ 4) s = (worker_step cfg w ^^ 3) u" "(worker_step cfg w ^^ 3) s = (worker_step cfg w ^^ 2) u"
      "(worker_step cfg w ^^ 2) s = worker_step cfg w u"
      by (simp_all add: u [symmetric] eval_nat_numeral funpow_swap1)
    then show ?thesis
      using x Inr same own pos zero stop
      by (cases "event_set (l_stop_event s) s"; cases "n > 0")
        (simp_all add: Let_def u_def w_leave_def pc_goto w1 assms(2))
  next
    case (Inl e)
    show ?thesis
    proof (cases "isinstance e BuiltinException")
      case True
      define u where "u = w_goto w (W_Fail c) (log_renew_failure cfg (l_stop_event s1) s1)"
      have "worker_step cfg w s = u"
        using step_at(1) [OF assms(2,3)] x Inl True same now(3) by (simp add: safe_renew_once_def u_def)
      then have "(worker_step cfg w ^^ 5) s = (worker_step cfg w ^^ 4) u"
        by (simp add: eval_nat_numeral funpow_swap1)
      also have "\<dots> = w_leave w (W_Ret None) (upd_sock c (\<lambda>k. k\<lparr>sk_open := False\<rparr>)
          (w_goto w (W_FailClose c) ((w_goto w (W_FailClear c)
            ((w_goto w (W_FailSet c) u)\<lparr>l_conn := None\<rparr>))\<lparr>l_token := None, l_lease := 0\<rparr>)))"
        by (simp add: u_def run eval_nat_numeral)
      finally show ?thesis
        using x Inl True same own ev(2,3)
        by (simp add: Let_def u_def w_leave_def pc_goto w1 assms(2) conn_open_upd_sock log_renew_failure_def)
    next
      case False
      then show ?thesis
        using x Inl same own w1 step_at(1) [OF assms(2,3)]
        by (simp add: Let_def safe_renew_once_def w_leave_def pc_goto)
    qed
  qed
qed

theorem renewal_result_witness:
  "\<exists>(s :: lock) w. w_pc (l_workers s ! w) = W_Io 0 (lit ''ab12'') \<and>
    (case proto_renew sample_config 0 (lit ''ab12'') s of
       (Inr n, _) \<Rightarrow> l_conn ((worker_step sample_config w ^^ (if n > 0 then 4 else 3)) s) = Some 0
     | (Inl e, _) \<Rightarrow> isinstance e BuiltinException \<longrightarrow> \<not> conn_open ((worker_step sample_config w ^^ 5) s) 0)"
proof -
  obtain s w where s: "sync_reachable sample_config s" "w < length (l_workers s)"
    "w_pc (l_workers s ! w) = W_Io 0 (lit ''ab12'')" "\<not> event_set (l_stop_event s) s" by (rule sample_renewing)
  obtain x u where "proto_renew sample_config 0 (lit ''ab12'') s = (x, u)" by fastforce
  with renewal_result [OF s(1-3)] s(3,4) show ?thesis
    by (intro exI [of _ s] exI [of _ w]) (cases x; auto simp: Let_def simp del: lit_Cons split: if_splits)
qed

section \<open>An acquire from the constructor to the grant\<close>

text \<open>
  C1. An acquire from beginning to end, under every schedule: on an object that the constructor accepts
  and that holds nothing, whose strategy picks a server and whose timeout is one the socket can take
  (at most \<open>9223372006\<close>), if the server accepts the connection, answers \<open>ok\<close> to the authentication when the
  object has an auth token (one that passes the validator), and then answers with a grant line, then
  \<open>acquire\<close> returns \<open>True\<close>, the object holds the printed token and lease on a new open connection with its
  renewal thread started, and the frames sent over that connection are the auth command, if there is an auth
  token, followed by the acquire command with the object's key and parameters.
\<close>

theorem acquire_end_to_end:
  assumes "post_init cfg = Inr ()" "pick_server cfg = Inr server" "admits cfg pre"
    and "cf_acquire_timeout_s cfg = VInt n" "n \<le> LARGEST_USABLE_TIMEOUT_S"
    and "make_acquire_arg (VInt n) (opt_int (acquire_limit cfg)) (cf_lease_ttl_s cfg) = Inr arg"
    and "blank s" "dials s = DialOk # ds" "ios s = pre @ Io (grant_bytes tok k @ nl) e # r"
    and "is_field tok" "encodable tok" "wire_size tok \<le> 1000" "1 \<le> k" "k \<le> MAX_PROTOCOL_SECONDS"
    and "nl = [0x0A] \<or> nl = [0x0D, 0x0A]"
  shows "\<exists>t. acquire_unlocked cfg s = (Inr True, t) \<and> held t \<and> l_token t = Some tok \<and> l_lease t = k \<and>
    l_conn t = Some (length (socks s)) \<and> conn_open t (length (socks s)) \<and>
    map frame_lines (sent_on t (length (socks s))) =
      map (map Some) (auth_lines cfg @ [[acquire_prefix cfg @ lit ''l'', cf_key cfg, arg]])"
proof -
  have "response (grant_bytes tok k @ nl) e (grant_line (lit ''ok'') tok k)"
    using assms by (intro grant_response) auto
  from quiet_acquire [OF assms(1-9) this grant_parsed [OF assms(10,13,14)]]
  show ?thesis unfolding frames_on_def by blast
qed

text \<open>An instance with an auth token: two frames, the first of them the authentication.\<close>

definition auth_config :: config where
  "auth_config = sample_config\<lparr>cf_auth_token := Some (lit ''pw'')\<rparr>"

definition auth_lock :: lock where
  "auth_lock = init_lock [Io [0x6F, 0x6B, 0x0A] Eof, Io (grant_bytes (lit ''ab12'') 33 @ [0x0A]) Eof] [DialOk] [] []"

lemma auth_config_ok:
  "post_init auth_config = Inr ()" "pick_server auth_config = pick_server sample_config"
  "admits auth_config [Io [0x6F, 0x6B, 0x0A] Eof]" "cf_acquire_timeout_s auth_config = VInt 10"
  "make_acquire_arg (VInt 10) (opt_int (acquire_limit auth_config)) (cf_lease_ttl_s auth_config) = Inr (lit ''10'')"
  "auth_lines auth_config = [[lit ''auth'', lit ''_'', lit ''pw'']]"
  "acquire_prefix auth_config = []" "cf_key auth_config = lit ''k''"
proof -
  have "post_init auth_config = post_init sample_config"
    by (simp add: auth_config_def post_init_def base_post_init_def split: kind.split)
  then show "post_init auth_config = Inr ()" by (simp add: sample_config_ok(1))
  have limit: "acquire_limit auth_config = acquire_limit sample_config" "cf_lease_ttl_s auth_config = cf_lease_ttl_s sample_config"
    by (simp_all add: auth_config_def acquire_limit_def)
  show "make_acquire_arg (VInt 10) (opt_int (acquire_limit auth_config)) (cf_lease_ttl_s auth_config) = Inr (lit ''10'')"
    using sample_request(1) by (simp only: limit)
  have "acquire_prefix auth_config = acquire_prefix sample_config" by (simp add: auth_config_def acquire_prefix_def)
  then show "acquire_prefix auth_config = []" by (simp only: sample_config_ok)
  have "validate_auth_token (lit ''pw'') = Inr ()"
    by (simp add: validator_iff encodable_def is_scalar_def is_surrogate_def wire_size_def utf8_char_def limits)
  moreover have "response [0x6F, 0x6B, 0x0A] Eof (lit ''ok'')" using response_ok_line by simp
  ultimately show "admits auth_config [Io [0x6F, 0x6B, 0x0A] Eof]"
    by (simp add: admits_def auth_config_def)
  show "pick_server auth_config = pick_server sample_config"
    by (cases "seq_items (cf_servers sample_config)") (simp_all add: auth_config_def pick_server_def)
qed (simp_all add: auth_config_def auth_lines_def sample_config_ok(6,8))

theorem acquire_end_to_end_witness:
  "\<exists>t. acquire_unlocked auth_config auth_lock = (Inr True, t) \<and> l_token t = Some (lit ''ab12'') \<and> l_lease t = 33 \<and>
    map frame_lines (sent_on t 0) =
      map (map Some) [[lit ''auth'', lit ''_'', lit ''pw''], [lit ''l'', lit ''k'', lit ''10'']]"
proof -
  have lease: "(1 :: int) \<le> 33" "(33 :: int) \<le> MAX_PROTOCOL_SECONDS" by (simp_all add: limits)
  have init: "blank auth_lock" "dials auth_lock = DialOk # []" "socks auth_lock = []"
    "ios auth_lock = [Io [0x6F, 0x6B, 0x0A] Eof] @ Io (grant_bytes (lit ''ab12'') 33 @ [0x0A]) Eof # []"
    unfolding auth_lock_def by (rule blank_init) (simp_all add: init_lock_def)
  have "pick_server auth_config = Inr (VStr (lit ''127.0.0.1''), VInt 6388)"
    by (simp only: auth_config_ok(2) sample_config_ok(2))
  from acquire_end_to_end [OF auth_config_ok(1) this auth_config_ok(3,4) sample_request(2) auth_config_ok(5)
      init(1,2,4) sample_args(4-6) lease]
  show ?thesis unfolding auth_config_ok init(3) by (auto simp del: lit_Cons)
qed

end
