(* ===== verification/Async_Transport.thy ===== *)
theory Async_Transport
  imports Sync_Transport
begin

text \<open>
  \<open>AsyncConn\<close> of \<open>_async.py\<close> over the same sockets and scripts as \<open>SyncConn\<close>.  The streams buffer
  what they write, so a frame counts as sent, whole, when \<open>write\<close> accepted it, and the script's event is taken by
  \<open>drain\<close>; writing to a closed transport is dropped and \<open>drain\<close> then raises \<open>ConnectionResetError\<close>.
  \<^verbatim>\<open>asyncio.timeout\<close> and a cancellation of the waiting task are exceptions a script may raise at the
  read.  The mutex of an \<open>AsyncConn\<close> makes \<open>command\<close> one action, as for \<open>SyncConn\<close>.
\<close>

section \<open>\<open>AsyncConn\<close>\<close>

definition writer_write :: "nat \<Rightarrow> byte list \<Rightarrow> (exn, ('r) net_scheme, unit) prog" where
  "writer_write c frame =
    modP (\<lambda>s. if conn_open s c then upd_sock c (\<lambda>k. k\<lparr>sk_sent := sk_sent k @ [frame]\<rparr>) s else s)"

definition writer_drain :: "nat \<Rightarrow> (exn, ('r) net_scheme, unit) prog" where
  "writer_drain c s =
    (if \<not> conn_open s c then (raiseE ConnectionResetError [Txt (lit ''Connection lost'')], s)
     else (case ios s of
         [] \<Rightarrow> (Inr (), upd_sock c (\<lambda>k. k\<lparr>sk_end := Eof\<rparr>) s)
       | SendFail n e # r \<Rightarrow> (Inl e, s\<lparr>ios := r\<rparr>)
       | Io bs e # r \<Rightarrow>
           (Inr (), upd_sock c (\<lambda>k. k\<lparr>sk_in := sk_in k @ bs, sk_end := e\<rparr>) (s\<lparr>ios := r\<rparr>))))"

text \<open>\<^verbatim>\<open>StreamReader.readline()\<close> with the limit of the stream: \<^verbatim>\<open>ValueError\<close> when more than \<open>limit\<close> bytes
  come before the separator, the partial line at the end of the stream.\<close>

definition stream_readline :: "nat \<Rightarrow> nat \<Rightarrow> (exn, ('r) net_scheme, byte list) prog" where
  "stream_readline c limit s =
    (let buf = sk_in (socks s ! c); i = length (takeWhile (\<lambda>b. b \<noteq> 0x0A) buf) in
     if i > limit
       then (raiseE ValueError [Txt (lit ''Separator is not found, and chunk exceed the limit'')],
             upd_sock c (\<lambda>k. k\<lparr>sk_in := []\<rparr>) s)
     else if i < length buf
       then (Inr (take (i + 1) buf), upd_sock c (\<lambda>k. k\<lparr>sk_in := drop (i + 1) buf\<rparr>) s)
     else (case sk_end (socks s ! c) of
         Eof \<Rightarrow> (Inr buf, upd_sock c (\<lambda>k. k\<lparr>sk_in := []\<rparr>) s)
       | ReadFail e \<Rightarrow> (Inl e, s)))"

definition async_trim_response_line :: "byte list \<Rightarrow> pystr res" where
  "async_trim_response_line raw =
    seqE (raise_if (MAX_RESPONSE_LINE_BYTES < length raw)
           (Exn RuntimeError [Txt (lit ''server response too large (''), Num (int (length raw)),
              Txt (lit '' bytes)'')]))
      (case utf8_decode raw of
         None \<Rightarrow> raiseE RuntimeError [Txt (lit ''server response not valid UTF-8'')]
       | Some s \<Rightarrow> Inr (rstrip [0x0D, 0x0A] s))"

definition async_read_line :: "nat \<Rightarrow> (exn, ('r) net_scheme, pystr) prog" where
  "async_read_line c =
    tryP (stream_readline c MAX_RESPONSE_LINE_BYTES)
      (\<lambda>e. if isinstance e ValueError
           then raiseP (Exn RuntimeError [Txt (lit ''server response exceeded line length limit'')])
           else raiseP e)
      (\<lambda>raw. if raw = [] then raiseP (Exn ConnectionError [Txt (lit ''server closed connection'')])
             else liftE (async_trim_response_line raw))"

definition close_nowait :: "nat \<Rightarrow> (exn, ('r) net_scheme, unit) prog" where
  "close_nowait c = modP (upd_sock c (\<lambda>k. k\<lparr>sk_open := False\<rparr>))"

text \<open>The handler closes only when \<^verbatim>\<open>write_committed\<close>: not when \<open>encode_lines\<close> raised.\<close>

definition async_command :: "('r) net_scheme command_fn" where
  "async_command c cmd key arg read_timeout =
    bindP (liftE (encode_lines [cmd, key, arg])) (\<lambda>frame.
    seqP (writer_write c frame)
    (on_errorP (seqP (writer_drain c) (async_read_line c)) (close_nowait c)))"

section \<open>Dialling\<close>

text \<open>\<^verbatim>\<open>asyncio.wait_for(asyncio.open_connection(...), timeout)\<close>: a failed handshake closes its own
  transport inside asyncio.\<close>

definition open_connection :: "bool \<Rightarrow> (exn, ('r) net_scheme, nat) prog" where
  "open_connection ssl_context s =
    (case next_dial s of
       (DialFail e, s') \<Rightarrow> (Inl e, s')
     | (WrapFail e, s') \<Rightarrow>
         if ssl_context then (Inl e, s')
         else (Inr (length (socks s')), s'\<lparr>socks := socks s' @ [fresh_sock]\<rparr>)
     | (DialOk, s') \<Rightarrow> (Inr (length (socks s')), s'\<lparr>socks := socks s' @ [fresh_sock]\<rparr>))"

definition async_open_conn ::
  "pyval \<Rightarrow> pyval \<Rightarrow> bool \<Rightarrow> pyval \<Rightarrow> (exn, ('r) net_scheme, nat) prog"
where
  "async_open_conn host port ssl_context connect_timeout_s =
    seqP (liftE (validate_connect_timeout_s connect_timeout_s))
    (bindP (liftE (validate_server_endpoint host port)) (\<lambda>_.
    open_connection ssl_context))"

section \<open>The command functions over \<open>AsyncConn\<close>\<close>

definition async_authenticate :: "nat \<Rightarrow> pystr \<Rightarrow> (exn, ('r) net_scheme, unit) prog" where
  "async_authenticate = authenticate_via async_command"

definition async_acquire ::
  "nat \<Rightarrow> pystr \<Rightarrow> pyval \<Rightarrow> pyval \<Rightarrow> pystr \<Rightarrow> pyval \<Rightarrow> (exn, ('r) net_scheme, pystr \<times> int) prog"
where
  "async_acquire = acquire_via async_command"

definition async_release :: "nat \<Rightarrow> pystr \<Rightarrow> pystr \<Rightarrow> pystr \<Rightarrow> (exn, ('r) net_scheme, unit) prog" where
  "async_release = release_via async_command"

definition async_renew ::
  "nat \<Rightarrow> pystr \<Rightarrow> pystr \<Rightarrow> pyval \<Rightarrow> pystr \<Rightarrow> rat \<Rightarrow> (exn, ('r) net_scheme, int) prog"
where
  "async_renew = renew_via async_command"

definition async_enqueue ::
  "nat \<Rightarrow> pystr \<Rightarrow> pyval \<Rightarrow> pystr \<Rightarrow> pyval \<Rightarrow>
    (exn, ('r) net_scheme, pystr \<times> pystr option \<times> int option) prog"
where
  "async_enqueue = enqueue_via async_command"

definition async_wait :: "nat \<Rightarrow> pystr \<Rightarrow> pyval \<Rightarrow> pystr \<Rightarrow> (exn, ('r) net_scheme, pystr \<times> int) prog" where
  "async_wait = wait_via async_command"

definition async_stats :: "(pystr \<Rightarrow> pyval res) \<Rightarrow> nat \<Rightarrow> (exn, ('r) net_scheme, pyval) prog" where
  "async_stats loads = stats_via loads async_command"

definition async_sem_acquire ::
  "nat \<Rightarrow> pystr \<Rightarrow> pyval \<Rightarrow> pyval \<Rightarrow> pyval \<Rightarrow> (exn, ('r) net_scheme, pystr \<times> int) prog"
where
  "async_sem_acquire conn key acquire_timeout_s limit lease_ttl_s =
    async_acquire conn key acquire_timeout_s lease_ttl_s (lit ''s'') limit"

definition async_sem_release :: "nat \<Rightarrow> pystr \<Rightarrow> pystr \<Rightarrow> (exn, ('r) net_scheme, unit) prog" where
  "async_sem_release conn key token = async_release conn key token (lit ''s'')"

definition async_sem_renew :: "nat \<Rightarrow> pystr \<Rightarrow> pystr \<Rightarrow> pyval \<Rightarrow> (exn, ('r) net_scheme, int) prog" where
  "async_sem_renew conn key token lease_ttl_s = async_renew conn key token lease_ttl_s (lit ''s'') IO_SLACK_S"

definition async_sem_enqueue ::
  "nat \<Rightarrow> pystr \<Rightarrow> pyval \<Rightarrow> pyval \<Rightarrow> (exn, ('r) net_scheme, pystr \<times> pystr option \<times> int option) prog"
where
  "async_sem_enqueue conn key limit lease_ttl_s = async_enqueue conn key lease_ttl_s (lit ''s'') limit"

definition async_sem_wait :: "nat \<Rightarrow> pystr \<Rightarrow> pyval \<Rightarrow> (exn, ('r) net_scheme, pystr \<times> int) prog" where
  "async_sem_wait conn key wait_timeout_s = async_wait conn key wait_timeout_s (lit ''s'')"

section \<open>\<open>AsyncConn\<close> is a line transport\<close>

lemma close_nowait_run: "close_nowait c s = (Inr (), upd_sock c (\<lambda>k. k\<lparr>sk_open := False\<rparr>) s)"
  by (simp add: close_nowait_def)

lemma writer_write_run:
  "writer_write c f s = (x, s') \<Longrightarrow>
    x = Inr () \<and> touches c s s' \<and> conn_open s' d = conn_open s d \<and>
    sent_on s' c = (if conn_open s c then sent_on s c @ [f] else sent_on s c)"
  by (auto simp: writer_write_def conn_open_upd_sock sent_on_upd_sock conn_open_def sent_on_def nth_list_update
      intro!: touches_upd split: if_splits)

lemma writer_drain_run:
  "writer_drain c s = (x, s') \<Longrightarrow>
    touches c s s' \<and> (conn_open s' c \<longleftrightarrow> conn_open s c) \<and> sent_on s' c = sent_on s c \<and>
    (x = Inr () \<longrightarrow> conn_open s c)"
  by (auto simp: writer_drain_def conn_open_upd_sock sent_on_upd_sock touches_ios conn_open_def sent_on_def
      intro!: touches_upd split: if_splits list.splits io_event.splits)

lemma async_read_line_run:
  "async_read_line c s = (x, s') \<Longrightarrow> conn_open s c \<Longrightarrow>
    touches c s s' \<and> conn_open s' c \<and> sent_on s' c = sent_on s c"
  by (auto simp: async_read_line_def stream_readline_def tryP_def bindP_def Let_def conn_open_upd_sock
      sent_on_upd_sock conn_open_def sent_on_def intro!: touches_upd
      split: if_splits option.splits ending.splits prod.splits sum.splits)

lemma async_command_run:
  assumes f: "encode_lines [cmd, key, arg] = Inr f" and run: "async_command c cmd key arg t s = (x, s')"
  shows "touches c s s' \<and> (sent_on s' c = sent_on s c \<or> sent_on s' c = sent_on s c @ [f]) \<and>
    (case x of Inl e \<Rightarrow> \<not> conn_open s' c
     | Inr r \<Rightarrow> conn_open s c \<and> conn_open s' c \<and> sent_on s' c = sent_on s c @ [f])"
proof -
  obtain y1 s1 where s1: "writer_write c f s = (y1, s1)" by (rule prod.exhaust)
  note w = writer_write_run [OF s1]
  obtain y2 s2 where s2: "writer_drain c s1 = (y2, s2)" by (rule prod.exhaust)
  note d = writer_drain_run [OF s2]
  obtain y3 s3 where s3: "async_read_line c s2 = (y3, s3)" by (rule prod.exhaust)
  have y1: "y1 = Inr ()" using w by simp
  have sent2: "sent_on s2 c = (if conn_open s c then sent_on s c @ [f] else sent_on s c)"
    and open2: "y2 = Inr () \<longrightarrow> conn_open s c \<and> conn_open s2 c"
    using w [of c] d by auto
  have t2: "touches c s s2"
  proof (cases "c < length (socks s)")
    case True
    then show ?thesis using w d touches_trans [of c s s1 s2] by auto
  next
    case False
    then have "\<not> conn_open s c" by (simp add: conn_open_def)
    then have "s1 = s" "s2 = s1" using s1 s2 by (simp_all add: writer_write_def writer_drain_def)
    then show ?thesis by simp
  qed
  have closed: ?thesis
    if "x = Inl e" "s' = upd_sock c (\<lambda>k. k\<lparr>sk_open := False\<rparr>) u" "touches c s u" "sent_on u c = sent_on s2 c" for e u
  proof -
    have "sent_on s' c = sent_on u c" "\<not> conn_open s' c"
      unfolding that(2) by (simp_all add: sent_on_upd_sock conn_open_upd_sock sent_on_def)
    moreover have "touches c s s'" unfolding that(2) by (rule touches_close [OF that(3)])
    ultimately show ?thesis using that(1,4) sent2 by simp
  qed
  show ?thesis
  proof (cases y2)
    case (Inl e)
    with run f s1 s2 y1 have "x = Inl e" "s' = upd_sock c (\<lambda>k. k\<lparr>sk_open := False\<rparr>) s2"
      by (simp_all add: async_command_def bindP_liftE tryP_def bindP_def close_nowait_run)
    then show ?thesis using t2 by (rule closed) simp
  next
    case (Inr u)
    then have op: "conn_open s c" "conn_open s2 c" using open2 by simp_all
    note rl = async_read_line_run [OF s3 op(2)]
    have "c < length (socks s)" using op(1) by (simp add: conn_open_def)
    with t2 rl have t3: "touches c s s3" using touches_trans by blast
    show ?thesis
    proof (cases y3)
      case (Inl e)
      with Inr run f s1 s2 s3 y1 have "x = Inl e" "s' = upd_sock c (\<lambda>k. k\<lparr>sk_open := False\<rparr>) s3"
        by (simp_all add: async_command_def bindP_liftE tryP_def bindP_def close_nowait_run)
      then show ?thesis using t3 by (rule closed) (simp add: rl)
    next
      case (Inr r)
      with \<open>y2 = Inr u\<close> run f s1 s2 s3 y1 have "x = Inr r" "s' = s3"
        by (simp_all add: async_command_def bindP_liftE tryP_def bindP_def)
      with t3 rl op sent2 show ?thesis by simp
    qed
  qed
qed

interpretation async: line_transport async_command conn_open sent_on touches
proof
  fix cmd key arg e c t and s :: "('r) net_scheme"
  assume "encode_lines [cmd, key, arg] = Inl e"
  then show "async_command c cmd key arg t s = (Inl e, s)"
    by (simp add: async_command_def bindP_liftE)
next
  fix cmd key arg f c t and s s' :: "('r) net_scheme" and r
  assume "encode_lines [cmd, key, arg] = Inr f" "async_command c cmd key arg t s = (Inr r, s')"
  from async_command_run [OF this]
  show "conn_open s c \<and> conn_open s' c \<and> sent_on s' c = sent_on s c @ [f]" by simp
next
  fix cmd key arg f c t and s s' :: "('r) net_scheme" and e
  assume "encode_lines [cmd, key, arg] = Inr f" "async_command c cmd key arg t s = (Inl e, s')"
  from async_command_run [OF this]
  show "\<not> conn_open s' c \<and> (sent_on s' c = sent_on s c \<or> sent_on s' c = sent_on s c @ [f])" by auto
next
  fix cmd key arg c t and s s' :: "('r) net_scheme" and x
  assume run: "async_command c cmd key arg t s = (x, s')"
  show "touches c s s'"
  proof (cases "encode_lines [cmd, key, arg]")
    case (Inl e)
    with run show ?thesis by (simp add: async_command_def bindP_liftE)
  next
    case (Inr f)
    from async_command_run [OF this run] show ?thesis by simp
  qed
qed simp

end
