(* ===== verification/Wire_Rules.thy ===== *)
theory Wire_Rules
  imports Async_Transport Client_Config
begin

text \<open>
  What a lock object may put on its connections: when it has an auth token, the first frame is the
  \<open>auth\<close> command with that token, and every other frame is one of the five commands of the object's own kind
  about the object's own key.  \<open>keeps J m\<close> says that a program keeps an assertion however it ends; its
  rules take a method apart as it is written.
\<close>

section \<open>The language of a connection\<close>

definition cf_prefix :: "config \<Rightarrow> pystr" where
  "cf_prefix cfg = (case cf_kind cfg of LockKind \<Rightarrow> [] | SemaphoreKind _ \<Rightarrow> lit ''s'')"

definition request_names :: "config \<Rightarrow> pystr list" where
  "request_names cfg = map ((@) (cf_prefix cfg)) [lit ''l'', lit ''r'', lit ''n'', lit ''e'', lit ''w'']"

text \<open>A frame that is one of the object's own commands about its own key, and the \<open>auth\<close> frame.\<close>

definition own_request :: "config \<Rightarrow> byte list \<Rightarrow> bool" where
  "own_request cfg f =
    (case frame_lines f of
       [Some cmd, Some key, Some arg] \<Rightarrow> cmd \<in> set (request_names cfg) \<and> key = cf_key cfg
     | _ \<Rightarrow> False)"

definition auth_request :: "pystr \<Rightarrow> byte list \<Rightarrow> bool" where
  "auth_request tok f \<longleftrightarrow> frame_lines f = map Some [lit ''auth'', lit ''_'', tok]"

definition conforms :: "config \<Rightarrow> byte list list \<Rightarrow> bool" where
  "conforms cfg fs =
    (case cf_auth_token cfg of
       None \<Rightarrow> list_all (own_request cfg) fs
     | Some tok \<Rightarrow> (case fs of [] \<Rightarrow> True | f # r \<Rightarrow> auth_request tok f \<and> list_all (own_request cfg) r))"

text \<open>A connection requests may be sent on.\<close>

definition ready :: "config \<Rightarrow> 'r net_scheme \<Rightarrow> nat \<Rightarrow> bool" where
  "ready cfg s c \<longleftrightarrow> cf_auth_token cfg = None \<or> sent_on s c \<noteq> []"

definition net_ok :: "config \<Rightarrow> 'r net_scheme \<Rightarrow> bool" where
  "net_ok cfg s \<longleftrightarrow> (\<forall>c. conforms cfg (sent_on s c))"

lemma conforms_Nil [simp]: "conforms cfg []"
  by (simp add: conforms_def split: option.split)

lemma conforms_snoc:
  "conforms cfg fs \<Longrightarrow> cf_auth_token cfg = None \<or> fs \<noteq> [] \<Longrightarrow> own_request cfg f \<Longrightarrow> conforms cfg (fs @ [f])"
  by (cases fs) (auto simp: conforms_def split: option.splits)

text \<open>What a request does to the sockets, and what authenticating on a fresh one does.\<close>

definition request :: "config \<Rightarrow> nat \<Rightarrow> 'r net_scheme \<Rightarrow> 'r net_scheme \<Rightarrow> bool" where
  "request cfg c s t \<longleftrightarrow> touches c s t \<and>
    (\<exists>cmd \<in> set (request_names cfg). at_most_frame (sent_on s c) (sent_on t c) cmd (cf_key cfg))"

lemma touches_sent: "touches c s t \<Longrightarrow> d \<noteq> c \<Longrightarrow> sent_on t d = sent_on s d"
  by (auto simp: touches_def sent_on_def)

lemma sent_upd_same:
  assumes "\<And>k. sk_sent (g k) = sk_sent k"
  shows "sent_on (upd_sock c g s) = sent_on s"
proof
  fix d
  show "sent_on (upd_sock c g s) d = sent_on s d"
    unfolding sent_on_upd_sock by (auto simp: sent_on_def assms)
qed

lemma request_net_ok:
  assumes "net_ok cfg s" "ready cfg s c" "request cfg c s t"
  shows "net_ok cfg t \<and> (\<forall>d. ready cfg t d = ready cfg s d)"
proof -
  have c: "conforms cfg (sent_on t c) \<and> ready cfg t c"
    using assms by (auto simp: request_def at_most_frame_def net_ok_def ready_def own_request_def intro!: conforms_snoc)
  have "sent_on t d = sent_on s d" if "d \<noteq> c" for d using that assms(3) by (auto simp: request_def dest: touches_sent)
  with c assms(1,2) show ?thesis unfolding net_ok_def ready_def by metis
qed

lemma auth_net_ok:
  assumes "net_ok cfg s" "cf_auth_token cfg = Some tok" "sent_on s c = []" "touches c s t"
    and "sent_on t c = [] \<or> (\<exists>f. sent_on t c = [f] \<and> auth_request tok f)"
  shows "net_ok cfg t \<and> (\<forall>d. ready cfg s d \<longrightarrow> ready cfg t d)"
proof -
  have c: "conforms cfg (sent_on t c)" using assms(2,5) by (auto simp: conforms_def)
  have other: "sent_on t d = sent_on s d" if "d \<noteq> c" for d by (rule touches_sent [OF assms(4) that])
  have "\<not> ready cfg s c" using assms(2,3) by (simp add: ready_def)
  with c other assms(1) show ?thesis unfolding net_ok_def ready_def by metis
qed

section \<open>Programs that keep an assertion\<close>

definition keeps :: "('s \<Rightarrow> bool) \<Rightarrow> ('e, 's, 'a) prog \<Rightarrow> bool" where
  "keeps J m \<longleftrightarrow> (\<forall>s. J s \<longrightarrow> wp m (\<lambda>_. J) (\<lambda>_. J) s)"

named_theorems keeps

lemma keepsI: "(\<And>s. J s \<Longrightarrow> wp m (\<lambda>_. J) (\<lambda>_. J) s) \<Longrightarrow> keeps J m"
  by (simp add: keeps_def)

lemma keepsD: "keeps J m \<Longrightarrow> J s \<Longrightarrow> wp m (\<lambda>_. J) (\<lambda>_. J) s"
  by (simp add: keeps_def)

lemma keeps_final: "keeps J m \<Longrightarrow> J s \<Longrightarrow> J (snd (m s))"
  by (cases "m s"; cases "fst (m s)") (auto dest!: keepsD simp: wp_def)

lemma wp_keeps_bind:
  "wp m (\<lambda>_. J) (\<lambda>_. J) s \<Longrightarrow> (\<And>a. keeps J (f a)) \<Longrightarrow> wp (bindP m f) (\<lambda>_. J) (\<lambda>_. J) s"
  unfolding wp_bindP by (erule wp_mono) (simp_all add: keeps_def)

lemma keeps_bind [keeps]: "keeps J m \<Longrightarrow> (\<And>a. keeps J (f a)) \<Longrightarrow> keeps J (bindP m f)"
  by (rule keepsI, rule wp_keeps_bind) (simp_all add: keepsD)

lemma wp_keeps_try:
  "wp m (\<lambda>_. J) (\<lambda>_. J) s \<Longrightarrow> (\<And>e. keeps J (h e)) \<Longrightarrow> (\<And>a. keeps J (k a)) \<Longrightarrow> wp (tryP m h k) (\<lambda>_. J) (\<lambda>_. J) s"
  unfolding wp_tryP by (erule wp_mono) (simp_all add: keeps_def)

lemma keeps_try [keeps]:
  "keeps J m \<Longrightarrow> (\<And>e. keeps J (h e)) \<Longrightarrow> (\<And>a. keeps J (k a)) \<Longrightarrow> keeps J (tryP m h k)"
  unfolding keeps_def wp_tryP by (blast intro: wp_mono)

lemma keeps_basic [keeps]:
  "keeps J (retP a)" "keeps J (raiseP e)" "keeps J (liftE r)" "keeps J (getP g)"
  by (simp_all add: keeps_def wp_simps split: sum.split)

lemma keeps_modP: "(\<And>s. J s \<Longrightarrow> J (g s)) \<Longrightarrow> keeps J (modP g)"
  by (simp add: keeps_def wp_simps)

lemma keeps_if [keeps]: "keeps J m \<Longrightarrow> keeps J n \<Longrightarrow> keeps J (if b then m else n)"
  by simp

lemma keeps_when [keeps]: "keeps J m \<Longrightarrow> keeps J (whenP b m)"
  by (simp add: whenP_def keeps_basic)

lemma keeps_option [keeps]:
  "keeps J m \<Longrightarrow> (\<And>a. keeps J (f a)) \<Longrightarrow> keeps J (case x of None \<Rightarrow> m | Some a \<Rightarrow> f a)"
  by (cases x) simp_all

lemma keeps_prod [keeps]: "(\<And>a b. keeps J (f a b)) \<Longrightarrow> keeps J (case p of (a, b) \<Rightarrow> f a b)"
  by (cases p) simp

text \<open>\<open>follows J R s t\<close>: the assertion is kept from \<open>s\<close> to \<open>t\<close>, and \<open>R\<close> holds of the same connections.  The
  locale is the contract of background activity: what one step of it keeps, any number of steps does.\<close>

definition follows :: "('s \<Rightarrow> bool) \<Rightarrow> ('s \<Rightarrow> nat \<Rightarrow> bool) \<Rightarrow> 's \<Rightarrow> 's \<Rightarrow> bool" where
  "follows J R s t \<longleftrightarrow> (J s \<longrightarrow> J t \<and> (\<forall>c. R t c = R s c))"

lemma follows_refl: "follows J R s s"
  by (simp add: follows_def)

lemma follows_trans: "follows J R s t \<Longrightarrow> follows J R t u \<Longrightarrow> follows J R s u"
  by (simp add: follows_def)

lemma keeps_follows: "(\<And>s. follows J R s (g s)) \<Longrightarrow> keeps J (modP g)"
  by (rule keeps_modP) (simp add: follows_def)

locale background =
  fixes J :: "'s \<Rightarrow> bool" and R :: "'s \<Rightarrow> nat \<Rightarrow> bool" and tick :: "nat \<Rightarrow> 's \<Rightarrow> 's"
  assumes tick_follows: "follows J R s (tick w s)"
begin

lemma fold_follows: "follows J R s (fold tick ws s)"
  by (induction ws arbitrary: s) (auto intro: follows_refl follows_trans [OF tick_follows])

lemma iterate_follows: "follows J R s ((tick w ^^ n) s)"
  by (induction n) (auto intro: follows_refl follows_trans [OF _ tick_follows])

end

section \<open>Dialling\<close>

lemma open_socket_sent:
  "open_socket tls tm s = (x, t) \<Longrightarrow> sent_on t = sent_on s \<and> (\<forall>c. x = Inr c \<longrightarrow> sent_on t c = [])"
proof -
  assume run: "open_socket tls tm s = (x, t)"
  have new: "sent_on (s\<lparr>dials := ds, socks := socks s @ [fresh_sock]\<rparr>) = sent_on s" for ds
    by (auto simp: fun_eq_iff sent_on_def nth_append fresh_sock_def)
  have out: "sent_on s (length (socks s)) = []" by (simp add: sent_on_def)
  show ?thesis
  proof (cases "dials s")
    case Nil
    with run show ?thesis by (auto simp: open_socket_def next_dial_def)
  next
    case (Cons d ds)
    define s1 where "s1 = s\<lparr>dials := ds, socks := socks s @ [fresh_sock]\<rparr>"
    obtain y s2 where y: "wrap_ssl d (length (socks s)) tls tm s1 = (y, s2)" by (rule prod.exhaust)
    note w = wrap_ssl_run [OF y]
    have old: "sent_on (s\<lparr>dials := ds\<rparr>) = sent_on s" by (simp add: fun_eq_iff sent_on_def)
    show ?thesis
      using run Cons y w new [of ds, folded s1_def] out old
      by (cases d; cases y) (auto simp: open_socket_def next_dial_def tryP_def bindP_def conn_close_run
          sent_upd_same s1_def [symmetric])
  qed
qed


lemma open_connection_sent:
  "open_connection tls s = (x, t) \<Longrightarrow> sent_on t = sent_on s \<and> (\<forall>c. x = Inr c \<longrightarrow> sent_on t c = [])"
  by (auto simp: open_connection_def next_dial_def fun_eq_iff sent_on_def nth_append fresh_sock_def
      split: list.splits dial_event.splits if_splits)

lemma open_connection_attrs:
  "open_connection tls s = (x, t) \<Longrightarrow> \<exists>ds ks. t = s\<lparr>dials := ds, socks := ks\<rparr>"
  by (cases s; cases "dials s") (auto simp: open_connection_def next_dial_def split: dial_event.splits if_splits)

end
