(* ===== verification/Sync_Mutex.thy ===== *)
theory Sync_Mutex
  imports Sync_Properties Wire_Rules
begin

text \<open>
  \<open>_io_lock\<close> excludes, whatever the joins do: the assertion \<open>excl\<close> ties the lock to the program counters of
  all threads an object ever started, is stable under every thread and kept by every method, also when a
  \<open>join(timeout=5)\<close> times out and a thread of an earlier attempt lingers.
\<close>

section \<open>The assertion and the steps of a thread\<close>

text \<open>\<open>b\<close>: the caller owns the lock.\<close>

definition excl :: "bool \<Rightarrow> lock \<Rightarrow> bool" where
  "excl b s \<longleftrightarrow> (l_io_lock s = Some 0 \<longleftrightarrow> b) \<and>
    (\<forall>w < length (l_workers s). holding (w_pc (l_workers s ! w)) \<longleftrightarrow> l_io_lock s = Some (Suc w)) \<and>
    (\<forall>w. l_io_lock s = Some (Suc w) \<longrightarrow> w < length (l_workers s))"

lemma excl_same: "l_io_lock t = l_io_lock s \<Longrightarrow> l_workers t = l_workers s \<Longrightarrow> excl b t = excl b s"
  by (simp add: excl_def)

lemma excl_attrs [simp]:
  "excl b (s\<lparr>l_conn := c\<rparr>) = excl b s" "excl b (s\<lparr>l_token := tk\<rparr>) = excl b s" "excl b (s\<lparr>l_lease := n\<rparr>) = excl b s"
  "excl b (s\<lparr>l_sched := q\<rparr>) = excl b s" "excl b (s\<lparr>l_joins := j\<rparr>) = excl b s"
  by (simp_all add: excl_def)

lemma excl_goto:
  "excl b s \<Longrightarrow> w < length (l_workers s) \<Longrightarrow> holding pc = holding (w_pc (l_workers s ! w)) \<Longrightarrow> excl b (w_goto w pc s)"
  by (auto simp: excl_def w_goto_def nth_list_update)

lemma excl_leave:
  "excl b s \<Longrightarrow> w < length (l_workers s) \<Longrightarrow> holding (w_pc (l_workers s ! w)) \<Longrightarrow> \<not> holding pc \<Longrightarrow> excl b (w_leave w pc s)"
  by (auto simp: excl_def w_leave_def w_goto_def nth_list_update)

lemma excl_take:
  "excl b s \<Longrightarrow> w < length (l_workers s) \<Longrightarrow> l_io_lock s = None \<Longrightarrow> holding pc \<Longrightarrow>
    excl b (w_goto w pc (s\<lparr>l_io_lock := Some (Suc w)\<rparr>))"
  by (auto simp: excl_def w_goto_def nth_list_update)

lemma excl_step: "excl b s \<Longrightarrow> excl b (worker_step cfg w s)"
proof (cases "w < length (l_workers s)")
  case True
  assume s: "excl b s"
  note rules = excl_goto excl_leave
  show ?thesis
  proof (cases "w_pc (l_workers s ! w)")
    case (W_Io c tok)
    obtain x t where run: "proto_renew cfg c tok s = (x, t)" by fastforce
    note same = touches_attrs [OF proto_renew_run [OF run]]
    have t: "excl b t" "w < length (l_workers t)" "w_pc (l_workers t ! w) = W_Io c tok"
      using s True W_Io same excl_same [of t s] by simp_all
    have log: "excl b (log_renew_failure cfg e t)" "l_workers (log_renew_failure cfg e t) = l_workers t" for e
      using t(1) excl_same [of "log_renew_failure cfg e t" t] by (simp_all add: log_renew_failure_def)
    show ?thesis
      using True W_Io run t log
      by (auto simp: worker_step_def safe_renew_once_def split: sum.split intro!: rules)
  next
    case (W_FailClose c)
    have "excl b (upd_sock c f s)" "l_workers (upd_sock c f s) = l_workers s" for f
      using s by (simp_all add: excl_def upd_sock_def)
    with True W_FailClose show ?thesis by (auto simp: worker_step_def conn_close_run intro!: rules)
  next
    case W_Tick
    with s True show ?thesis by (simp add: worker_step_def excl_take)
  next
    case (W_Ret r)
    with s True show ?thesis by (cases r) (auto simp: worker_step_def Let_def intro!: rules)
  qed (use s True in \<open>auto simp: worker_step_def Let_def split: option.split intro!: rules\<close>)
qed (simp add: worker_step_def)

interpretation lock_threads: background "excl b" "\<lambda>_ _. True" "worker_step cfg" for b cfg
  by unfold_locales (simp add: follows_def excl_step)

lemma excl_fold: "excl b s \<Longrightarrow> excl b (fold (worker_step cfg) ws s)"
  using lock_threads.fold_follows unfolding follows_def by blast

lemma excl_iterate: "excl b s \<Longrightarrow> excl b ((worker_step cfg w ^^ n) s)"
  using lock_threads.iterate_follows unfolding follows_def by blast

lemma excl_burst: "excl b s \<Longrightarrow> excl b (burst cfg s)"
  by (cases "l_sched s") (simp_all add: burst_def excl_fold)

section \<open>Blocking on the lock\<close>

text \<open>The owner leaves the lock within its next steps, whichever thread it is.\<close>

lemma holder_leaves:
  "w < length (l_workers s) \<Longrightarrow> holding (w_pc (l_workers s ! w)) \<Longrightarrow>
    hold_rank (w_pc (l_workers (worker_step cfg w s) ! w)) < hold_rank (w_pc (l_workers s ! w))"
proof (cases "w_pc (l_workers s ! w)")
  case (W_Io c tok)
  assume w: "w < length (l_workers s)"
  obtain x t where run: "proto_renew cfg c tok s = (x, t)" by fastforce
  note same = touches_attrs [OF proto_renew_run [OF run]]
  have "l_workers (log_renew_failure cfg e t) = l_workers t" for e by (simp add: log_renew_failure_def)
  then show ?thesis
    using w W_Io run same
    by (auto simp: worker_step_def safe_renew_once_def w_leave_def w_goto_def split: sum.split)
qed (auto simp: worker_step_def Let_def w_leave_def w_goto_def conn_close_run upd_sock_def split: option.split)

lemma worker_others:
  "length (l_workers (worker_step cfg w s)) = length (l_workers s) \<and>
    (v \<noteq> w \<longrightarrow> l_workers (worker_step cfg w s) ! v = l_workers s ! v)"
proof (cases "w_pc (l_workers s ! w)")
  case (W_Io c tok)
  obtain x t where run: "proto_renew cfg c tok s = (x, t)" by fastforce
  note same = touches_attrs [OF proto_renew_run [OF run]]
  have "l_workers (log_renew_failure cfg e t) = l_workers t" for e by (simp add: log_renew_failure_def)
  then show ?thesis
    using W_Io run same by (auto simp: worker_step_def safe_renew_once_def w_leave_def w_goto_def split: sum.split)
qed (auto simp: worker_step_def Let_def w_leave_def w_goto_def conn_close_run upd_sock_def split: option.split)

definition owner_rank :: "lock \<Rightarrow> nat" where
  "owner_rank s = (case l_io_lock s of None \<Rightarrow> 0 | Some owner \<Rightarrow> hold_rank (w_pc (l_workers s ! (owner - 1))))"

definition turns_left :: "lock \<Rightarrow> nat" where
  "turns_left s = length (l_sched s) + (if l_sched s = [] then owner_rank s else 8)"

lemma excl_owner: "excl False s \<Longrightarrow> l_io_lock s = Some owner \<Longrightarrow>
    owner - 1 < length (l_workers s) \<and> holding (w_pc (l_workers s ! (owner - 1))) \<and> owner = Suc (owner - 1)"
  by (cases owner) (auto simp: excl_def)

lemma owner_rank_step:
  assumes "excl False s" "l_io_lock s = Some owner"
  shows "owner_rank (worker_step cfg (owner - 1) s) < owner_rank s"
proof -
  let ?t = "worker_step cfg (owner - 1) s"
  note own = excl_owner [OF assms]
  have less: "hold_rank (w_pc (l_workers ?t ! (owner - 1))) < hold_rank (w_pc (l_workers s ! (owner - 1)))"
    using own by (intro holder_leaves) simp_all
  have "l_io_lock ?t = None \<or> l_io_lock ?t = Some owner"
  proof (cases "l_io_lock ?t")
    case (Some other)
    have t: "excl False ?t" using assms(1) by (rule excl_step)
    show ?thesis
    proof (rule ccontr)
      assume "\<not> ?thesis"
      then have "other \<noteq> owner" using Some by simp
      moreover have "other - 1 < length (l_workers ?t)" "holding (w_pc (l_workers ?t ! (other - 1)))" "other = Suc (other - 1)"
        using excl_owner [OF t Some] by simp_all
      moreover have "length (l_workers ?t) = length (l_workers s)" using worker_others by blast
      moreover have "l_workers ?t ! v = l_workers s ! v" if "v \<noteq> owner - 1" for v
        using that worker_others by blast
      ultimately have "holding (w_pc (l_workers s ! (other - 1)))" "other - 1 < length (l_workers s)" "other - 1 \<noteq> owner - 1"
        using own by auto
      with assms own show False by (auto simp: excl_def)
    qed
  qed simp
  with less assms(2) show ?thesis by (auto simp: owner_rank_def)
qed

lemma owner_rank_le: "owner_rank s \<le> 8"
proof (cases "l_io_lock s")
  case (Some owner)
  then show ?thesis using hold_rank_le [of "w_pc (l_workers s ! (owner - 1))"] by (simp add: owner_rank_def)
qed (simp add: owner_rank_def)

lemma excl_wait_io:
  "excl False s \<Longrightarrow> turns_left s \<le> n \<Longrightarrow> excl False (wait_io cfg n s) \<and> l_io_lock (wait_io cfg n s) = None"
proof (induction n arbitrary: s)
  case 0
  have "l_io_lock s = None"
  proof (cases "l_io_lock s")
    case (Some owner)
    from owner_rank_step [OF 0(1) Some, of undefined] 0(2) show ?thesis by (auto simp: turns_left_def split: if_splits)
  qed
  with 0 show ?case by simp
next
  case (Suc n)
  show ?case
  proof (cases "l_io_lock s")
    case None
    with Suc.prems show ?thesis by simp
  next
    case (Some owner)
    define u where "u = burst cfg (worker_step cfg (owner - 1) s)"
    have "excl False u" unfolding u_def by (intro excl_burst excl_step Suc.prems)
    moreover have "turns_left u \<le> n"
    proof (cases "l_sched s")
      case Nil
      then have "u = worker_step cfg (owner - 1) s" by (simp add: u_def burst_def)
      with Nil owner_rank_step [OF Suc.prems(1) Some, of cfg] Suc.prems(2) show ?thesis by (simp add: turns_left_def)
    next
      case (Cons ws r)
      then have "l_sched u = r" by (simp add: u_def)
      with Cons Suc.prems(2) owner_rank_le [of u] show ?thesis by (auto simp: turns_left_def)
    qed
    ultimately show ?thesis using Suc.IH Some by (simp add: u_def)
  qed
qed

lemma turns_left_bound: "turns_left s \<le> length (l_sched s) + 8"
  using owner_rank_le [of s] by (simp add: turns_left_def)

section \<open>Every method keeps it\<close>

lemma excl_interfere [keeps]: "keeps (excl b) (interfere cfg)"
  unfolding interfere_def by (rule keeps_modP) (rule excl_burst)

lemma excl_rd [keeps]: "keeps (excl b) (rd cfg g)"
  unfolding rd_def by (intro keeps)

lemma excl_modP: "(\<And>s. l_io_lock (g s) = l_io_lock s \<and> l_workers (g s) = l_workers s) \<Longrightarrow> keeps (excl b) (modP g)"
  by (rule keeps_modP) (metis excl_same)

lemma excl_wr: "(\<And>s. l_io_lock (g s) = l_io_lock s \<and> l_workers (g s) = l_workers s) \<Longrightarrow> keeps (excl b) (wr cfg g)"
  unfolding wr_def by (intro keeps excl_modP)

lemma excl_touches:
  assumes "\<And>s x t. m s = (x, t) \<Longrightarrow> touches c s t"
  shows "keeps (excl b) m"
proof (rule keepsI)
  fix s
  assume s: "excl b s"
  obtain x t where run: "m s = (x, t)" by fastforce
  have "excl b t" using s touches_attrs [OF assms [OF run]] excl_same [of t s] by simp
  with run show "wp m (\<lambda>_. excl b) (\<lambda>_. excl b) s" by (simp add: wp_def split: sum.split)
qed

lemma excl_requests [keeps]:
  "keeps (excl b) (proto_acquire cfg c)" "keeps (excl b) (proto_enqueue cfg c)" "keeps (excl b) (proto_wait cfg c tm)"
  "keeps (excl b) (proto_release cfg c tok)" "keeps (excl b) (authenticate c tok)"
  by (rule excl_touches, erule proto_touches)+
    (rule excl_touches, auto simp: authenticate_def dest: sync.authenticate_effect simp del: lit_Cons)

lemma excl_sockets [keeps]: "keeps (excl b) (conn_close c)" "keeps (excl b) (shutdown_read c)"
  unfolding conn_close_def shutdown_read_def by (rule excl_modP, simp add: upd_sock_def)+

lemma excl_open_conn [keeps]: "keeps (excl b) (open_conn h p tls tm)"
proof -
  have "keeps (excl b) (open_socket tls n)" for n
  proof (rule keepsI)
    fix s
    assume s: "excl b s"
    obtain x t where run: "open_socket tls n s = (x, t)" by fastforce
    from open_socket_frame [OF this] s have "excl b t" by (auto simp: excl_def)
    with run show "wp (open_socket tls n) (\<lambda>_. excl b) (\<lambda>_. excl b) s" by (simp add: wp_def split: sum.split)
  qed
  then show ?thesis unfolding open_conn_def by (intro keeps)
qed

lemma excl_with_io_lock [keeps]:
  assumes "keeps (excl True) m"
  shows "keeps (excl False) (with_io_lock cfg m)"
proof (rule keepsI)
  fix s
  assume s: "excl False s"
  define u where "u = burst cfg s"
  have u: "excl False u" unfolding u_def using s by (rule excl_burst)
  from excl_wait_io [OF u turns_left_bound, of cfg]
  have "excl True ((wait_io cfg (length (l_sched u) + 8) u)\<lparr>l_io_lock := Some 0\<rparr>)" by (simp add: excl_def)
  from keepsD [OF assms this]
  have "wp m (\<lambda>_. excl True) (\<lambda>_. excl True) ((wait_io cfg (length (l_sched u) + 8) u)\<lparr>l_io_lock := Some 0\<rparr>)" .
  then have "wp m (\<lambda>_ t. excl False (t\<lparr>l_io_lock := None\<rparr>)) (\<lambda>_ t. excl False (t\<lparr>l_io_lock := None\<rparr>))
      ((wait_io cfg (length (l_sched u) + 8) u)\<lparr>l_io_lock := Some 0\<rparr>)"
    by (rule wp_mono) (auto simp: excl_def)
  then show "wp (with_io_lock cfg m) (\<lambda>_. excl False) (\<lambda>_. excl False) s"
    by (simp add: with_io_lock_def interfere_def wp_bindP_fun wp_modP_fun wp_raiseP_fun wp_retP_fun wp_tryP u_def)
qed

lemma excl_join [keeps]: "keeps (excl b) (join_thread cfg t)"
proof -
  have "excl b (case l_joins s of False # r \<Rightarrow> s\<lparr>l_joins := r\<rparr>
      | _ \<Rightarrow> (worker_step cfg t ^^ 16) (s\<lparr>l_joins := tl (l_joins s)\<rparr>))" if "excl b s" for s
  proof -
    have "excl b (s\<lparr>l_joins := r\<rparr>)" for r using that by (simp add: excl_def)
    then show ?thesis by (auto intro: excl_iterate split: list.split bool.split)
  qed
  then show ?thesis unfolding join_thread_def by (intro keeps keeps_modP)
qed

lemma excl_start_renew [keeps]: "keeps (excl b) (start_renew cfg)"
  unfolding start_renew_def wr_def
  by (intro keeps keeps_modP) (auto simp: excl_def nth_append less_Suc_eq)

lemma excl_close [keeps]:
  "keeps (excl False) (close_unlocked cfg)" "keeps (excl False) (stop_renew cfg)"
  "keeps (excl False) (reset_for_new_attempt cfg)"
proof -
  show close: "keeps (excl False) (close_unlocked cfg)"
    unfolding close_unlocked_def begin_close_def tear_down_conn_and_thread_def shutdown_and_close_conn_def
      join_renew_thread_def clear_held_state_def set_stop_event_def
    by (intro keeps excl_wr) simp_all
  show stop: "keeps (excl False) (stop_renew cfg)"
    unfolding stop_renew_def set_stop_event_def by (intro keeps excl_wr) simp_all
  show "keeps (excl False) (reset_for_new_attempt cfg)"
    unfolding reset_for_new_attempt_def by (intro keeps close stop excl_wr) simp_all
qed

lemma excl_set_held [keeps]: "keeps (excl b) (set_held cfg tok lease)"
  unfolding set_held_def by (intro keeps excl_wr) simp_all

lemma excl_require [keeps]: "keeps (excl b) (require_conn cfg)" "keeps (excl b) (require_conn_for_wait cfg)"
  unfolding require_conn_def require_conn_for_wait_def by (intro keeps)+

lemma excl_open [keeps]: "keeps (excl b) (open_and_authenticate cfg)"
  unfolding open_and_authenticate_def maybe_authenticate_def by (intro keeps excl_wr) simp_all

lemma excl_release [keeps]: "keeps (excl False) (release_unlocked cfg)"
proof -
  have "keeps (excl True) (send_release_quietly cfg)"
    unfolding send_release_quietly_def safe_release_def
    by (intro keepsI) (auto intro!: keepsD [of "excl True"] keeps excl_modP split: option.split)
  then show ?thesis unfolding release_unlocked_def by (intro keeps)
qed

lemma excl_methods [keeps]:
  "keeps (excl False) (acquire_unlocked cfg)" "keeps (excl False) (enqueue_unlocked cfg)"
  "keeps (excl False) (wait_unlocked cfg tm)" "keeps (excl False) (enter cfg)" "keeps (excl False) (exit cfg)"
proof -
  show "keeps (excl False) (acquire_unlocked cfg)"
    unfolding acquire_unlocked_def invoke_acquire_def by (intro keeps)
  then show "keeps (excl False) (enter cfg)" unfolding enter_def by (intro keeps)
  show "keeps (excl False) (enqueue_unlocked cfg)"
    unfolding enqueue_unlocked_def invoke_enqueue_def handle_enqueue_status_def by (intro keeps)
  show "keeps (excl False) (wait_unlocked cfg tm)"
    unfolding wait_unlocked_def invoke_wait_def by (intro keeps)
  show "keeps (excl False) (exit cfg)" unfolding exit_def by (intro keeps excl_modP) simp_all
qed

lemma excl_sync_step:
  assumes "sync_step cfg s s'" "excl False s"
  shows "excl False s'"
  using assms(1)
proof cases
  case (api a)
  have "excl False (run_api cfg a s)"
    by (cases a; simp add: run_api_def; rule keeps_final; (rule keeps assms(2))?)
  with api show ?thesis by simp
next
  case (renewal w)
  with assms(2) show ?thesis by (simp add: excl_step)
qed

lemma excl_init: "excl False (init_lock ios0 dials0 sched joins)"
  by (simp add: excl_def init_lock_def)

section \<open>Exclusion\<close>

text \<open>
  C9. \<open>_io_lock\<close> excludes: after every sequence of calls and thread steps on a new object, under every
  schedule and network and also when joins with a renewal thread time out, a thread is inside the locked
  section of a tick exactly when it owns the lock, so at most one is, and between the calls the
  lock is never left to a caller.  If no \<open>join(timeout=5)\<close> times out, at most one of the threads the object
  ever started has not ended, namely the one its attribute names.
\<close>

theorem renewal_threads_exclusive:
  assumes "(sync_step cfg)\<^sup>*\<^sup>* (init_lock ios0 dials0 sched joins) s" "w < length (l_workers s)"
  shows "(holding (w_pc (l_workers s ! w)) \<longleftrightarrow> l_io_lock s = Some (Suc w)) \<and> l_io_lock s \<noteq> Some 0 \<and>
    (set joins \<subseteq> {True} \<longrightarrow> w_pc (l_workers s ! w) \<noteq> W_Done \<longrightarrow> l_renew_thread s = Some w)"
proof -
  from assms(1) have "excl False s"
    by (induction rule: rtranclp_induct) (auto intro: excl_init excl_sync_step)
  moreover have "sync_reachable cfg s" if "set joins \<subseteq> {True}"
    using assms(1) by (induction rule: rtranclp_induct) (rule sync_reachable.init [OF that], erule (1) sync_reachable.step)
  ultimately show ?thesis using assms(2) one_renewal_thread by (auto simp: excl_def)
qed

theorem renewal_threads_exclusive_witness:
  "\<exists>w < length (l_workers sample_held). w_pc (l_workers sample_held ! w) = W_Init \<and>
    l_renew_thread sample_held = Some w \<and> l_io_lock sample_held \<noteq> Some (Suc w)"
proof -
  obtain w where w: "w < length (l_workers sample_held)" "w_pc (l_workers sample_held ! w) = W_Init"
    using sample_thread by blast
  have "sample_held = run_api sample_config Acquire sample_lock"
    by (simp add: run_api_def sample_held(8))
  then have "(sync_step sample_config)\<^sup>*\<^sup>* (init_lock [Io (grant_bytes (lit ''ab12'') 33 @ [0x0A]) Eof] [DialOk] [] []) sample_held"
    using sync_step.api [of sample_config sample_lock Acquire] by (simp add: sample_lock_def r_into_rtranclp)
  from renewal_threads_exclusive [OF this w(1)] w show ?thesis by auto
qed

end
