(* ===== verification/Sync_Wire.thy ===== *)
theory Sync_Wire
  imports Sync_Properties Wire_Rules
begin

text \<open>
  What the sync objects send: the invariant \<open>wire_inv\<close> says that every connection conforms and that those a
  request may use next are authenticated; it is stable under the renewal threads and kept by every method.
\<close>

section \<open>The sync object\<close>

definition wire_inv :: "config \<Rightarrow> lock \<Rightarrow> bool" where
  "wire_inv cfg s \<longleftrightarrow> net_ok cfg s \<and> (\<forall>c. l_conn s = Some c \<longrightarrow> ready cfg s c) \<and>
    (\<forall>w \<in> set (l_workers s). \<forall>c tok. w_pc w = W_Io c tok \<longrightarrow> ready cfg s c)"

lemma sent_on_attrs [simp]:
  "sent_on (s\<lparr>l_conn := a\<rparr>) = sent_on s" "sent_on (s\<lparr>l_token := b\<rparr>) = sent_on s"
  "sent_on (s\<lparr>l_lease := n\<rparr>) = sent_on s" "sent_on (s\<lparr>l_renew_thread := d\<rparr>) = sent_on s"
  "sent_on (s\<lparr>l_stop_event := e\<rparr>) = sent_on s" "sent_on (s\<lparr>l_closed := f\<rparr>) = sent_on s"
  "sent_on (s\<lparr>l_io_lock := g\<rparr>) = sent_on s" "sent_on (s\<lparr>l_events := h\<rparr>) = sent_on s"
  "sent_on (s\<lparr>l_workers := i\<rparr>) = sent_on s" "sent_on (s\<lparr>l_sched := j\<rparr>) = sent_on s"
  "sent_on (s\<lparr>l_joins := k\<rparr>) = sent_on s" "sent_on (s\<lparr>l_log := l\<rparr>) = sent_on s"
  by (simp_all add: fun_eq_iff sent_on_def)

lemmas wire_simps = wire_inv_def net_ok_def ready_def

abbreviation sync_follows :: "config \<Rightarrow> lock \<Rightarrow> lock \<Rightarrow> bool" where
  "sync_follows cfg \<equiv> follows (wire_inv cfg) (ready cfg)"

text \<open>Only the connection, the program counters and the sockets count.\<close>

lemma follows_same:
  "sent_on t = sent_on s \<Longrightarrow> l_conn t \<in> {l_conn s, None} \<Longrightarrow> l_workers t = l_workers s \<Longrightarrow> sync_follows cfg s t"
  by (auto simp: follows_def wire_simps)

lemma follows_upd_sock:
  assumes "\<And>k. sk_sent (g k) = sk_sent k"
  shows "sync_follows cfg s (upd_sock c g s)"
  by (rule follows_same [OF sent_upd_same [OF assms]]) (simp_all add: upd_sock_def)

lemma keeps_sync: "(\<And>s. sync_follows cfg s (g s)) \<Longrightarrow> keeps (wire_inv cfg) (modP g)"
  by (rule keeps_follows)

lemma follows_goto:
  assumes "\<And>c tok. pc = W_Io c tok \<Longrightarrow> wire_inv cfg s \<Longrightarrow> ready cfg s c"
  shows "sync_follows cfg s (w_goto w pc s)"
proof (cases "w < length (l_workers s)")
  case True
  have "set (l_workers (w_goto w pc s)) \<subseteq> insert ((l_workers s ! w)\<lparr>w_pc := pc\<rparr>) (set (l_workers s))"
    by (simp add: w_goto_def set_update_subset_insert)
  then have elem: "w_pc x = pc \<or> x \<in> set (l_workers s)" if "x \<in> set (l_workers (w_goto w pc s))" for x
    using that by auto
  moreover have "net_ok cfg (w_goto w pc s) = net_ok cfg s" "ready cfg (w_goto w pc s) c = ready cfg s c"
    "l_conn (w_goto w pc s) = l_conn s" for c
    by (simp_all add: w_goto_def wire_simps)
  ultimately show ?thesis using assms by (auto simp: follows_def wire_inv_def dest!: elem)
next
  case False
  then show ?thesis by (simp add: w_goto_def follows_def list_update_beyond)
qed

lemma follows_leave:
  assumes "\<And>c tok. pc \<noteq> W_Io c tok"
  shows "sync_follows cfg s (w_leave w pc s)"
  unfolding w_leave_def
proof (rule follows_trans)
  show "sync_follows cfg s (s\<lparr>l_io_lock := None\<rparr>)" by (rule follows_same) simp_all
  show "sync_follows cfg (s\<lparr>l_io_lock := None\<rparr>) (w_goto w pc (s\<lparr>l_io_lock := None\<rparr>))"
    by (rule follows_goto) (use assms in simp)
qed

lemma follows_request: "wire_inv cfg s \<Longrightarrow> ready cfg s c \<Longrightarrow> request cfg c s t \<Longrightarrow> sync_follows cfg s t"
  using request_net_ok [of cfg s c t] touches_attrs [of c s t]
  by (auto simp: follows_def wire_inv_def request_def)

lemma proto_request:
  "proto_acquire cfg c s = (x, t) \<Longrightarrow> request cfg c s t"
  "proto_enqueue cfg c s = (y, t) \<Longrightarrow> request cfg c s t"
  "proto_wait cfg c tm s = (x, t) \<Longrightarrow> request cfg c s t"
  "proto_release cfg c tok s = (z, t) \<Longrightarrow> request cfg c s t"
  "proto_renew cfg c tok s = (u, t) \<Longrightarrow> request cfg c s t"
  unfolding proto_defs request_def request_names_def cf_prefix_def
  by (cases "cf_kind cfg"; auto dest!: sync.acquire_effect sync.enqueue_effect sync.wait_effect
      sync.release_effect sync.renew_effect simp del: lit_Cons)+

lemma follows_step: "sync_follows cfg s (worker_step cfg w s)"
proof (cases "wire_inv cfg s \<and> w < length (l_workers s)")
  case True
  note goto = follows_trans [OF follows_same follows_goto]
  show ?thesis
  proof (cases "w_pc (l_workers s ! w)")
    case (W_Io c tok)
    with True have "ready cfg s c" unfolding wire_inv_def by (metis nth_mem)
    moreover obtain x t where run: "proto_renew cfg c tok s = (x, t)" by fastforce
    ultimately have t: "sync_follows cfg s t" using True follows_request proto_request(5) by blast
    have log: "sync_follows cfg t (log_renew_failure cfg e t)" for e
      by (rule follows_same) (simp_all add: log_renew_failure_def)
    have "sync_follows cfg t (worker_step cfg w s)"
      using True W_Io run
      by (auto simp: worker_step_def safe_renew_once_def split: sum.split
          intro!: follows_leave follows_trans [OF log follows_goto])
    with t show ?thesis by (rule follows_trans)
  next
    case (W_FailClose c)
    have "sync_follows cfg s (snd (conn_close c s))"
      unfolding conn_close_run snd_conv by (rule follows_upd_sock) simp
    with True W_FailClose show ?thesis
      by (auto simp: worker_step_def intro: follows_trans [OF _ follows_leave])
  next
    case W_Read
    with True show ?thesis
      by (auto simp: worker_step_def wire_inv_def split: option.split intro!: follows_goto follows_leave)
  next
    case (W_Ret r)
    with True show ?thesis
      by (cases r) (auto simp: worker_step_def Let_def intro!: follows_goto)
  qed (use True in \<open>auto simp: worker_step_def Let_def intro!: follows_goto follows_leave goto follows_refl\<close>)
qed (auto simp: worker_step_def follows_def)


text \<open>Interference keeps the invariant and the connection the caller is about to use.\<close>

interpretation threads: background "wire_inv cfg" "ready cfg" "worker_step cfg" for cfg
  by unfold_locales (rule follows_step)

lemma follows_burst: "sync_follows cfg s (burst cfg s)"
  by (cases "l_sched s") (auto simp: burst_def intro: follows_refl follows_trans [OF follows_same threads.fold_follows])

lemma follows_wait_io: "sync_follows cfg s (wait_io cfg n s)"
proof (induction n arbitrary: s)
  case (Suc n)
  show ?case
    by (cases "l_io_lock s") (auto intro: follows_refl follows_trans [OF follows_trans [OF follows_step follows_burst] Suc])
qed (simp add: follows_refl)

lemma keeps_interfere [keeps]: "keeps (wire_inv cfg) (interfere cfg)"
  unfolding interfere_def by (rule keeps_sync, rule follows_burst)

lemma keeps_rd [keeps]: "keeps (wire_inv cfg) (rd cfg g)"
  unfolding rd_def by (intro keeps)

lemma keeps_wr: "(\<And>s. sync_follows cfg s (g s)) \<Longrightarrow> keeps (wire_inv cfg) (wr cfg g)"
  unfolding wr_def by (intro keeps keeps_sync)

lemma keeps_with_io_lock [keeps]:
  assumes "keeps (wire_inv cfg) m"
  shows "keeps (wire_inv cfg) (with_io_lock cfg m)"
proof -
  have "sync_follows cfg s ((wait_io cfg (length (l_sched s) + 8) s)\<lparr>l_io_lock := Some 0\<rparr>)" for s
    by (rule follows_trans [OF follows_wait_io follows_same]) simp_all
  moreover have "sync_follows cfg s (s\<lparr>l_io_lock := None\<rparr>)" for s by (rule follows_same) simp_all
  ultimately show ?thesis
    unfolding with_io_lock_def by (intro keeps assms keeps_sync)
qed

lemma keeps_join [keeps]: "keeps (wire_inv cfg) (join_thread cfg t)"
proof -
  have "sync_follows cfg s (case l_joins s of False # r \<Rightarrow> s\<lparr>l_joins := r\<rparr>
      | _ \<Rightarrow> (worker_step cfg t ^^ 16) (s\<lparr>l_joins := tl (l_joins s)\<rparr>))" for s
  proof -
    have "sync_follows cfg s ((worker_step cfg t ^^ 16) (s\<lparr>l_joins := r\<rparr>))" "sync_follows cfg s (s\<lparr>l_joins := r\<rparr>)" for r
      by (rule follows_trans [OF follows_same threads.iterate_follows]; simp) (rule follows_same; simp)
    then show ?thesis by (auto split: list.split bool.split)
  qed
  then show ?thesis unfolding join_thread_def by (intro keeps keeps_sync)
qed

lemma keeps_set_stop_event [keeps]: "keeps (wire_inv cfg) (set_stop_event cfg)"
  unfolding set_stop_event_def by (rule keeps_wr, rule follows_same) simp_all

lemma keeps_start_renew [keeps]: "keeps (wire_inv cfg) (start_renew cfg)"
  unfolding start_renew_def by (intro keeps keeps_wr) (auto simp: follows_def wire_simps)

lemma keeps_stop_renew [keeps]: "keeps (wire_inv cfg) (stop_renew cfg)"
  unfolding stop_renew_def by (intro keeps keeps_wr follows_same) simp_all

lemma keeps_set_held [keeps]: "keeps (wire_inv cfg) (set_held cfg tok lease)"
  unfolding set_held_def by (intro keeps keeps_wr follows_same) simp_all

lemma keeps_upd_sock: "(\<And>k. sk_sent (g k) = sk_sent k) \<Longrightarrow> keeps (wire_inv cfg) (modP (upd_sock c g))"
  by (intro keeps_sync follows_upd_sock)

lemma keeps_sockets [keeps]: "keeps (wire_inv cfg) (conn_close c)" "keeps (wire_inv cfg) (shutdown_read c)"
  unfolding conn_close_def shutdown_read_def by (rule keeps_upd_sock; simp)+

lemma keeps_close [keeps]: "keeps (wire_inv cfg) (close_unlocked cfg)"
  unfolding close_unlocked_def begin_close_def tear_down_conn_and_thread_def shutdown_and_close_conn_def
    join_renew_thread_def clear_held_state_def
  by (intro keeps keeps_wr follows_same) simp_all

lemma keeps_reset [keeps]: "keeps (wire_inv cfg) (reset_for_new_attempt cfg)"
  unfolding reset_for_new_attempt_def by (intro keeps keeps_wr follows_same) simp_all

text \<open>A request on the object's connection.\<close>

lemma wp_rd_conn:
  assumes "wire_inv cfg s" "\<And>t. wire_inv cfg t \<Longrightarrow> (\<And>c. l_conn t = Some c \<Longrightarrow> ready cfg t c) \<Longrightarrow> Q (l_conn t) t"
  shows "wp (rd cfg l_conn) Q E s"
  using assms follows_burst [of cfg s]
  by (auto simp: rd_def interfere_def wp_simps follows_def wire_inv_def)

lemma keeps_require_conn:
  assumes "\<And>c s. wire_inv cfg s \<Longrightarrow> ready cfg s c \<Longrightarrow> wp (f c) (\<lambda>_. wire_inv cfg) (\<lambda>_. wire_inv cfg) s"
  shows "keeps (wire_inv cfg) (bindP (require_conn cfg) f)" "keeps (wire_inv cfg) (bindP (require_conn_for_wait cfg) f)"
  unfolding require_conn_def require_conn_for_wait_def
  by (rule keepsI, unfold wp_bindP, erule wp_rd_conn, simp add: wp_simps assms split: option.split)+

lemma wp_request:
  assumes "wire_inv cfg s" "ready cfg s c" "\<And>x t. m s = (x, t) \<Longrightarrow> request cfg c s t"
  shows "wp m (\<lambda>_. wire_inv cfg) (\<lambda>_. wire_inv cfg) s"
proof -
  obtain x t where run: "m s = (x, t)" by fastforce
  then have "wire_inv cfg t" using follows_request [OF assms(1,2)] assms by (auto simp: follows_def)
  with run show ?thesis by (simp add: wp_def split: sum.split)
qed

lemma keeps_invoke_acquire [keeps]: "keeps (wire_inv cfg) (invoke_acquire cfg)"
  unfolding invoke_acquire_def
  by (intro keeps keeps_require_conn wp_keeps_bind) (erule (1) wp_request, erule proto_request)

lemma keeps_invoke_enqueue [keeps]: "keeps (wire_inv cfg) (invoke_enqueue cfg)"
  unfolding invoke_enqueue_def handle_enqueue_status_def
  by (intro keeps keeps_require_conn) (erule (1) wp_request, erule proto_request)

lemma keeps_invoke_wait [keeps]: "keeps (wire_inv cfg) (invoke_wait cfg tm)"
  unfolding invoke_wait_def
proof (rule keeps_require_conn(2))
  fix c s
  assume s: "wire_inv cfg s" "ready cfg s c"
  have "wp (proto_wait cfg c tm) (\<lambda>_. wire_inv cfg) (\<lambda>_. wire_inv cfg) s"
    by (rule wp_request [OF s]) (rule proto_request)
  then show "wp (tryP (bindP (proto_wait cfg c tm) (\<lambda>(tok, lease). set_held cfg (Some tok) lease))
      (\<lambda>e. if isinstance e DflockdTimeoutError then seqP (close_unlocked cfg) (retP False)
           else seqP (close_unlocked cfg) (raiseP e))
      (\<lambda>_. seqP (start_renew cfg) (retP True))) (\<lambda>_. wire_inv cfg) (\<lambda>_. wire_inv cfg) s"
    by (intro wp_keeps_try wp_keeps_bind keeps)
qed

lemma keeps_release [keeps]: "keeps (wire_inv cfg) (release_unlocked cfg)"
proof -
  have "keeps (wire_inv cfg) (send_release_quietly cfg)"
    unfolding send_release_quietly_def
  proof (rule keepsI, unfold wp_bindP, erule wp_rd_conn)
    fix t
    assume t: "wire_inv cfg t" "\<And>c. l_conn t = Some c \<Longrightarrow> ready cfg t c"
    define u where "u = burst cfg t"
    have u: "wire_inv cfg u" "\<And>c. l_conn t = Some c \<Longrightarrow> ready cfg u c"
      using t follows_burst [of cfg t] by (auto simp: u_def follows_def)
    have log: "keeps (wire_inv cfg) (modP (\<lambda>s. s\<lparr>l_log := l_log s @ l\<rparr>))" for l
      by (intro keeps_sync follows_same) simp_all
    have "wp (safe_release cfg c tok) (\<lambda>_. wire_inv cfg) (\<lambda>_. wire_inv cfg) u" if "l_conn t = Some c" for c tok
      unfolding safe_release_def
      by (intro wp_keeps_try keeps log wp_request [OF u(1) u(2) [OF that]]) (rule proto_request)
    with u(1) show "wp (rd cfg l_token) (\<lambda>a. wp (case (l_conn t, a) of (Some c, Some t) \<Rightarrow> safe_release cfg c t
        | _ \<Rightarrow> retP False) (\<lambda>_. wire_inv cfg) (\<lambda>_. wire_inv cfg)) (\<lambda>_. wire_inv cfg) t"
      by (auto simp: rd_def interfere_def wp_simps u_def [symmetric] split: option.split)
  qed
  then show ?thesis unfolding release_unlocked_def by (intro keeps)
qed

section \<open>Connecting, and the methods\<close>

lemma wp_open_conn_wire:
  assumes s: "wire_inv cfg s" and Q: "\<And>c t. wire_inv cfg t \<Longrightarrow> sent_on t c = [] \<Longrightarrow> Q c t"
  shows "wp (open_conn h p tls tm) Q (\<lambda>_. wire_inv cfg) s"
proof -
  have "wp (open_socket tls n) Q (\<lambda>_. wire_inv cfg) s" for n
  proof -
    obtain x t where run: "open_socket tls n s = (x, t)" by fastforce
    note sent = open_socket_sent [OF run]
    have "wire_inv cfg t"
      using s sent open_socket_frame [OF run] by (auto simp: wire_simps)
    with run sent Q show ?thesis by (auto simp: wp_def split: sum.split)
  qed
  with s show ?thesis by (auto simp: open_conn_def wp_simps split: sum.split)
qed

lemma wp_maybe_authenticate_wire:
  assumes s: "wire_inv cfg s" "sent_on s c = []"
  shows "wp (maybe_authenticate c (cf_auth_token cfg)) (\<lambda>d t. wire_inv cfg t \<and> ready cfg t d) (\<lambda>_. wire_inv cfg) s"
proof (cases "cf_auth_token cfg")
  case None
  with s show ?thesis by (simp add: maybe_authenticate_def wp_simps ready_def)
next
  case (Some tok)
  obtain x t where run: "authenticate c tok s = (x, t)" by fastforce
  note sends = sync.authenticate_sends [OF run [unfolded authenticate_def]]
  have "net_ok cfg t \<and> (\<forall>d. ready cfg s d \<longrightarrow> ready cfg t d)"
    by (rule auth_net_ok [OF _ Some s(2)]) (use s sends in \<open>auto simp: wire_inv_def auth_request_def\<close>)
  then have t: "wire_inv cfg t"
    using s(1) touches_attrs [of c s t] sends unfolding wire_inv_def by metis
  have close: "wp (conn_close c) (\<lambda>_. wire_inv cfg) (\<lambda>_. wire_inv cfg) t"
    by (rule keepsD) (intro keeps, rule t)
  from sends t run show ?thesis
    by (cases x) (auto simp: Some maybe_authenticate_def wp_bindP wp_tryP wp_retP wp_raiseP_fun close ready_def
        wp_def [of "authenticate c tok"])
qed

lemma keeps_open [keeps]: "keeps (wire_inv cfg) (open_and_authenticate cfg)"
proof (rule keepsI)
  fix s
  assume s: "wire_inv cfg s"
  have set: "wp (wr cfg (\<lambda>s. s\<lparr>l_conn := Some c\<rparr>)) (\<lambda>_. wire_inv cfg) (\<lambda>_. wire_inv cfg) t"
    if "wire_inv cfg t \<and> ready cfg t c" for c t
    using that follows_burst [of cfg t]
    by (auto simp: wr_def interfere_def wp_simps follows_def wire_simps)
  have conn: "wp (open_conn h p (cf_ssl_context cfg) (cf_connect_timeout_s cfg))
      (\<lambda>c. wp (maybe_authenticate c (cf_auth_token cfg))
        (\<lambda>c. wp (wr cfg (\<lambda>s. s\<lparr>l_conn := Some c\<rparr>)) (\<lambda>_. wire_inv cfg) (\<lambda>_. wire_inv cfg)) (\<lambda>_. wire_inv cfg))
      (\<lambda>_. wire_inv cfg) s" for h p
    by (rule wp_open_conn_wire [OF s], rule wp_mono, erule (1) wp_maybe_authenticate_wire) (simp_all add: set)
  show "wp (open_and_authenticate cfg) (\<lambda>_. wire_inv cfg) (\<lambda>_. wire_inv cfg) s"
    using s conn by (auto simp: open_and_authenticate_def wp_bindP_fun wp_liftE split: sum.split)
qed

lemma keeps_methods [keeps]:
  "keeps (wire_inv cfg) (acquire_unlocked cfg)" "keeps (wire_inv cfg) (enqueue_unlocked cfg)"
  "keeps (wire_inv cfg) (wait_unlocked cfg tm)"
  unfolding acquire_unlocked_def enqueue_unlocked_def wait_unlocked_def by (intro keeps)+

lemma keeps_context [keeps]: "keeps (wire_inv cfg) (enter cfg)" "keeps (wire_inv cfg) (exit cfg)"
  unfolding enter_def exit_def by (intro keeps keeps_sync follows_same; simp)+

lemma init_wire_inv: "wire_inv cfg (init_lock ios0 dials0 sched joins)"
  by (simp add: wire_simps init_lock_def sent_on_def)

lemma step_wire_inv:
  assumes "sync_step cfg s s'" "wire_inv cfg s"
  shows "wire_inv cfg s'"
  using assms(1)
proof cases
  case (api a)
  have "wire_inv cfg (run_api cfg a s)"
    by (cases a; simp add: run_api_def; rule keeps_final; (rule keeps assms(2))?)
  with api show ?thesis by simp
next
  case (renewal w)
  with assms(2) follows_step [of cfg s w] show ?thesis by (simp add: follows_def)
qed

lemma reachable_from_init:
  "sync_reachable cfg s \<Longrightarrow> \<exists>ios0 dials0 sched joins. (sync_step cfg)\<^sup>*\<^sup>* (init_lock ios0 dials0 sched joins) s"
  by (induction rule: sync_reachable.induct) (blast intro: rtranclp.intros)+

text \<open>
  C6. Every whole frame a sync object ever sends, on any connection and from any thread, conforms (of a send that
  fails midway, \<open>sk_cut\<close> keeps the part): when the object
  has an auth token the first frame of the connection is \<open>auth\<close> with that token, and every other frame is
  one of the five commands of the object's kind, about the object's own key.  This holds for every
  sequence of calls, every schedule and network, and also when a join with a renewal thread times out.
\<close>

theorem sync_wire_conforms:
  assumes "(sync_step cfg)\<^sup>*\<^sup>* (init_lock ios0 dials0 sched joins) s"
  shows "conforms cfg (sent_on s c)"
proof -
  from assms have "wire_inv cfg s"
    by (induction rule: rtranclp_induct) (auto intro: init_wire_inv step_wire_inv)
  then show ?thesis by (simp add: wire_inv_def net_ok_def)
qed

theorem sync_wire_conforms_witness:
  "conforms sample_config (sent_on sample_held 0) \<and> conn_open sample_held 0"
  using reachable_from_init [OF sample_held(1)] sync_wire_conforms [of sample_config _ _ _ _ sample_held]
    sample_held(6) by blast

end
