(* ===== verification/Sync_Session.thy ===== *)
theory Sync_Session
  imports Sync_Wire
begin

text \<open>
  A whole session of the two-phase protocol on a sync object, composed from the methods: \<open>enqueue\<close> on a
  new connection, \<open>wait\<close>, \<open>release\<close>, with the renewal thread started and stopped in between, followed
  byte by byte on the connection when no thread moves by itself.
\<close>

section \<open>One answered request\<close>

definition idle_conn :: "'r net_scheme \<Rightarrow> nat \<Rightarrow> bool" where
  "idle_conn s c \<longleftrightarrow> conn_open s c \<and> \<not> sk_shut (socks s ! c) \<and> sk_in (socks s ! c) = []"

text \<open>The state after the frame \<open>f\<close> was sent and its answer read.\<close>

definition answered :: "nat \<Rightarrow> byte list \<Rightarrow> ending \<Rightarrow> io_event list \<Rightarrow> 'r net_scheme \<Rightarrow> 'r net_scheme" where
  "answered c f e r s = upd_sock c (\<lambda>k. k\<lparr>sk_sent := sk_sent k @ [f], sk_end := e, sk_in := []\<rparr>) (s\<lparr>ios := r\<rparr>)"

lemma answered_conn:
  assumes "idle_conn s c"
  shows "idle_conn (answered c f e r s) c" "sent_on (answered c f e r s) c = sent_on s c @ [f]"
    "ios (answered c f e r s) = r"
proof -
  have "c < length (socks s)" using assms by (simp add: idle_conn_def conn_open_def)
  then show "idle_conn (answered c f e r s) c" "sent_on (answered c f e r s) c = sent_on s c @ [f]"
    "ios (answered c f e r s) = r"
    using assms by (simp_all add: idle_conn_def answered_def conn_open_def sent_on_def)
qed

lemma answered_attrs [simp]:
  fixes s :: lock
  shows "l_conn (answered c f e r s) = l_conn s" "l_token (answered c f e r s) = l_token s"
    "l_lease (answered c f e r s) = l_lease s" "l_renew_thread (answered c f e r s) = l_renew_thread s"
    "l_stop_event (answered c f e r s) = l_stop_event s" "l_closed (answered c f e r s) = l_closed s"
    "l_io_lock (answered c f e r s) = l_io_lock s" "l_events (answered c f e r s) = l_events s"
    "l_workers (answered c f e r s) = l_workers s" "l_sched (answered c f e r s) = l_sched s"
    "l_joins (answered c f e r s) = l_joins s" "dials (answered c f e r s) = dials s"
  by (simp_all add: answered_def upd_sock_def)

lemma command_answered:
  assumes "idle_conn s c" "0 \<le> t" "timeout_fits t" "encode_lines [cmd, key, arg] = Inr f"
    and "ios s = Io raw e # r" "response raw e txt"
  shows "sync_command c cmd key arg t s = (Inr txt, answered c f e r s)"
  unfolding answered_def using assms by (intro sync_command_response) (simp_all add: idle_conn_def)

text \<open>The frame of a command whose parts the validators accept.\<close>

lemma request_frame:
  assumes "validate_key (lit ''key'') key = Inr ()" "prefix = [] \<or> prefix = lit ''s''"
    and "cmd \<in> {lit ''e'', lit ''w'', lit ''r''}" "encodable arg" "0x0A \<notin> set arg" "0x0D \<notin> set arg"
  obtains f where "encode_lines [prefix @ cmd, key, arg] = Inr f"
    "frame_lines f = map Some [prefix @ cmd, key, arg]"
proof -
  have "\<exists>f. encode_lines [prefix @ cmd, key, arg] = Inr f"
    using assms by (auto simp: encode_lines_eq_Inr validator_iff encodable_def is_scalar_def is_surrogate_def)
  with encode_lines_frame that show thesis by blast
qed

lemma prefix_cases: "acquire_prefix cfg = [] \<or> acquire_prefix cfg = lit ''s''"
  by (simp add: acquire_prefix_def split: kind.split)

section \<open>The three requests\<close>

lemma enqueue_answered:
  assumes "post_init cfg = Inr ()" "make_enqueue_arg (opt_int (acquire_limit cfg)) (cf_lease_ttl_s cfg) = Inr arg"
    and "idle_conn s c" "ios s = Io raw e # r" "response raw e (lit ''queued'')"
  shows "\<exists>f. proto_enqueue cfg c s = (Inr (lit ''queued'', None, None), answered c f e r s) \<and>
    frame_lines f = map Some [acquire_prefix cfg @ lit ''e'', cf_key cfg, arg]"
proof -
  note v = post_init_request [OF assms(1)]
  have prefix: "validate_prefix (acquire_prefix cfg) = Inr ()" using prefix_cases [of cfg] by (auto simp: validator_iff)
  have "encodable arg" "0x0A \<notin> set arg" "0x0D \<notin> set arg"
    using assms(2) by (auto simp: make_enqueue_arg_def res_simps validator_iff)
  then obtain f where f: "encode_lines [acquire_prefix cfg @ lit ''e'', cf_key cfg, arg] = Inr f"
    "frame_lines f = map Some [acquire_prefix cfg @ lit ''e'', cf_key cfg, arg]"
    using request_frame [OF v(2) prefix_cases, where cmd = "lit ''e''"] by auto
  have "proto_enqueue cfg c = enqueue c (cf_key cfg) (cf_lease_ttl_s cfg) (acquire_prefix cfg) (acquire_limit cfg)"
    by (simp add: proto_defs acquire_prefix_def acquire_limit_def split: kind.split)
  moreover have "sync_command c (acquire_prefix cfg @ lit ''e'') (cf_key cfg) arg 30 s =
      (Inr (lit ''queued''), answered c f e r s)"
    using assms(3-5) f(1) fits_30 by (intro command_answered) simp_all
  ultimately have "proto_enqueue cfg c s = (Inr (lit ''queued'', None, None), answered c f e r s)"
    using v(1,2) assms(2) prefix
    by (simp add: enqueue_def enqueue_via_def bindP_liftE cmd_name_def bindP_def IO_SLACK_S_def
        parse_enqueue_response_def del: lit_Cons)
  with f(2) show ?thesis by blast
qed

lemma wait_answered:
  assumes "post_init cfg = Inr ()" "0 \<le> n" "n \<le> LARGEST_USABLE_TIMEOUT_S"
    and "idle_conn s c" "ios s = Io raw e # r" "response raw e txt"
    and "parse_grant_response txt (op_label (acquire_prefix cfg) (lit ''wait'')) = Inr g"
  shows "\<exists>f. proto_wait cfg c (VInt n) s = (Inr g, answered c f e r s) \<and>
    frame_lines f = map Some [acquire_prefix cfg @ lit ''w'', cf_key cfg, int_text n]"
proof -
  note v = post_init_request [OF assms(1)]
  have n: "n \<le> MAX_PROTOCOL_SECONDS" using assms(3) by (simp add: LARGEST_USABLE_TIMEOUT_S_def limits)
  have prefix: "validate_prefix (acquire_prefix cfg) = Inr ()" using prefix_cases [of cfg] by (auto simp: validator_iff)
  have "validate_timeout_s (lit ''wait_timeout_s'') (VInt n) = Inr ()" using assms(2) n by (simp add: validator_iff)
  note arg = accepted_wait_arg [OF this]
  then obtain f where f: "encode_lines [acquire_prefix cfg @ lit ''w'', cf_key cfg, int_text n] = Inr f"
    "frame_lines f = map Some [acquire_prefix cfg @ lit ''w'', cf_key cfg, int_text n]"
    using request_frame [OF v(2) prefix_cases, where cmd = "lit ''w''"] by auto
  have "proto_wait cfg c (VInt n) = wait c (cf_key cfg) (VInt n) (acquire_prefix cfg)"
    by (simp add: proto_defs acquire_prefix_def split: kind.split)
  moreover have "sync_command c (acquire_prefix cfg @ lit ''w'') (cf_key cfg) (int_text n) (of_int (n + 30)) s =
      (Inr txt, answered c f e r s)"
    using assms(2-6) f(1) n timeout_fits_iff [OF assms(2) n] by (intro command_answered) simp_all
  ultimately have "proto_wait cfg c (VInt n) s = (Inr g, answered c f e r s)"
    using assms(7) by (simp add: wait_eq_command [OF prefix v(2) arg(1)] bindP_def del: lit_Cons of_int_add)
  with f(2) show ?thesis by blast
qed

lemma release_answered:
  assumes "post_init cfg = Inr ()" "validate_token tok = Inr ()"
    and "idle_conn s c" "ios s = Io raw e # r" "response raw e (lit ''ok'')"
  shows "\<exists>f. proto_release cfg c tok s = (Inr (), answered c f e r s) \<and>
    frame_lines f = map Some [acquire_prefix cfg @ lit ''r'', cf_key cfg, tok]"
proof -
  note v = post_init_request [OF assms(1)]
  have prefix: "validate_prefix (acquire_prefix cfg) = Inr ()" using prefix_cases [of cfg] by (auto simp: validator_iff)
  have "encodable tok" "0x0A \<notin> set tok" "0x0D \<notin> set tok" using assms(2) by (auto simp: validator_iff)
  then obtain f where f: "encode_lines [acquire_prefix cfg @ lit ''r'', cf_key cfg, tok] = Inr f"
    "frame_lines f = map Some [acquire_prefix cfg @ lit ''r'', cf_key cfg, tok]"
    using request_frame [OF v(2) prefix_cases, where cmd = "lit ''r''"] by auto
  have "proto_release cfg c tok = release c (cf_key cfg) tok (acquire_prefix cfg)"
    by (simp add: proto_defs acquire_prefix_def split: kind.split)
  moreover have "sync_command c (acquire_prefix cfg @ lit ''r'') (cf_key cfg) tok 30 s =
      (Inr (lit ''ok''), answered c f e r s)"
    using assms(3-5) f(1) fits_30 by (intro command_answered) simp_all
  ultimately have "proto_release cfg c tok s = (Inr (), answered c f e r s)"
    using v(2) assms(2) prefix
    by (simp add: release_def release_via_def bindP_liftE cmd_name_def bindP_def RELEASE_READ_TIMEOUT_S_def
        IO_SLACK_S_def parse_release_response_def del: lit_Cons)
  with f(2) show ?thesis by blast
qed

section \<open>The three calls\<close>

lemma idle_frame: "socks t = socks s \<Longrightarrow> idle_conn t = idle_conn s" "socks t = socks s \<Longrightarrow> sent_on t = sent_on s"
  by (simp_all add: fun_eq_iff idle_conn_def conn_open_def sent_on_def)

lemma quiet_enqueue:
  assumes cfg: "post_init cfg = Inr ()" "pick_server cfg = Inr x" "admits cfg pre"
    and arg: "make_enqueue_arg (opt_int (acquire_limit cfg)) (cf_lease_ttl_s cfg) = Inr arg"
    and s: "blank s" "l_sched s = []" "dials s = DialOk # ds" "ios s = pre @ Io raw e # r" "response raw e (lit ''queued'')"
  obtains t where "enqueue_unlocked cfg s = (Inr (lit ''queued''), t)" "connected t" "l_sched t = []"
    "l_conn t = Some (length (socks s))" "idle_conn t (length (socks s))" "ios t = r"
    "frames_on t (length (socks s)) =
       map (map Some) (auth_lines cfg @ [[acquire_prefix cfg @ lit ''e'', cf_key cfg, arg]])"
proof -
  note v = post_init_request [OF cfg(1)]
  obtain h p where hp: "pick_server cfg = Inr (VStr h, VInt p)"
    "validate_server_endpoint (VStr h) (VInt p) = Inr (h, p)" by (rule picked_valid [OF cfg(1,2)])
  obtain s1 where s1: "reset_for_new_attempt cfg s = (Inr (), s1)" "fresh s1" "l_sched s = [] \<longrightarrow> l_sched s1 = []"
    "socks s1 = socks s" "ios s1 = ios s" "dials s1 = dials s" by (rule quiet_reset [OF s(1)])
  define c where "c = length (socks s)"
  obtain s2 where s2: "open_and_authenticate cfg s1 = (Inr (), s2)" "connected s2" "l_sched s1 = [] \<longrightarrow> l_sched s2 = []"
    "l_conn s2 = Some c" "ready_conn cfg c s2" "ios s2 = Io raw e # r"
    by (rule quiet_open [OF s1(2) _ _ cfg(3) hp v(3)]) (use s s1 in \<open>simp_all add: c_def\<close>)
  have sched: "l_sched s2 = []" using s1(3) s2(3) s(2) by simp
  have idle: "idle_conn s2 c" "frames_on s2 c = map (map Some) (auth_lines cfg)"
    using s2(5) by (simp_all add: ready_conn_def idle_conn_def)
  obtain f where f: "proto_enqueue cfg c s2 = (Inr (lit ''queued'', None, None), answered c f e r s2)"
    "frame_lines f = map Some [acquire_prefix cfg @ lit ''e'', cf_key cfg, arg]"
    using enqueue_answered [OF cfg(1) arg idle(1) s2(6) s(5)] by auto
  define t where "t = answered c f e r s2"
  have run: "invoke_enqueue cfg s2 = (Inr (lit ''queued''), t)"
    using sched s2(4) f(1)
    by (simp add: invoke_enqueue_def tryP_def bindP_def require_conn_def quiet_runs handle_enqueue_status_def
        whenP_def t_def del: lit_Cons) simp
  have "wp (invoke_enqueue cfg) (\<lambda>st t. st = lit ''queued'' \<longrightarrow> connected t) (\<lambda>_ _. True) s2"
    by (rule wp_invoke_enqueue [OF s2(2)]) simp_all
  from wp_Inr [OF this run] have "connected t" by simp
  moreover have "enqueue_unlocked cfg s = (Inr (lit ''queued''), t)"
    by (simp add: enqueue_unlocked_def bindP_def s1(1) s2(1) run del: lit_Cons)
  moreover have "frames_on t c = map (map Some) (auth_lines cfg @ [[acquire_prefix cfg @ lit ''e'', cf_key cfg, arg]])"
    using frames_on_same(2) [OF answered_conn(2) [OF idle(1), of f e r]] idle(2) f(2) by (simp add: t_def del: lit_Cons)
  ultimately show thesis
    using that [of t] answered_conn [OF idle(1), of f e r] sched s2(4) unfolding c_def t_def by simp
qed

lemma quiet_wait:
  assumes cfg: "post_init cfg = Inr ()" "0 \<le> n" "n \<le> LARGEST_USABLE_TIMEOUT_S"
    and s: "connected s" "l_sched s = []" "l_conn s = Some c" "idle_conn s c" "ios s = Io raw e # r"
    and resp: "response raw e txt" "parse_grant_response txt (op_label (acquire_prefix cfg) (lit ''wait'')) = Inr (tok, k)"
  obtains f t where "wait_unlocked cfg (VInt n) s = (Inr True, t)" "held t" "l_sched t = []" "l_conn t = Some c"
    "l_token t = Some tok" "l_lease t = k" "idle_conn t c" "sent_on t c = sent_on s c @ [f]" "ios t = r"
    "frame_lines f = map Some [acquire_prefix cfg @ lit ''w'', cf_key cfg, int_text n]"
proof -
  obtain f where f: "proto_wait cfg c (VInt n) s = (Inr (tok, k), answered c f e r s)"
    "frame_lines f = map Some [acquire_prefix cfg @ lit ''w'', cf_key cfg, int_text n]"
    using wait_answered [OF cfg s(4,5) resp] by blast
  define t where "t = snd (wait_unlocked cfg (VInt n) s)"
  have tok: "l_token s = None" using s(1) by (simp add: connected_def)
  have t: "wait_unlocked cfg (VInt n) s = (Inr True, t)" "l_sched t = []" "l_conn t = Some c"
    "l_token t = Some tok" "l_lease t = k" "socks t = socks (answered c f e r s)" "ios t = ios (answered c f e r s)"
    using s(2,3) f(1) tok
    by (simp_all add: t_def wait_unlocked_def invoke_wait_def is_None_def tryP_def bindP_def
        require_conn_for_wait_def quiet_runs set_held_def start_renew_def)
  have rest: "rest s" using s(1) by (rule rest_intros)
  have "wp (wait_unlocked cfg (VInt n)) (\<lambda>b t. b \<longrightarrow> held t \<or> l_token s \<noteq> None) (\<lambda>_ _. True) s"
    by (rule wp_wait [OF rest]) (auto dest: driftD(6))
  from wp_Inr [OF this t(1)] tok have "held t" by simp
  with that [of t f] t f(2) answered_conn [OF s(4), of f e r] show thesis
    using idle_frame [OF t(6)] by simp
qed

text \<open>A thread that has not reached its first sleep ends in two steps once it is told to stop.\<close>

lemma iterate_fixpoint: "g x = x \<Longrightarrow> (g ^^ n) x = x"
  by (induction n) simp_all

lemma stop_init_thread:
  assumes "w < length (l_workers s)" "w_pc (l_workers s ! w) = W_Init" "event_set (w_event (l_workers s ! w)) s"
  shows "(worker_step cfg w ^^ 16) s = w_goto w W_Done s"
proof -
  define i where "i = renew_interval (l_lease s) (rat_val (cf_renew_ratio cfg))"
  have "worker_step cfg w s = w_goto w (W_Wait i) s"
    using assms by (simp add: worker_step_def Let_def i_def)
  moreover have "worker_step cfg w (w_goto w (W_Wait i) s) = w_goto w W_Done s"
    using assms by (simp add: worker_step_def w_goto_def event_set_def)
  moreover have "worker_step cfg w (w_goto w W_Done s) = w_goto w W_Done s"
    using assms by (simp add: worker_step_def w_goto_def)
  then have "(worker_step cfg w ^^ 14) (w_goto w W_Done s) = w_goto w W_Done s" by (rule iterate_fixpoint)
  moreover have "(g ^^ 16) x = (g ^^ 14) (g (g x))" for g :: "lock \<Rightarrow> lock" and x
  proof -
    have "(16 :: nat) = Suc (Suc 14)" by simp
    then show ?thesis by (simp only: funpow_Suc_right o_apply)
  qed
  ultimately show ?thesis by simp
qed

lemma quiet_stop:
  assumes "held s" "l_sched s = []"
  obtains t where "stop_renew cfg s = (Inr (), t)" "l_sched t = []" "l_renew_thread t = None" "l_io_lock t = None"
    "socks t = socks s" "ios t = ios s" "l_conn t = l_conn s" "l_token t = l_token s" "l_closed t = l_closed s"
proof -
  have run: "runnable s" "apc s = W_Init" using assms(1) by (simp_all add: held_def)
  then have threads: "threads_ok s" "l_io_lock s = None" "joins_ok s"
    by (auto simp: runnable_def core_def core_at_def lock_at_def)
  from apc_thread [OF threads(1)] run(2) obtain w where w: "l_renew_thread s = Some w" "w < length (l_workers s)"
    "w_pc (l_workers s ! w) = W_Init" by auto
  with threads(1) have ev: "w_event (l_workers s ! w) = l_stop_event s" "l_stop_event s < length (l_events s)"
    by (simp_all add: threads_ok_def)
  define u where "u = s\<lparr>l_events := (l_events s)[l_stop_event s := True], l_joins := tl (l_joins s)\<rparr>"
  have "(worker_step cfg w ^^ 16) u = w_goto w W_Done u"
    by (rule stop_init_thread) (use w ev in \<open>simp_all add: u_def event_set_def\<close>)
  moreover have "l_joins s = [] \<or> (\<exists>r. l_joins s = True # r)"
    using threads(3) by (cases "l_joins s") (auto simp: joins_ok_def)
  ultimately have "stop_renew cfg s = (Inr (), (w_goto w W_Done u)\<lparr>l_renew_thread := None\<rparr>)"
    using assms(2) w(1)
    by (auto simp: stop_renew_def set_stop_event_def join_thread_def bindP_def quiet_runs u_def w_goto_def)
  then show thesis using that assms(2) threads(2) by (simp add: u_def w_goto_def)
qed

lemma quiet_close:
  assumes "l_sched s = []" "l_renew_thread s = None" "l_io_lock s = None" "l_conn s = Some c"
  shows "\<exists>t. close_unlocked cfg s = (Inr (), t) \<and> sent_on t = sent_on s"
  using assms
  by (cases "l_closed s")
    (simp_all add: close_unlocked_def begin_close_def set_stop_event_def tear_down_conn_and_thread_def
      shutdown_and_close_conn_def shutdown_read_def conn_close_def join_renew_thread_def clear_held_state_def
      with_io_lock_def quiet_runs bindP_def tryP_def numeral_eq_Suc sent_upd_same upd_sock_attrs)

lemma quiet_release:
  assumes cfg: "post_init cfg = Inr ()"
    and s: "held s" "l_sched s = []" "l_conn s = Some c" "l_token s = Some tok" "validate_token tok = Inr ()"
    and net: "idle_conn s c" "ios s = Io raw e # r" "response raw e (lit ''ok'')"
  obtains f t where "release_unlocked cfg s = (Inr True, t)" "closed_blank t" "sent_on t c = sent_on s c @ [f]"
    "frame_lines f = map Some [acquire_prefix cfg @ lit ''r'', cf_key cfg, tok]"
proof -
  obtain s1 where s1: "stop_renew cfg s = (Inr (), s1)" "l_sched s1 = []" "l_renew_thread s1 = None"
    "l_io_lock s1 = None" "socks s1 = socks s" "ios s1 = ios s" "l_conn s1 = Some c" "l_token s1 = Some tok"
    using quiet_stop [OF s(1,2)] s(3,4) by metis
  define s2 where "s2 = s1\<lparr>l_io_lock := Some 0\<rparr>"
  have "idle_conn s2 c" "ios s2 = Io raw e # r"
    using net(1,2) s1(5,6) by (simp_all add: s2_def idle_conn_def conn_open_def)
  from release_answered [OF cfg s(5) this net(3)] obtain f where
    f: "proto_release cfg c tok s2 = (Inr (), answered c f e r s2)"
      "frame_lines f = map Some [acquire_prefix cfg @ lit ''r'', cf_key cfg, tok]" by blast
  define s3 where "s3 = (answered c f e r s2)\<lparr>l_io_lock := None\<rparr>"
  have io: "with_io_lock cfg (send_release_quietly cfg) s1 = (Inr True, s3)"
    using s1 f(1)
    by (simp add: with_io_lock_def send_release_quietly_def safe_release_def quiet_runs bindP_def tryP_def
        numeral_eq_Suc s2_def s3_def)
  obtain t where t: "close_unlocked cfg s3 = (Inr (), t)" "sent_on t = sent_on s3"
    using quiet_close [of s3 c cfg] s1 by (auto simp: s3_def s2_def)
  have run: "release_unlocked cfg s = (Inr True, t)"
    by (simp add: release_unlocked_def bindP_def s1(1) io t(1))
  have "wp (release_unlocked cfg) (\<lambda>_. closed_blank) (\<lambda>_ _. True) s"
    by (rule wp_release) (use s(1) in \<open>auto intro: rest_intros\<close>)
  from wp_Inr [OF this run] have "closed_blank t" .
  moreover have "sent_on t c = sent_on s c @ [f]"
    using t(2) answered_conn(2) [OF \<open>idle_conn s2 c\<close>, of f e r] idle_frame(2) [OF s1(5)] by (simp add: s3_def s2_def)
  ultimately show thesis using that run f(2) by blast
qed

section \<open>The session\<close>

text \<open>
  C2. A two-phase session from a constructed object that holds nothing, in which no thread takes a step by
  itself (the renewal thread started by \<open>wait\<close> runs only when \<open>release\<close> joins it), with a strategy that
  picks a server and a server that answers \<open>ok\<close> to the authentication when the object has an auth token (one
  that passes the validator), then answers \<open>queued\<close>, then grants, then acknowledges.  For a wait timeout of
  at most \<open>9223372006\<close>: \<open>enqueue\<close> returns \<open>queued\<close>, \<open>wait\<close> returns \<open>True\<close> with the printed token and
  lease held, \<open>release\<close> returns \<open>True\<close> and leaves everything closed; the connection has carried the auth
  command, if there is an auth token, and then exactly the three commands in this order, with the object's
  key and the token that was granted.
\<close>

theorem two_phase_session:
  assumes "post_init cfg = Inr ()" "pick_server cfg = Inr server" "admits cfg pre"
    and "make_enqueue_arg (opt_int (acquire_limit cfg)) (cf_lease_ttl_s cfg) = Inr arg"
    and "0 \<le> n" "n \<le> LARGEST_USABLE_TIMEOUT_S" "is_field tok" "validate_token tok = Inr ()" "1 \<le> k" "k \<le> MAX_PROTOCOL_SECONDS"
    and "blank s" "l_sched s = []" "dials s = DialOk # ds" "ios s = pre @ Io q e1 # Io g e2 # Io a e3 # r"
    and "response q e1 (lit ''queued'')" "response g e2 (grant_line (lit ''ok'') tok k)" "response a e3 (lit ''ok'')"
  shows "\<exists>t1 t2 t3. enqueue_unlocked cfg s = (Inr (lit ''queued''), t1) \<and>
    wait_unlocked cfg (VInt n) t1 = (Inr True, t2) \<and> l_token t2 = Some tok \<and> l_lease t2 = k \<and>
    release_unlocked cfg t2 = (Inr True, t3) \<and> closed_blank t3 \<and>
    map frame_lines (sent_on t3 (length (socks s))) = map (map Some) (auth_lines cfg @
      [[acquire_prefix cfg @ lit ''e'', cf_key cfg, arg],
       [acquire_prefix cfg @ lit ''w'', cf_key cfg, int_text n],
       [acquire_prefix cfg @ lit ''r'', cf_key cfg, tok]])"
proof -
  let ?c = "length (socks s)"
  obtain t1 where t1: "enqueue_unlocked cfg s = (Inr (lit ''queued''), t1)" "connected t1" "l_sched t1 = []"
    "l_conn t1 = Some ?c" "idle_conn t1 ?c" "ios t1 = Io g e2 # Io a e3 # r"
    "frames_on t1 ?c = map (map Some) (auth_lines cfg @ [[acquire_prefix cfg @ lit ''e'', cf_key cfg, arg]])"
    by (rule quiet_enqueue [OF assms(1-4,11-15)])
  obtain f2 t2 where t2: "wait_unlocked cfg (VInt n) t1 = (Inr True, t2)" "held t2" "l_sched t2 = []"
    "l_conn t2 = Some ?c" "l_token t2 = Some tok" "l_lease t2 = k" "idle_conn t2 ?c"
    "sent_on t2 ?c = sent_on t1 ?c @ [f2]" "ios t2 = Io a e3 # r"
    "frame_lines f2 = map Some [acquire_prefix cfg @ lit ''w'', cf_key cfg, int_text n]"
    by (rule quiet_wait [OF assms(1,5,6) t1(2-6) assms(16) grant_parsed [OF assms(7,9,10)]])
  obtain f3 t3 where t3: "release_unlocked cfg t2 = (Inr True, t3)" "closed_blank t3"
    "sent_on t3 ?c = sent_on t2 ?c @ [f3]"
    "frame_lines f3 = map Some [acquire_prefix cfg @ lit ''r'', cf_key cfg, tok]"
    by (rule quiet_release [OF assms(1) t2(2-5) assms(8) t2(7,9) assms(17)])
  have "map frame_lines (sent_on t3 ?c) = frames_on t1 ?c @ [frame_lines f2, frame_lines f3]"
    by (simp add: frames_on_def t2(8) t3(3))
  with t1(1,7) t2(1,5,6,10) t3(1,2,4) show ?thesis by (simp del: lit_Cons)
qed

definition line_bytes :: "pystr \<Rightarrow> byte list" where
  "line_bytes s = concat (map utf8_char s)"

lemma short_line_response:
  assumes "list_all (\<lambda>c. 0x20 \<le> c \<and> c < 0x80) s" "s \<noteq> []" "length s \<le> 1000"
  shows "response (line_bytes s @ [0x0A]) e s"
proof (rule line_response)
  have ascii: "list_all (\<lambda>c. c < 0x80) s" using assms(1) by (simp add: list_all_iff)
  then show "utf8_encode s = Inr (line_bytes s)"
    using ascii_wire_size by (simp add: utf8_encode_eq_Inr line_bytes_def)
  show "length (line_bytes s) + 2 \<le> MAX_RESPONSE_LINE_BYTES"
    using ascii_wire_size [OF ascii] assms(3) wire_size_concat [of s] by (simp add: line_bytes_def limits)
  have "0x20 \<le> last s" using assms(1,2) by (simp add: list_all_iff)
  then show "last s \<noteq> 0x0D" "last s \<noteq> 0x0A" by simp_all
  show "0x0A \<notin> set s" using assms(1) by (auto simp: list_all_iff)
qed (use assms(2) in simp_all)

definition session_lock :: lock where
  "session_lock = init_lock [Io (line_bytes (lit ''queued'') @ [0x0A]) Eof,
     Io (grant_bytes (lit ''ab12'') 33 @ [0x0A]) Eof, Io (line_bytes (lit ''ok'') @ [0x0A]) Eof] [DialOk] [] []"

theorem two_phase_session_witness:
  "\<exists>t1 t2 t3. enqueue_unlocked sample_config session_lock = (Inr (lit ''queued''), t1) \<and>
    wait_unlocked sample_config (VInt 10) t1 = (Inr True, t2) \<and> l_token t2 = Some (lit ''ab12'') \<and>
    release_unlocked sample_config t2 = (Inr True, t3) \<and>
    map frame_lines (sent_on t3 0) =
      [map Some [lit ''e'', lit ''k'', []], map Some [lit ''w'', lit ''k'', lit ''10''], map Some [lit ''r'', lit ''k'', lit ''ab12'']]"
proof -
  have arg: "make_enqueue_arg (opt_int (acquire_limit sample_config)) (cf_lease_ttl_s sample_config) = Inr []"
    unfolding sample_config_ok
    by (simp add: make_enqueue_arg_def build_enqueue_arg_def append_optional_int_def opt_int_def is_None_def res_simps
        validator_iff encodable_def wire_size_def limits)
  have tok: "validate_token (lit ''ab12'') = Inr ()" "10 \<le> LARGEST_USABLE_TIMEOUT_S" "(33 :: int) \<le> MAX_PROTOCOL_SECONDS"
    using sample_args(5,6) by (simp_all add: validator_iff LARGEST_USABLE_TIMEOUT_S_def limits wire_size_def utf8_char_def
        encodable_def is_scalar_def is_surrogate_def)
  have init: "blank session_lock" "l_sched session_lock = []" "dials session_lock = DialOk # []" "socks session_lock = []"
    "ios session_lock = Io (line_bytes (lit ''queued'') @ [0x0A]) Eof # Io (grant_bytes (lit ''ab12'') 33 @ [0x0A]) Eof #
       Io (line_bytes (lit ''ok'') @ [0x0A]) Eof # []"
    unfolding session_lock_def by (rule blank_init) (simp_all add: init_lock_def)
  have lines: "response (line_bytes (lit ''queued'') @ [0x0A]) Eof (lit ''queued'')"
    "response (grant_bytes (lit ''ab12'') 33 @ [0x0A]) Eof (grant_line (lit ''ok'') (lit ''ab12'') 33)"
    "response (line_bytes (lit ''ok'') @ [0x0A]) Eof (lit ''ok'')"
    apply (simp add: short_line_response)
    subgoal using sample_args by (intro grant_response) (simp_all add: limits)
    apply (simp add: short_line_response)
    done
  have ten: "int_text 10 = lit ''10''" by (simp add: int_text_def nat_digits.simps)
  have range: "(0 :: int) \<le> 10" "(1 :: int) \<le> 33" by simp_all
  have pre: "admits sample_config []" "auth_lines sample_config = []"
    by (simp_all add: admits_def auth_lines_def sample_config_ok(9))
  have ios: "ios session_lock = [] @ Io (line_bytes (lit ''queued'') @ [0x0A]) Eof #
      Io (grant_bytes (lit ''ab12'') 33 @ [0x0A]) Eof # Io (line_bytes (lit ''ok'') @ [0x0A]) Eof # []"
    by (simp add: init(5))
  from two_phase_session [OF sample_config_ok(1,2) pre(1) arg range(1) tok(2) sample_args(4) tok(1) range(2) tok(3)
      init(1-3) ios lines]
  have run: "\<exists>t1 t2 t3. enqueue_unlocked sample_config session_lock = (Inr (lit ''queued''), t1) \<and>
    wait_unlocked sample_config (VInt 10) t1 = (Inr True, t2) \<and> l_token t2 = Some (lit ''ab12'') \<and> l_lease t2 = 33 \<and>
    release_unlocked sample_config t2 = (Inr True, t3) \<and> closed_blank t3 \<and>
    map frame_lines (sent_on t3 0) = map (map Some) ([] @
      [[[] @ lit ''e'', lit ''k'', []], [[] @ lit ''w'', lit ''k'', lit ''10''], [[] @ lit ''r'', lit ''k'', lit ''ab12'']])"
    unfolding sample_config_ok init(4) list.size(3) ten pre(2) .
  then show ?thesis unfolding append.simps(1) list.map by (elim exE conjE) (intro exI conjI)
qed

end
