(* ===== verification/Async_Client.thy ===== *)
theory Async_Client
  imports Async_Transport Client_Config
begin

text \<open>
  The high-level objects of \<open>_async.py\<close> (\<open>_AsyncBase\<close> with its two subclasses) and their renewal tasks,
  as one executable model.

  asyncio is cooperative: other tasks run only where a coroutine waits.  So the code between two
  awaits is one atomic piece, and \<open>pause\<close> is a wait: the tasks take the steps the schedule \<open>a_sched\<close>
  names next, and then \<open>a_cancels\<close> says whether the caller's own task was cancelled there.  A cancellation
  during a request is a \<open>CancelledError\<close> the script of the network raises.  A renewal task is a program
  counter with the flag \<^verbatim>\<open>task.cancel()\<close> sets; \<open>task_step\<close> resumes a task until its next wait.  A renewal
  request and its response are one action, at the time the response arrives.  \<open>_state_lock\<close> serialises
  the public methods.
\<close>

section \<open>State\<close>

datatype tpc =
    T_Init
  | T_Sleep rat
  | T_Lock
  | T_Io nat pystr
  | T_Done

record task =
  t_cancel :: bool
  t_pc :: tpc

datatype async_log =
    AsyncLost pystr pystr
  | AsyncReleaseFailed pystr
  | AsyncExitFailed pystr
  | AsyncLeak pystr

record alock = net +
  a_conn :: "nat option"
  a_token :: "pystr option"
  a_lease :: int
  a_renew_task :: "nat option"
  a_io_lock :: "nat option"
  a_closed :: bool
  a_tasks :: "task list"
  a_sched :: "nat list list"
  a_cancels :: "bool list"
  a_log :: "async_log list"

text \<open>The caller is owner \<open>0\<close> of \<open>_io_lock\<close>, renewal task \<open>w\<close> is owner \<open>Suc w\<close>.\<close>

definition init_alock :: "io_event list \<Rightarrow> dial_event list \<Rightarrow> nat list list \<Rightarrow> bool list \<Rightarrow> alock" where
  "init_alock ios0 dials0 sched cancels =
    \<lparr>socks = [], ios = ios0, dials = dials0,
     a_conn = None, a_token = None, a_lease = 0, a_renew_task = None, a_io_lock = None,
     a_closed = False, a_tasks = [], a_sched = sched, a_cancels = cancels, a_log = []\<rparr>"

type_synonym 'a coro = "(exn, alock, 'a) prog"

definition cancelled :: exn where
  "cancelled = Exn CancelledError []"

section \<open>Configuration\<close>

text \<open>\<open>_async.py\<close> repeats the configuration of the sync objects; the two agree.\<close>

definition async_validate_renew_ratio :: "pyval \<Rightarrow> unit res" where
  "async_validate_renew_ratio ratio =
    seqE (raise_if (\<not> is_number ratio) (Exn BuiltinTypeError [Txt (lit ''not supported between instances'')]))
      (raise_if (\<not> (num_greater ratio 0 \<and> num_less ratio 1))
        (Exn ValueError [Txt (lit ''renew_ratio must be between 0 and 1 (exclusive)'')]))"

definition async_base_post_init :: "config \<Rightarrow> unit res" where
  "async_base_post_init cfg =
    seqE (validate_key (lit ''key'') (cf_key cfg))
    (seqE (validate_timeout_s (lit ''acquire_timeout_s'') (cf_acquire_timeout_s cfg))
    (seqE (validate_lease_ttl_s (cf_lease_ttl_s cfg))
    (seqE (validate_connect_timeout_s (cf_connect_timeout_s cfg))
    (seqE (validate_servers (cf_servers cfg))
      (async_validate_renew_ratio (cf_renew_ratio cfg))))))"

definition async_post_init :: "config \<Rightarrow> unit res" where
  "async_post_init cfg =
    (case cf_kind cfg of
       LockKind \<Rightarrow> async_base_post_init cfg
     | SemaphoreKind limit \<Rightarrow> seqE (validate_semaphore_limit limit) (async_base_post_init cfg))"

definition async_default_config :: "pystr \<Rightarrow> config" where
  "async_default_config key =
    \<lparr>cf_key = key, cf_acquire_timeout_s = VInt 10, cf_lease_ttl_s = VNone,
     cf_servers = VList [VTuple [VStr (lit ''127.0.0.1''), VInt 6388]],
     cf_sharding_strategy = stable_hash_shard, cf_renew_ratio = VFloat (Fin (1 / 2)),
     cf_ssl_context = False, cf_auth_token = None, cf_connect_timeout_s = VFloat (Fin 10),
     cf_kind = LockKind\<rparr>"

definition async_pick_server :: "config \<Rightarrow> (pyval \<times> pyval) res" where
  "async_pick_server cfg =
    (case seq_items (cf_servers cfg) of
       None \<Rightarrow> raiseE BuiltinTypeError [Txt (lit ''object has no len()'')]
     | Some servers \<Rightarrow>
         bindE (cf_sharding_strategy cfg (cf_key cfg) (int (length servers))) (\<lambda>index.
         bindE (validate_shard_index index (int (length servers))) (\<lambda>idx.
         unpack_pair (servers ! nat idx))))"

definition ASYNC_LEASE_FALLBACK_S :: int where "ASYNC_LEASE_FALLBACK_S = 30"

definition async_renew_interval :: "int \<Rightarrow> rat \<Rightarrow> rat" where
  "async_renew_interval lease_s ratio =
    (let lease = (if lease_s > 0 then lease_s else ASYNC_LEASE_FALLBACK_S)
     in max 1 (fl_mult (of_int lease) ratio))"

lemma async_config_eq [simp]:
  "async_post_init = post_init" "async_default_config = default_config" "async_pick_server = pick_server"
  "async_renew_interval = renew_interval"
proof -
  have ratio: "async_validate_renew_ratio = validate_renew_ratio"
    by (rule ext) (simp only: async_validate_renew_ratio_def validate_renew_ratio_def)
  have "async_base_post_init = base_post_init"
    by (rule ext) (simp only: async_base_post_init_def base_post_init_def ratio)
  then show "async_post_init = post_init" by (intro ext) (simp only: async_post_init_def post_init_def)
  show "async_default_config = default_config"
    by (rule ext) (simp only: async_default_config_def default_config_def)
  show "async_pick_server = pick_server" by (rule ext) (simp only: async_pick_server_def pick_server_def)
  show "async_renew_interval = renew_interval"
    by (intro ext) (simp only: async_renew_interval_def renew_interval_def ASYNC_LEASE_FALLBACK_S_def
        DEFAULT_LEASE_FALLBACK_S_def)
qed

section \<open>Protocol hooks of the two subclasses\<close>

definition alock_proto_acquire :: "config \<Rightarrow> nat \<Rightarrow> (pystr \<times> int) coro" where
  "alock_proto_acquire cfg conn =
    async_acquire conn (cf_key cfg) (cf_acquire_timeout_s cfg) (cf_lease_ttl_s cfg) [] VNone"

definition alock_proto_release :: "config \<Rightarrow> nat \<Rightarrow> pystr \<Rightarrow> unit coro" where
  "alock_proto_release cfg conn token = async_release conn (cf_key cfg) token []"

definition alock_proto_renew :: "config \<Rightarrow> nat \<Rightarrow> pystr \<Rightarrow> int coro" where
  "alock_proto_renew cfg conn token =
    async_renew conn (cf_key cfg) token (cf_lease_ttl_s cfg) [] RENEW_READ_TIMEOUT_S"

definition alock_proto_enqueue :: "config \<Rightarrow> nat \<Rightarrow> (pystr \<times> pystr option \<times> int option) coro" where
  "alock_proto_enqueue cfg conn = async_enqueue conn (cf_key cfg) (cf_lease_ttl_s cfg) [] VNone"

definition alock_proto_wait :: "config \<Rightarrow> nat \<Rightarrow> pyval \<Rightarrow> (pystr \<times> int) coro" where
  "alock_proto_wait cfg conn timeout_s = async_wait conn (cf_key cfg) timeout_s []"

definition asem_proto_acquire :: "config \<Rightarrow> pyval \<Rightarrow> nat \<Rightarrow> (pystr \<times> int) coro" where
  "asem_proto_acquire cfg limit conn =
    async_acquire conn (cf_key cfg) (cf_acquire_timeout_s cfg) (cf_lease_ttl_s cfg) (lit ''s'') limit"

definition asem_proto_release :: "config \<Rightarrow> nat \<Rightarrow> pystr \<Rightarrow> unit coro" where
  "asem_proto_release cfg conn token = async_release conn (cf_key cfg) token (lit ''s'')"

definition asem_proto_renew :: "config \<Rightarrow> nat \<Rightarrow> pystr \<Rightarrow> int coro" where
  "asem_proto_renew cfg conn token =
    async_renew conn (cf_key cfg) token (cf_lease_ttl_s cfg) (lit ''s'') RENEW_READ_TIMEOUT_S"

definition asem_proto_enqueue :: "config \<Rightarrow> pyval \<Rightarrow> nat \<Rightarrow> (pystr \<times> pystr option \<times> int option) coro" where
  "asem_proto_enqueue cfg limit conn =
    async_enqueue conn (cf_key cfg) (cf_lease_ttl_s cfg) (lit ''s'') limit"

definition asem_proto_wait :: "config \<Rightarrow> nat \<Rightarrow> pyval \<Rightarrow> (pystr \<times> int) coro" where
  "asem_proto_wait cfg conn timeout_s = async_wait conn (cf_key cfg) timeout_s (lit ''s'')"

definition aproto_acquire :: "config \<Rightarrow> nat \<Rightarrow> (pystr \<times> int) coro" where
  "aproto_acquire cfg conn =
    (case cf_kind cfg of
       LockKind \<Rightarrow> alock_proto_acquire cfg conn
     | SemaphoreKind limit \<Rightarrow> asem_proto_acquire cfg limit conn)"

definition aproto_release :: "config \<Rightarrow> nat \<Rightarrow> pystr \<Rightarrow> unit coro" where
  "aproto_release cfg conn token =
    (case cf_kind cfg of
       LockKind \<Rightarrow> alock_proto_release cfg conn token
     | SemaphoreKind _ \<Rightarrow> asem_proto_release cfg conn token)"

definition aproto_renew :: "config \<Rightarrow> nat \<Rightarrow> pystr \<Rightarrow> int coro" where
  "aproto_renew cfg conn token =
    (case cf_kind cfg of
       LockKind \<Rightarrow> alock_proto_renew cfg conn token
     | SemaphoreKind _ \<Rightarrow> asem_proto_renew cfg conn token)"

definition aproto_enqueue :: "config \<Rightarrow> nat \<Rightarrow> (pystr \<times> pystr option \<times> int option) coro" where
  "aproto_enqueue cfg conn =
    (case cf_kind cfg of
       LockKind \<Rightarrow> alock_proto_enqueue cfg conn
     | SemaphoreKind limit \<Rightarrow> asem_proto_enqueue cfg limit conn)"

definition aproto_wait :: "config \<Rightarrow> nat \<Rightarrow> pyval \<Rightarrow> (pystr \<times> int) coro" where
  "aproto_wait cfg conn timeout_s =
    (case cf_kind cfg of
       LockKind \<Rightarrow> alock_proto_wait cfg conn timeout_s
     | SemaphoreKind _ \<Rightarrow> asem_proto_wait cfg conn timeout_s)"

lemmas aproto_defs = aproto_acquire_def aproto_release_def aproto_renew_def aproto_enqueue_def
  aproto_wait_def alock_proto_acquire_def alock_proto_release_def alock_proto_renew_def
  alock_proto_enqueue_def alock_proto_wait_def asem_proto_acquire_def asem_proto_release_def
  asem_proto_renew_def asem_proto_enqueue_def asem_proto_wait_def async_acquire_def async_release_def
  async_renew_def async_enqueue_def async_wait_def

section \<open>The renewal task\<close>

definition t_goto :: "nat \<Rightarrow> tpc \<Rightarrow> alock \<Rightarrow> alock" where
  "t_goto w pc s = s\<lparr>a_tasks := (a_tasks s)[w := (a_tasks s ! w)\<lparr>t_pc := pc\<rparr>]\<rparr>"

text \<open>Leaving the \<^verbatim>\<open>async with self._io_lock\<close> block.\<close>

definition t_leave :: "nat \<Rightarrow> tpc \<Rightarrow> alock \<Rightarrow> alock" where
  "t_leave w pc s = t_goto w pc (s\<lparr>a_io_lock := None\<rparr>)"

definition alog_renew_failure :: "config \<Rightarrow> alock \<Rightarrow> alock" where
  "alog_renew_failure cfg s =
    (if a_closed s then s
     else s\<lparr>a_log := a_log s @ [AsyncLost (cf_key cfg) (token_for_log (a_token s))]\<rparr>)"

definition handle_renew_failure :: "config \<Rightarrow> nat \<Rightarrow> alock \<Rightarrow> alock" where
  "handle_renew_failure cfg conn s =
    (if a_closed s then s
     else let s1 = alog_renew_failure cfg s in
       if a_conn s1 = Some conn
       then snd (close_nowait conn (s1\<lparr>a_conn := None, a_token := None, a_lease := 0\<rparr>))
       else s1)"

definition aupdate_lease :: "int \<Rightarrow> alock \<Rightarrow> alock" where
  "aupdate_lease remaining s =
    (if remaining > 0 \<and> a_token s \<noteq> None \<and> \<not> a_closed s then s\<lparr>a_lease := remaining\<rparr> else s)"

text \<open>The rest of a tick and of the loop's body once the response is there or the request failed.\<close>

definition asafe_renew_once :: "config \<Rightarrow> nat \<Rightarrow> nat \<Rightarrow> pystr \<Rightarrow> alock \<Rightarrow> alock" where
  "asafe_renew_once cfg w conn token s =
    (case aproto_renew cfg conn token s of
       (Inr remaining, s') \<Rightarrow>
         t_leave w (T_Sleep (async_renew_interval remaining (rat_val (cf_renew_ratio cfg)))) (aupdate_lease remaining s')
     | (Inl e, s') \<Rightarrow>
         t_leave w T_Done (if isinstance e BuiltinException then handle_renew_failure cfg conn s' else s'))"

text \<open>From the moment the lock is granted to the request, without a wait in between.\<close>

definition arenew_tick :: "nat \<Rightarrow> alock \<Rightarrow> alock" where
  "arenew_tick w s =
    (if a_closed s then t_goto w T_Done s
     else case (a_conn s, a_token s) of
         (Some conn, Some token) \<Rightarrow> t_goto w (T_Io conn token) (s\<lparr>a_io_lock := Some (Suc w)\<rparr>)
       | _ \<Rightarrow> t_goto w T_Done s)"

text \<open>\<^verbatim>\<open>CancelledError\<close> is thrown at the wait the task is in; in a request, after the frame was written.\<close>

definition cancel_request :: "config \<Rightarrow> nat \<Rightarrow> pystr \<Rightarrow> alock \<Rightarrow> alock" where
  "cancel_request cfg conn token s =
    (snd (aproto_renew cfg conn token (s\<lparr>ios := [Io [] (ReadFail cancelled)]\<rparr>)))\<lparr>ios := ios s\<rparr>"

definition task_cancelled :: "config \<Rightarrow> nat \<Rightarrow> alock \<Rightarrow> alock" where
  "task_cancelled cfg w s =
    (case t_pc (a_tasks s ! w) of
       T_Io conn token \<Rightarrow> t_leave w T_Done (cancel_request cfg conn token s)
     | _ \<Rightarrow> t_goto w T_Done s)"

definition task_step :: "config \<Rightarrow> nat \<Rightarrow> alock \<Rightarrow> alock" where
  "task_step cfg w s =
    (if length (a_tasks s) \<le> w then s
     else if t_cancel (a_tasks s ! w) then task_cancelled cfg w s
     else case t_pc (a_tasks s ! w) of
         T_Init \<Rightarrow> t_goto w (T_Sleep (async_renew_interval (a_lease s) (rat_val (cf_renew_ratio cfg)))) s
       | T_Sleep _ \<Rightarrow> if a_io_lock s = None then arenew_tick w s else t_goto w T_Lock s
       | T_Lock \<Rightarrow> if a_io_lock s = None then arenew_tick w s else s
       | T_Io conn token \<Rightarrow> asafe_renew_once cfg w conn token s
       | T_Done \<Rightarrow> s)"

section \<open>Waiting\<close>

definition aburst :: "config \<Rightarrow> alock \<Rightarrow> alock" where
  "aburst cfg s =
    (case a_sched s of [] \<Rightarrow> s | ws # r \<Rightarrow> fold (task_step cfg) ws (s\<lparr>a_sched := r\<rparr>))"

definition cancel_point :: "unit coro" where
  "cancel_point s =
    (case a_cancels s of
       [] \<Rightarrow> (Inr (), s)
     | c # r \<Rightarrow> (if c then Inl cancelled else Inr (), s\<lparr>a_cancels := r\<rparr>))"

definition pause :: "config \<Rightarrow> unit coro" where
  "pause cfg = seqP (modP (aburst cfg)) cancel_point"

text \<open>Waiting for a request of the caller's own: its result comes from the script of the network.\<close>

definition await_io :: "config \<Rightarrow> 'a coro \<Rightarrow> 'a coro" where
  "await_io cfg m = seqP (modP (aburst cfg)) m"

fun await_lock :: "config \<Rightarrow> nat \<Rightarrow> alock \<Rightarrow> alock" where
  "await_lock cfg 0 s = s"
| "await_lock cfg (Suc n) s =
    (case a_io_lock s of
       None \<Rightarrow> s
     | Some owner \<Rightarrow> await_lock cfg n (aburst cfg (task_step cfg (owner - 1) s)))"

text \<open>A free lock is taken without a wait.\<close>

definition acquire_io_lock :: "config \<Rightarrow> unit coro" where
  "acquire_io_lock cfg s =
    (if a_io_lock s = None then (Inr (), s\<lparr>a_io_lock := Some 0\<rparr>)
     else seqP (pause cfg)
       (modP (\<lambda>s. (await_lock cfg (length (a_sched s) + 2) s)\<lparr>a_io_lock := Some 0\<rparr>)) s)"

definition awith_io_lock :: "config \<Rightarrow> 'a coro \<Rightarrow> 'a coro" where
  "awith_io_lock cfg m =
    seqP (acquire_io_lock cfg)
    (tryP m
      (\<lambda>e. seqP (modP (\<lambda>s. s\<lparr>a_io_lock := None\<rparr>)) (raiseP e))
      (\<lambda>a. seqP (modP (\<lambda>s. s\<lparr>a_io_lock := None\<rparr>)) (retP a)))"

section \<open>Starting and cancelling the renewal task\<close>

definition astart_renew :: "unit coro" where
  "astart_renew =
    modP (\<lambda>s. s\<lparr>a_renew_task := Some (length (a_tasks s)),
                a_tasks := a_tasks s @ [\<lparr>t_cancel = False, t_pc = T_Init\<rparr>]\<rparr>)"

definition request_cancel :: "nat \<Rightarrow> alock \<Rightarrow> alock" where
  "request_cancel t s = s\<lparr>a_tasks := (a_tasks s)[t := (a_tasks s ! t)\<lparr>t_cancel := True\<rparr>]\<rparr>"

text \<open>\<^verbatim>\<open>await asyncio.shield(task)\<close>: the task runs to its end, unless the caller is cancelled meanwhile; a
  task that has ended is not waited for.\<close>

definition cancel_and_wait :: "config \<Rightarrow> nat \<Rightarrow> unit coro" where
  "cancel_and_wait cfg t =
    seqP (modP (request_cancel t))
    (bindP (getP (\<lambda>s. t_pc (a_tasks s ! t))) (\<lambda>pc.
    if pc = T_Done then retP ()
    else seqP (pause cfg) (modP (task_step cfg t))))"

definition cancel_renew :: "config \<Rightarrow> unit coro" where
  "cancel_renew cfg =
    bindP (getP a_renew_task) (\<lambda>task.
    seqP (modP (\<lambda>s. s\<lparr>a_renew_task := None\<rparr>))
    (case task of None \<Rightarrow> retP () | Some t \<Rightarrow> cancel_and_wait cfg t))"

definition cancel_renew_locked :: "config \<Rightarrow> unit coro" where
  "cancel_renew_locked cfg =
    bindP (getP a_renew_task) (\<lambda>task.
    seqP (modP (\<lambda>s. s\<lparr>a_renew_task := None\<rparr>))
    (case task of None \<Rightarrow> retP () | Some t \<Rightarrow> cancel_and_wait cfg t))"

section \<open>Close and reset\<close>

text \<open>\<^verbatim>\<open>AsyncConn.close\<close>: the transport is closed at once, then \<^verbatim>\<open>wait_closed\<close> is awaited.\<close>

definition async_close :: "config \<Rightarrow> nat \<Rightarrow> unit coro" where
  "async_close cfg conn = seqP (close_nowait conn) (pause cfg)"

definition aclear_held_state :: "unit coro" where
  "aclear_held_state = modP (\<lambda>s. s\<lparr>a_token := None, a_lease := 0\<rparr>)"

definition detach_conn :: "nat option coro" where
  "detach_conn =
    bindP (getP a_conn) (\<lambda>conn.
    seqP (modP (\<lambda>s. s\<lparr>a_conn := None\<rparr>))
    (seqP aclear_held_state
    (retP conn)))"

definition aclose_unlocked :: "config \<Rightarrow> unit coro" where
  "aclose_unlocked cfg =
    bindP (getP (\<lambda>s. a_closed s \<and> a_conn s = None \<and> a_renew_task s = None)) (\<lambda>closed.
    if closed then aclear_held_state
    else
      seqP (modP (\<lambda>s. s\<lparr>a_closed := True\<rparr>))
      (bindP detach_conn (\<lambda>conn.
      seqP (case conn of None \<Rightarrow> retP () | Some c \<Rightarrow> close_nowait c)
      (seqP (cancel_renew cfg)
      (case conn of None \<Rightarrow> retP () | Some c \<Rightarrow> async_close cfg c)))))"

definition areset_for_new_attempt :: "config \<Rightarrow> unit coro" where
  "areset_for_new_attempt cfg =
    seqP (cancel_renew cfg)
    (seqP (aclose_unlocked cfg)
    (modP (\<lambda>s. s\<lparr>a_closed := False\<rparr>)))"

section \<open>Connecting\<close>

definition amaybe_authenticate :: "config \<Rightarrow> nat \<Rightarrow> pystr option \<Rightarrow> nat coro" where
  "amaybe_authenticate cfg conn auth_token =
    (case auth_token of
       None \<Rightarrow> retP conn
     | Some tok \<Rightarrow>
         on_errorP (seqP (await_io cfg (async_authenticate conn tok)) (retP conn)) (async_close cfg conn))"

definition aopen_and_authenticate :: "config \<Rightarrow> unit coro" where
  "aopen_and_authenticate cfg =
    bindP (liftE (async_pick_server cfg)) (\<lambda>(host, port).
    bindP (await_io cfg (async_open_conn host port (cf_ssl_context cfg) (cf_connect_timeout_s cfg))) (\<lambda>conn.
    bindP (amaybe_authenticate cfg conn (cf_auth_token cfg)) (\<lambda>conn.
    modP (\<lambda>s. s\<lparr>a_conn := Some conn\<rparr>))))"

definition arequire_conn :: "nat coro" where
  "arequire_conn =
    bindP (getP a_conn) (\<lambda>conn.
    case conn of
      None \<Rightarrow> raiseP (Exn RuntimeError [Txt (lit ''not connected'')])
    | Some c \<Rightarrow> retP c)"

definition arequire_conn_for_wait :: "nat coro" where
  "arequire_conn_for_wait =
    bindP (getP a_conn) (\<lambda>conn.
    case conn of
      None \<Rightarrow> raiseP (Exn RuntimeError [Txt (lit ''not connected; call enqueue() first'')])
    | Some c \<Rightarrow> retP c)"

section \<open>Acquire, enqueue, wait\<close>

definition aset_held :: "pystr option \<Rightarrow> int \<Rightarrow> unit coro" where
  "aset_held tok lease = modP (\<lambda>s. s\<lparr>a_token := tok, a_lease := lease\<rparr>)"

definition ainvoke_acquire :: "config \<Rightarrow> bool coro" where
  "ainvoke_acquire cfg =
    tryP
      (bindP arequire_conn (\<lambda>conn.
       bindP (await_io cfg (aproto_acquire cfg conn)) (\<lambda>(tok, lease).
       aset_held (Some tok) lease)))
      (\<lambda>e. if isinstance e DflockdTimeoutError then seqP (aclose_unlocked cfg) (retP False)
           else seqP (aclose_unlocked cfg) (raiseP e))
      (\<lambda>_. seqP astart_renew (retP True))"

definition aacquire_unlocked :: "config \<Rightarrow> bool coro" where
  "aacquire_unlocked cfg =
    seqP (areset_for_new_attempt cfg)
    (seqP (aopen_and_authenticate cfg)
    (ainvoke_acquire cfg))"

definition ahandle_enqueue_status :: "pystr \<Rightarrow> pystr option \<Rightarrow> int option \<Rightarrow> pystr coro" where
  "ahandle_enqueue_status status tok lease =
    seqP (whenP (status = lit ''acquired'')
           (seqP (aset_held tok (case lease of None \<Rightarrow> 0 | Some n \<Rightarrow> n)) astart_renew))
      (retP status)"

definition ainvoke_enqueue :: "config \<Rightarrow> pystr coro" where
  "ainvoke_enqueue cfg =
    tryP
      (bindP arequire_conn (\<lambda>conn. await_io cfg (aproto_enqueue cfg conn)))
      (\<lambda>e. seqP (aclose_unlocked cfg) (raiseP e))
      (\<lambda>(status, tok, lease). ahandle_enqueue_status status tok lease)"

definition aenqueue_unlocked :: "config \<Rightarrow> pystr coro" where
  "aenqueue_unlocked cfg =
    seqP (areset_for_new_attempt cfg)
    (seqP (aopen_and_authenticate cfg)
    (ainvoke_enqueue cfg))"

definition ainvoke_wait :: "config \<Rightarrow> pyval \<Rightarrow> bool coro" where
  "ainvoke_wait cfg timeout_s =
    bindP arequire_conn_for_wait (\<lambda>conn.
    tryP
      (bindP (await_io cfg (aproto_wait cfg conn timeout_s)) (\<lambda>(tok, lease). aset_held (Some tok) lease))
      (\<lambda>e. if isinstance e DflockdTimeoutError then seqP (aclose_unlocked cfg) (retP False)
           else seqP (aclose_unlocked cfg) (raiseP e))
      (\<lambda>_. seqP astart_renew (retP True)))"

definition await_unlocked :: "config \<Rightarrow> pyval \<Rightarrow> bool coro" where
  "await_unlocked cfg timeout_s =
    bindP (getP a_token) (\<lambda>token.
    if token \<noteq> None then retP True
    else ainvoke_wait cfg (if \<not> is_None timeout_s then timeout_s else cf_acquire_timeout_s cfg))"

section \<open>Release\<close>

definition asafe_release :: "config \<Rightarrow> nat \<Rightarrow> pystr \<Rightarrow> bool coro" where
  "asafe_release cfg conn token =
    tryP (await_io cfg (aproto_release cfg conn token))
      (\<lambda>e. if isinstance e BuiltinException
           then seqP (modP (\<lambda>s. s\<lparr>a_log := a_log s @ [AsyncReleaseFailed (cf_key cfg)]\<rparr>)) (retP False)
           else raiseP e)
      (\<lambda>_. retP True)"

definition asend_release_quietly :: "config \<Rightarrow> bool coro" where
  "asend_release_quietly cfg =
    bindP (getP (\<lambda>s. (a_conn s, a_token s))) (\<lambda>(conn, token).
    case (conn, token) of
      (Some c, Some t) \<Rightarrow> asafe_release cfg c t
    | _ \<Rightarrow> retP False)"

definition arelease_unlocked :: "config \<Rightarrow> bool coro" where
  "arelease_unlocked cfg =
    tryP (awith_io_lock cfg (seqP (cancel_renew_locked cfg) (asend_release_quietly cfg)))
      (\<lambda>e. seqP (aclose_unlocked cfg) (raiseP e))
      (\<lambda>released. seqP (aclose_unlocked cfg) (retP released))"

section \<open>Context manager and finaliser\<close>

definition aenter :: "config \<Rightarrow> unit coro" where
  "aenter cfg =
    bindP (aacquire_unlocked cfg) (\<lambda>ok.
    if \<not> ok then raiseP (Exn BuiltinTimeoutError [Txt (lit ''timeout acquiring ''), Repr (cf_key cfg)])
    else retP ())"

definition aexit :: "config \<Rightarrow> unit coro" where
  "aexit cfg =
    tryP (arelease_unlocked cfg)
      (\<lambda>e. if isinstance e BuiltinException
           then modP (\<lambda>s. s\<lparr>a_log := a_log s @ [AsyncExitFailed (cf_key cfg)]\<rparr>)
           else raiseP e)
      (\<lambda>_. retP ())"

definition awarn_if_leaked_conn :: "config \<Rightarrow> unit coro" where
  "awarn_if_leaked_conn cfg =
    bindP (getP a_conn) (\<lambda>conn.
    case conn of
      None \<Rightarrow> retP ()
    | Some c \<Rightarrow>
        seqP (modP (\<lambda>s. s\<lparr>a_log := a_log s @ [AsyncLeak (cf_key cfg)]\<rparr>))
        (close_nowait c))"

section \<open>The public methods and the reachable states\<close>

datatype async_api = AAcquire | AEnqueue | AWait pyval | ARelease | AClose | AEnter | AExit

definition run_async_api :: "config \<Rightarrow> async_api \<Rightarrow> alock \<Rightarrow> alock" where
  "run_async_api cfg a s =
    (case a of
       AAcquire \<Rightarrow> snd (aacquire_unlocked cfg s)
     | AEnqueue \<Rightarrow> snd (aenqueue_unlocked cfg s)
     | AWait t \<Rightarrow> snd (await_unlocked cfg t s)
     | ARelease \<Rightarrow> snd (arelease_unlocked cfg s)
     | AClose \<Rightarrow> snd (aclose_unlocked cfg s)
     | AEnter \<Rightarrow> snd (aenter cfg s)
     | AExit \<Rightarrow> snd (aexit cfg s))"

inductive async_step :: "config \<Rightarrow> alock \<Rightarrow> alock \<Rightarrow> bool" for cfg where
  api: "async_step cfg s (run_async_api cfg a s)"
| renewal: "async_step cfg s (task_step cfg w s)"

inductive async_reachable :: "config \<Rightarrow> alock \<Rightarrow> bool" for cfg where
  init: "async_reachable cfg (init_alock ios0 dials0 sched cancels)"
| step: "async_reachable cfg s \<Longrightarrow> async_step cfg s s' \<Longrightarrow> async_reachable cfg s'"

end
