(* ===== verification/Async_Invariant.thy ===== *)
theory Async_Invariant
  imports Async_Client
begin

text \<open>
  The invariant of an async lock object at every wait, and its stability under the renewal tasks.
  Unlike a thread, a task runs undisturbed between two waits, so the invariant needs no intermediate
  states; but a caller that is cancelled may leave a task behind that was told to stop and has not run
  since, so there can be several.  \<open>ainv X\<close> allows the sockets in \<open>X\<close> to be open besides the object's
  connection: those the caller is about to make its own.
\<close>

section \<open>The invariant\<close>

definition tasks_ok :: "alock \<Rightarrow> bool" where
  "tasks_ok s \<longleftrightarrow>
    (\<forall>t. a_renew_task s = Some t \<longrightarrow> t < length (a_tasks s) \<and> \<not> t_cancel (a_tasks s ! t)) \<and>
    (\<forall>w < length (a_tasks s). a_renew_task s \<noteq> Some w \<longrightarrow>
       t_cancel (a_tasks s ! w) \<or> t_pc (a_tasks s ! w) = T_Done)"

fun requesting :: "tpc \<Rightarrow> bool" where
  "requesting (T_Io _ _) = True"
| "requesting _ = False"

definition io_ok :: "alock \<Rightarrow> bool" where
  "io_ok s \<longleftrightarrow>
    (\<forall>w < length (a_tasks s). requesting (t_pc (a_tasks s ! w)) \<longleftrightarrow> a_io_lock s = Some (Suc w)) \<and>
    (\<forall>w. a_io_lock s = Some (Suc w) \<longrightarrow> w < length (a_tasks s))"

text \<open>A request in flight is for the current grant, unless it is being cancelled or the object closed.\<close>

definition io_current :: "alock \<Rightarrow> bool" where
  "io_current s \<longleftrightarrow>
    (\<forall>w < length (a_tasks s). \<forall>c tok. t_pc (a_tasks s ! w) = T_Io c tok \<longrightarrow>
       t_cancel (a_tasks s ! w) \<or> a_closed s \<or> a_conn s = Some c \<and> a_token s = Some tok)"

definition socks_ok :: "nat set \<Rightarrow> alock \<Rightarrow> bool" where
  "socks_ok X s \<longleftrightarrow>
    (\<forall>c. a_conn s = Some c \<longrightarrow> c < length (socks s)) \<and>
    (\<forall>c. conn_open s c \<longrightarrow> a_conn s = Some c \<or> c \<in> X)"

definition attr_ok :: "alock \<Rightarrow> bool" where
  "attr_ok s \<longleftrightarrow>
    (a_token s = None \<longrightarrow> a_lease s = 0) \<and>
    (a_token s \<noteq> None \<longrightarrow> 1 \<le> a_lease s \<and> a_conn s \<noteq> None) \<and>
    (a_conn s \<noteq> None \<and> a_token s = None \<longrightarrow> a_renew_task s = None) \<and>
    (a_closed s \<longrightarrow> a_conn s = None \<and> a_token s = None \<and> a_renew_task s = None)"

definition ainv :: "nat set \<Rightarrow> alock \<Rightarrow> bool" where
  "ainv X s \<longleftrightarrow> tasks_ok s \<and> io_ok s \<and> io_current s \<and> socks_ok X s \<and> attr_ok s"

text \<open>What the steps of tasks can change from the caller's point of view; nothing but themselves while
  the caller owns \<open>_io_lock\<close>.\<close>

definition arely :: "alock \<Rightarrow> alock \<Rightarrow> bool" where
  "arely s t \<longleftrightarrow>
    a_closed t = a_closed s \<and> a_renew_task t = a_renew_task s \<and> dials t = dials s \<and>
    length (a_tasks t) = length (a_tasks s) \<and> length (socks t) = length (socks s) \<and>
    (a_io_lock t = Some 0 \<longleftrightarrow> a_io_lock s = Some 0) \<and>
    (a_conn t = a_conn s \<and> a_token t = a_token s \<or>
      a_conn t = None \<and> a_token t = None \<and> a_token s \<noteq> None) \<and>
    {c. conn_open t c} \<subseteq> {c. conn_open s c} \<and>
    (\<forall>w < length (a_tasks s). t_cancel (a_tasks t ! w) = t_cancel (a_tasks s ! w) \<and>
       (t_pc (a_tasks s ! w) = T_Done \<longrightarrow> t_pc (a_tasks t ! w) = T_Done)) \<and>
    (a_io_lock s = Some 0 \<longrightarrow> a_conn t = a_conn s \<and> a_token t = a_token s \<and> a_lease t = a_lease s \<and>
       socks t = socks s \<and> ios t = ios s)"

lemma arely_refl [simp]: "arely s s"
  by (simp add: arely_def)

lemma arely_trans:
  assumes st: "arely s t" and tu: "arely t u"
  shows "arely s u"
proof -
  note a = st [unfolded arely_def] and b = tu [unfolded arely_def]
  have "a_conn u = a_conn s \<and> a_token u = a_token s \<or>
      a_conn u = None \<and> a_token u = None \<and> a_token s \<noteq> None"
    using a b by metis
  moreover have "{c. conn_open u c} \<subseteq> {c. conn_open s c}" using a b by blast
  moreover have "\<forall>w < length (a_tasks s). t_cancel (a_tasks u ! w) = t_cancel (a_tasks s ! w) \<and>
      (t_pc (a_tasks s ! w) = T_Done \<longrightarrow> t_pc (a_tasks u ! w) = T_Done)"
    using a b by simp
  moreover have "a_conn u = a_conn s \<and> a_token u = a_token s \<and> a_lease u = a_lease s \<and>
       socks u = socks s \<and> ios u = ios s" if "a_io_lock s = Some 0"
    using a b that by metis
  ultimately show ?thesis unfolding arely_def using a b by (intro conjI impI) simp_all
qed

section \<open>Moving the program counter\<close>

lemma t_goto_simps [simp]:
  "socks (t_goto w pc s) = socks s" "ios (t_goto w pc s) = ios s" "dials (t_goto w pc s) = dials s"
  "a_conn (t_goto w pc s) = a_conn s" "a_token (t_goto w pc s) = a_token s"
  "a_lease (t_goto w pc s) = a_lease s" "a_renew_task (t_goto w pc s) = a_renew_task s"
  "a_io_lock (t_goto w pc s) = a_io_lock s" "a_closed (t_goto w pc s) = a_closed s"
  "a_sched (t_goto w pc s) = a_sched s" "a_cancels (t_goto w pc s) = a_cancels s"
  "a_log (t_goto w pc s) = a_log s" "length (a_tasks (t_goto w pc s)) = length (a_tasks s)"
  "conn_open (t_goto w pc s) c = conn_open s c" "socks_ok X (t_goto w pc s) = socks_ok X s"
  "attr_ok (t_goto w pc s) = attr_ok s"
  by (simp_all add: t_goto_def conn_open_def socks_ok_def attr_ok_def)

lemma task_at_goto:
  "v < length (a_tasks s) \<Longrightarrow> t_pc (a_tasks (t_goto w pc s) ! v) = (if v = w then pc else t_pc (a_tasks s ! v))"
  "v < length (a_tasks s) \<Longrightarrow> t_cancel (a_tasks (t_goto w pc s) ! v) = t_cancel (a_tasks s ! v)"
  by (cases "v = w"; simp add: t_goto_def)+

text \<open>A move of task \<open>w\<close> to \<open>pc\<close>, after the attributes changed from \<open>s\<close> to \<open>u\<close>.\<close>

lemma goto_safe:
  assumes s: "ainv X s" and w: "w < length (a_tasks s)"
    and same: "a_tasks u = a_tasks s" "a_renew_task u = a_renew_task s" "a_closed u = a_closed s"
      "dials u = dials s" "length (socks u) = length (socks s)"
    and socks: "{c. conn_open u c} \<subseteq> {c. conn_open s c}"
    and grant: "a_conn u = a_conn s \<and> a_token u = a_token s \<or>
      a_conn u = None \<and> a_token u = None \<and> a_token s \<noteq> None \<and> a_io_lock s = Some (Suc w) \<and>
      (\<forall>c. a_conn s = Some c \<longrightarrow> \<not> conn_open u c)"
    and lock: "if requesting pc then a_io_lock u = Some (Suc w) \<and> a_io_lock s \<in> {None, Some (Suc w)}
      else a_io_lock u = (if a_io_lock s = Some (Suc w) then None else a_io_lock s)"
    and cur: "\<And>c tok. pc = T_Io c tok \<Longrightarrow> a_conn u = Some c \<and> a_token u = Some tok"
    and attr: "attr_ok u"
    and quiet: "a_io_lock s = Some 0 \<Longrightarrow> a_lease u = a_lease s \<and> socks u = socks s \<and> ios u = ios s"
    and own: "a_renew_task s = Some w \<or> t_cancel (a_tasks s ! w) \<or> pc = T_Done"
    and stays: "t_pc (a_tasks s ! w) = T_Done \<Longrightarrow> pc = T_Done"
  shows "ainv X (t_goto w pc u) \<and> arely s (t_goto w pc u)"
proof -
  let ?t = "t_goto w pc u"
  have at: "v < length (a_tasks s) \<Longrightarrow> t_pc (a_tasks ?t ! v) = (if v = w then pc else t_pc (a_tasks s ! v))"
    "v < length (a_tasks s) \<Longrightarrow> t_cancel (a_tasks ?t ! v) = t_cancel (a_tasks s ! v)" for v
    using task_at_goto [of v u w pc] same by simp_all
  have i: "tasks_ok s" "io_ok s" "io_current s" "socks_ok X s" using s by (simp_all add: ainv_def)
  have "tasks_ok ?t" using i(1) same own at by (auto simp: tasks_ok_def)
  moreover have "io_ok ?t"
    using i(2) same lock w at by (auto simp: io_ok_def split: if_splits)
  moreover have "io_current ?t"
    unfolding io_current_def
  proof (intro allI impI)
    fix v c tok
    assume v: "v < length (a_tasks ?t)" "t_pc (a_tasks ?t ! v) = T_Io c tok"
    then have lv: "v < length (a_tasks s)" using same by simp
    show "t_cancel (a_tasks ?t ! v) \<or> a_closed ?t \<or> a_conn ?t = Some c \<and> a_token ?t = Some tok"
    proof (cases "v = w")
      case True
      with v lv at cur show ?thesis by simp
    next
      case False
      with v lv at have pc: "t_pc (a_tasks s ! v) = T_Io c tok" by simp
      then have "a_io_lock s = Some (Suc v)" using i(2) lv by (auto simp: io_ok_def)
      with False grant have "a_conn u = a_conn s" "a_token u = a_token s" by auto
      moreover have "t_cancel (a_tasks s ! v) \<or> a_closed s \<or> a_conn s = Some c \<and> a_token s = Some tok"
        using i(3) lv pc by (auto simp: io_current_def)
      ultimately show ?thesis using at lv same by simp
    qed
  qed
  moreover have "socks_ok X u"
    using i(4) same socks grant by (auto simp: socks_ok_def)
  moreover have "arely s ?t"
    using same socks grant quiet lock w at stays by (auto simp: arely_def split: if_splits)
  ultimately show ?thesis using attr by (simp add: ainv_def)
qed

section \<open>Requests\<close>

lemma atouches_attrs:
  fixes s s' :: alock
  assumes "touches c s s'"
  shows "a_conn s' = a_conn s" "a_token s' = a_token s" "a_lease s' = a_lease s"
    "a_renew_task s' = a_renew_task s" "a_io_lock s' = a_io_lock s" "a_closed s' = a_closed s"
    "a_tasks s' = a_tasks s" "a_sched s' = a_sched s" "a_cancels s' = a_cancels s" "a_log s' = a_log s"
    "dials s' = dials s" "length (socks s') = length (socks s)"
  using assms by (auto simp: touches_def)

lemma atouches_open: "touches c s s' \<Longrightarrow> {d. conn_open s' d} \<subseteq> {d. conn_open s d}" for s s' :: alock
proof clarify
  fix d
  assume "touches c s s'" and d: "conn_open s' d"
  then obtain k r where s': "s' = s\<lparr>socks := (socks s)[c := k], ios := r\<rparr>"
    and k: "sk_open k \<longrightarrow> sk_open (socks s ! c)" by (auto simp: touches_def)
  show "conn_open s d" using d k by (cases "d = c") (auto simp: s' conn_open_def)
qed

lemma aproto_renew_run: "aproto_renew cfg c tok s = (x, s') \<Longrightarrow> touches c s s'"
  unfolding aproto_defs by (cases "cf_kind cfg") (auto dest!: async.renew_effect simp del: lit_Cons)

lemma open_eq: "socks u = socks v \<Longrightarrow> conn_open u c = conn_open v c" for u v :: alock
  by (simp add: conn_open_def)

lemma aupd_sock_attrs [simp]:
  "a_conn (upd_sock c f s) = a_conn s" "a_token (upd_sock c f s) = a_token s"
  "a_lease (upd_sock c f s) = a_lease s" "a_renew_task (upd_sock c f s) = a_renew_task s"
  "a_io_lock (upd_sock c f s) = a_io_lock s" "a_closed (upd_sock c f s) = a_closed s"
  "a_tasks (upd_sock c f s) = a_tasks s" "a_sched (upd_sock c f s) = a_sched s"
  "a_cancels (upd_sock c f s) = a_cancels s" "a_log (upd_sock c f s) = a_log s"
  "dials (upd_sock c f s) = dials s"
  by (simp_all add: upd_sock_def)

lemma cancel_request_attrs:
  fixes s :: alock and cfg :: config and c :: nat and tok :: pystr
  defines "u \<equiv> cancel_request cfg c tok s"
  shows "a_conn u = a_conn s" "a_token u = a_token s" "a_lease u = a_lease s"
    "a_renew_task u = a_renew_task s" "a_io_lock u = a_io_lock s" "a_closed u = a_closed s"
    "a_tasks u = a_tasks s" "a_sched u = a_sched s" "a_cancels u = a_cancels s" "dials u = dials s"
    "length (socks u) = length (socks s)" "{d. conn_open u d} \<subseteq> {d. conn_open s d}" "ios u = ios s"
proof -
  obtain x v where run: "aproto_renew cfg c tok (s\<lparr>ios := [Io [] (ReadFail cancelled)]\<rparr>) = (x, v)"
    by (rule prod.exhaust)
  then have u: "u = v\<lparr>ios := ios s\<rparr>" by (simp add: u_def cancel_request_def)
  note touch = aproto_renew_run [OF run]
  show "a_conn u = a_conn s" "a_token u = a_token s" "a_lease u = a_lease s"
    "a_renew_task u = a_renew_task s" "a_io_lock u = a_io_lock s" "a_closed u = a_closed s"
    "a_tasks u = a_tasks s" "a_sched u = a_sched s" "a_cancels u = a_cancels s" "dials u = dials s"
    "length (socks u) = length (socks s)" "ios u = ios s"
    using atouches_attrs [OF touch] by (simp_all add: u)
  have "{d. conn_open v d} \<subseteq> {d. conn_open s d}"
    using atouches_open [OF touch] by (simp add: open_eq [of "s\<lparr>ios := _\<rparr>" s])
  then show "{d. conn_open u d} \<subseteq> {d. conn_open s d}" by (simp add: u)
qed

section \<open>One step of a task\<close>

lemma task_facts:
  assumes "ainv X s" "w < length (a_tasks s)"
  shows "requesting (t_pc (a_tasks s ! w)) \<longleftrightarrow> a_io_lock s = Some (Suc w)"
    and "\<not> t_cancel (a_tasks s ! w) \<Longrightarrow> t_pc (a_tasks s ! w) \<noteq> T_Done \<Longrightarrow> a_renew_task s = Some w"
  using assms by (auto simp: ainv_def io_ok_def tasks_ok_def)

lemma attr_frame:
  "attr_ok s \<Longrightarrow> a_conn t = a_conn s \<Longrightarrow> a_token t = a_token s \<Longrightarrow> a_lease t = a_lease s \<Longrightarrow>
    a_closed t = a_closed s \<Longrightarrow> a_renew_task t = a_renew_task s \<Longrightarrow> attr_ok t"
  by (simp add: attr_ok_def)

text \<open>A task that ends outside the lock.\<close>

lemma ending_safe:
  assumes s: "ainv X s" "w < length (a_tasks s)" "\<not> requesting (t_pc (a_tasks s ! w))"
  shows "ainv X (t_goto w T_Done s)" "arely s (t_goto w T_Done s)"
proof -
  have "ainv X (t_goto w T_Done s) \<and> arely s (t_goto w T_Done s)"
    by (rule goto_safe [OF s(1,2)]) (use s task_facts(1) [OF s(1,2)] in \<open>auto simp: ainv_def\<close>)
  then show "ainv X (t_goto w T_Done s)" "arely s (t_goto w T_Done s)" by simp_all
qed

lemma cancelled_safe:
  assumes s: "ainv X s" "w < length (a_tasks s)" "t_cancel (a_tasks s ! w)"
  shows "ainv X (task_cancelled cfg w s) \<and> arely s (task_cancelled cfg w s)"
proof (cases "t_pc (a_tasks s ! w)")
  case (T_Io c tok)
  note u = cancel_request_attrs [of cfg c tok s]
  have attr: "attr_ok s" using s(1) by (simp add: ainv_def)
  have lock: "a_io_lock s = Some (Suc w)" using task_facts(1) [OF s(1,2)] T_Io by simp
  show ?thesis
    unfolding task_cancelled_def T_Io tpc.case t_leave_def
    by (rule goto_safe [OF s(1,2)])
      (use u s lock in \<open>auto simp: open_eq [of "_\<lparr>a_io_lock := None\<rparr>"] intro: attr_frame [OF attr]\<close>)
qed (use s task_facts(1) [OF s(1,2)] in \<open>auto simp: task_cancelled_def intro!: ending_safe\<close>)

lemma tick_safe:
  assumes s: "ainv X s" "w < length (a_tasks s)" "a_io_lock s = None" "a_renew_task s = Some w"
    and pc: "\<not> requesting (t_pc (a_tasks s ! w))" "t_pc (a_tasks s ! w) \<noteq> T_Done"
  shows "ainv X (arenew_tick w s) \<and> arely s (arenew_tick w s)"
proof -
  have attr: "attr_ok s" using s(1) by (simp add: ainv_def)
  have "ainv X (t_goto w (T_Io c tok) (s\<lparr>a_io_lock := Some (Suc w)\<rparr>)) \<and>
      arely s (t_goto w (T_Io c tok) (s\<lparr>a_io_lock := Some (Suc w)\<rparr>))"
    if "a_conn s = Some c" "a_token s = Some tok" for c tok
    by (rule goto_safe [OF s(1,2)])
      (use that s pc in \<open>auto simp: open_eq [of "_\<lparr>a_io_lock := _\<rparr>"] intro: attr_frame [OF attr]\<close>)
  with ending_safe [OF s(1,2) pc(1)] show ?thesis
    by (simp add: arenew_tick_def split: option.split)
qed

lemma log_failure_attrs [simp]:
  "a_conn (alog_renew_failure cfg s) = a_conn s" "a_token (alog_renew_failure cfg s) = a_token s"
  "a_lease (alog_renew_failure cfg s) = a_lease s" "a_renew_task (alog_renew_failure cfg s) = a_renew_task s"
  "a_io_lock (alog_renew_failure cfg s) = a_io_lock s" "a_closed (alog_renew_failure cfg s) = a_closed s"
  "a_tasks (alog_renew_failure cfg s) = a_tasks s" "socks (alog_renew_failure cfg s) = socks s"
  "dials (alog_renew_failure cfg s) = dials s" "a_sched (alog_renew_failure cfg s) = a_sched s"
  "conn_open (alog_renew_failure cfg s) c = conn_open s c"
  by (simp_all add: alog_renew_failure_def conn_open_def)

lemma handle_failure_attrs:
  fixes s :: alock and cfg :: config and c :: nat
  defines "u \<equiv> handle_renew_failure cfg c s"
  assumes conn: "a_closed s \<or> a_conn s = Some c" and attr: "attr_ok s"
  shows "a_renew_task u = a_renew_task s" "a_io_lock u = a_io_lock s" "a_closed u = a_closed s"
    "a_tasks u = a_tasks s" "dials u = dials s" "length (socks u) = length (socks s)" "a_sched u = a_sched s"
    "{d. conn_open u d} \<subseteq> {d. conn_open s d}" "a_conn u = None" "a_token u = None" "attr_ok u"
    "a_conn s = Some d \<Longrightarrow> \<not> conn_open u d"
proof -
  have none: "a_conn s = None" "a_token s = None" if "a_closed s" using attr that by (simp_all add: attr_ok_def)
  show "a_renew_task u = a_renew_task s" "a_io_lock u = a_io_lock s" "a_closed u = a_closed s"
    "a_tasks u = a_tasks s" "dials u = dials s" "length (socks u) = length (socks s)" "a_sched u = a_sched s"
    by (simp_all add: u_def handle_renew_failure_def Let_def close_nowait_run)
  have "socks u = socks s \<or> u = upd_sock c (\<lambda>k. k\<lparr>sk_open := False\<rparr>)
      ((alog_renew_failure cfg s)\<lparr>a_conn := None, a_token := None, a_lease := 0\<rparr>)"
    by (simp add: u_def handle_renew_failure_def Let_def close_nowait_run)
  then have "conn_open u d \<longrightarrow> conn_open s d" for d
    by (elim disjE) (simp_all add: open_eq [of u s] conn_open_upd_sock open_eq [of "_\<lparr>a_conn := _, a_token := _, a_lease := _\<rparr>" s])
  then show "{d. conn_open u d} \<subseteq> {d. conn_open s d}" by blast
  show "a_conn s = Some d \<Longrightarrow> \<not> conn_open u d"
    using conn none by (auto simp: u_def handle_renew_failure_def Let_def close_nowait_run conn_open_upd_sock)
  show "a_conn u = None" "a_token u = None" "attr_ok u"
    using conn none attr
    by (auto simp: u_def handle_renew_failure_def Let_def close_nowait_run attr_ok_def)
qed

lemma update_lease_attrs:
  "a_conn (aupdate_lease n s) = a_conn s" "a_token (aupdate_lease n s) = a_token s"
  "a_renew_task (aupdate_lease n s) = a_renew_task s" "a_io_lock (aupdate_lease n s) = a_io_lock s"
  "a_closed (aupdate_lease n s) = a_closed s" "a_tasks (aupdate_lease n s) = a_tasks s"
  "socks (aupdate_lease n s) = socks s" "dials (aupdate_lease n s) = dials s"
  "a_sched (aupdate_lease n s) = a_sched s" "conn_open (aupdate_lease n s) c = conn_open s c"
  "attr_ok s \<Longrightarrow> attr_ok (aupdate_lease n s)"
  by (auto simp: aupdate_lease_def conn_open_def attr_ok_def)

lemma request_safe:
  assumes s: "ainv X s" "w < length (a_tasks s)" "t_pc (a_tasks s ! w) = T_Io c tok" "\<not> t_cancel (a_tasks s ! w)"
  shows "ainv X (asafe_renew_once cfg w c tok s) \<and> arely s (asafe_renew_once cfg w c tok s)"
proof -
  obtain x v where run: "aproto_renew cfg c tok s = (x, v)" by (rule prod.exhaust)
  note touch = aproto_renew_run [OF run]
  note v = atouches_attrs [OF touch] atouches_open [OF touch]
  have attr: "attr_ok s" using s(1) by (simp add: ainv_def)
  have lock: "a_io_lock s = Some (Suc w)" and own: "a_renew_task s = Some w"
    using task_facts [OF s(1,2)] s(3,4) by auto
  have "t_cancel (a_tasks s ! w) \<or> a_closed s \<or> a_conn s = Some c \<and> a_token s = Some tok"
    using s(1-3) by (auto simp: ainv_def io_current_def)
  then have cur: "a_closed v \<or> a_conn v = Some c" using s(4) v by auto
  have held: "a_token s \<noteq> None \<or> a_conn s = None \<and> a_token s = None"
    using attr by (auto simp: attr_ok_def) (use own in auto)
  have attrv: "attr_ok v" by (rule attr_frame [OF attr]) (use v in simp_all)
  have leave: "ainv X (t_leave w pc u) \<and> arely s (t_leave w pc u)"
    if u: "a_tasks u = a_tasks s" "a_renew_task u = a_renew_task s" "a_closed u = a_closed s"
      "dials u = dials s" "length (socks u) = length (socks s)" "{d. conn_open u d} \<subseteq> {d. conn_open s d}"
      "a_conn u = a_conn s \<and> a_token u = a_token s \<or> a_conn u = None \<and> a_token u = None \<and>
        a_token s \<noteq> None \<and> (\<forall>d. a_conn s = Some d \<longrightarrow> \<not> conn_open u d)"
      "attr_ok u" and pc: "\<not> requesting pc" for u pc
    unfolding t_leave_def
    by (rule goto_safe [OF s(1,2)])
      (use u pc s lock own in \<open>auto simp: open_eq [of "_\<lparr>a_io_lock := _\<rparr>"] intro: attr_frame [OF u(8)]\<close>)
  show ?thesis
  proof (cases x)
    case (Inr n)
    have "ainv X (t_leave w pc (aupdate_lease n v)) \<and> arely s (t_leave w pc (aupdate_lease n v))"
      if "\<not> requesting pc" for pc
      by (rule leave) (use v attrv that in \<open>simp_all add: update_lease_attrs\<close>)
    then show ?thesis by (simp add: asafe_renew_once_def run Inr)
  next
    case (Inl e)
    note f = handle_failure_attrs [OF cur attrv, where cfg = cfg]
    have "ainv X (t_leave w T_Done (handle_renew_failure cfg c v)) \<and> arely s (t_leave w T_Done (handle_renew_failure cfg c v))"
      by (rule leave) (use f v held in auto)
    moreover have "ainv X (t_leave w T_Done v) \<and> arely s (t_leave w T_Done v)"
      by (rule leave) (use v attrv in auto)
    ultimately show ?thesis by (simp add: asafe_renew_once_def run Inl)
  qed
qed

lemma task_step_safe: "ainv X s \<Longrightarrow> ainv X (task_step cfg w s) \<and> arely s (task_step cfg w s)"
proof (cases "w < length (a_tasks s) \<and> \<not> t_cancel (a_tasks s ! w)")
  case True
  assume s: "ainv X s"
  have w: "w < length (a_tasks s)" "\<not> t_cancel (a_tasks s ! w)" using True by simp_all
  note f = task_facts [OF s w(1)]
  have move: "ainv X (t_goto w pc s) \<and> arely s (t_goto w pc s)"
    if "\<not> requesting (t_pc (a_tasks s ! w))" "t_pc (a_tasks s ! w) \<noteq> T_Done" "\<not> requesting pc" for pc
    by (rule goto_safe [OF s w(1)]) (use that f w s in \<open>auto simp: ainv_def\<close>)
  show ?thesis
  proof (cases "t_pc (a_tasks s ! w)")
    case T_Init
    then show ?thesis using w move by (simp add: task_step_def)
  next
    case (T_Sleep i)
    then show ?thesis using w move f tick_safe [OF s w(1)] by (simp add: task_step_def)
  next
    case T_Lock
    then show ?thesis using w f s tick_safe [OF s w(1)] by (simp add: task_step_def)
  next
    case (T_Io c tok)
    then show ?thesis using w request_safe [OF s w(1) T_Io w(2)] by (simp add: task_step_def)
  next
    case T_Done
    then show ?thesis using w s by (simp add: task_step_def)
  qed
next
  case False
  assume "ainv X s"
  with False cancelled_safe [of X s w cfg] show ?thesis by (simp add: task_step_def)
qed

section \<open>Bursts\<close>

lemma asched_indep [simp]:
  "ainv X (s\<lparr>a_sched := r\<rparr>) = ainv X s" "ainv X (s\<lparr>a_cancels := cs\<rparr>) = ainv X s"
  "arely s (t\<lparr>a_sched := r\<rparr>) = arely s t" "arely s (t\<lparr>a_cancels := cs\<rparr>) = arely s t"
  "arely (s\<lparr>a_sched := r\<rparr>) t = arely s t" "arely (s\<lparr>a_cancels := cs\<rparr>) t = arely s t"
  by (simp_all add: ainv_def tasks_ok_def io_ok_def io_current_def socks_ok_def attr_ok_def conn_open_def arely_def)

lemma afold_safe: "ainv X s \<Longrightarrow> ainv X (fold (task_step cfg) ws s) \<and> arely s (fold (task_step cfg) ws s)"
proof (induction ws arbitrary: s)
  case (Cons w ws)
  from task_step_safe [OF Cons.prems, of cfg w] have
    t: "ainv X (task_step cfg w s)" "arely s (task_step cfg w s)" by simp_all
  from Cons.IH [OF t(1)] arely_trans [OF t(2)] show ?case by auto
qed simp

lemma aburst_safe: "ainv X s \<Longrightarrow> ainv X (aburst cfg s) \<and> arely s (aburst cfg s)"
  using afold_safe [of X "s\<lparr>a_sched := tl (a_sched s)\<rparr>" cfg "hd (a_sched s)"]
  by (cases "a_sched s") (simp_all add: aburst_def)

text \<open>A task that was told to stop ends with its next step.\<close>

lemma cancelled_ends:
  "w < length (a_tasks s) \<Longrightarrow> t_cancel (a_tasks s ! w) \<Longrightarrow> t_pc (a_tasks (task_step cfg w s) ! w) = T_Done"
  by (simp add: task_step_def task_cancelled_def t_leave_def t_goto_def cancel_request_attrs split: tpc.split)

section \<open>A busy lock is granted\<close>

lemma asched_step [simp]: "a_sched (task_step cfg w s) = a_sched s"
proof -
  have "a_sched (asafe_renew_once cfg w c tok s) = a_sched s" for c tok
  proof -
    obtain x v where run: "aproto_renew cfg c tok s = (x, v)" by (rule prod.exhaust)
    have "a_sched (handle_renew_failure cfg c v) = a_sched v"
      by (simp add: handle_renew_failure_def Let_def close_nowait_run)
    moreover have "a_sched v = a_sched s" by (rule atouches_attrs(8) [OF aproto_renew_run [OF run]])
    ultimately show ?thesis
      by (simp add: asafe_renew_once_def run t_leave_def update_lease_attrs split: sum.split)
  qed
  then show ?thesis
    by (simp add: task_step_def task_cancelled_def t_leave_def arenew_tick_def cancel_request_attrs
        split: tpc.split option.split)
qed

lemma asched_burst [simp]: "a_sched (aburst cfg s) = tl (a_sched s)"
proof -
  have "a_sched (fold (task_step cfg) ws s) = a_sched s" for ws s
    by (induction ws arbitrary: s) simp_all
  then show ?thesis by (simp add: aburst_def split: list.split)
qed

text \<open>The owner's next step leaves the lock.\<close>

lemma owner_leaves:
  assumes "ainv X s" "a_io_lock s = Some (Suc w)"
  shows "a_io_lock (task_step cfg w s) = None"
proof -
  have w: "w < length (a_tasks s)" using assms by (simp add: ainv_def io_ok_def)
  with task_facts(1) [OF assms(1) w] assms(2) obtain c tok where pc: "t_pc (a_tasks s ! w) = T_Io c tok"
    by (cases "t_pc (a_tasks s ! w)") auto
  obtain x v where run: "aproto_renew cfg c tok s = (x, v)" by (rule prod.exhaust)
  from w pc run show ?thesis
    by (simp add: task_step_def task_cancelled_def asafe_renew_once_def t_leave_def split: sum.split)
qed

definition alock_turns :: "alock \<Rightarrow> nat" where
  "alock_turns s = length (a_sched s) + (if a_io_lock s = None then 0 else 1)"

lemma alock_granted:
  assumes "ainv X s" "a_io_lock s \<noteq> Some 0" "alock_turns s \<le> n"
  shows "ainv X (await_lock cfg n s) \<and> arely s (await_lock cfg n s) \<and> a_io_lock (await_lock cfg n s) = None"
  using assms
proof (induction n arbitrary: s)
  case 0
  then show ?case by (simp add: alock_turns_def split: if_splits)
next
  case (Suc n)
  show ?case
  proof (cases "a_io_lock s")
    case None
    with Suc.prems show ?thesis by simp
  next
    case (Some owner)
    with Suc.prems(2) obtain w where owner: "owner = Suc w" by (cases owner) auto
    define s1 where "s1 = task_step cfg w s"
    define s2 where "s2 = aburst cfg s1"
    have s1: "ainv X s1" "arely s s1" "a_io_lock s1 = None"
      using task_step_safe [OF Suc.prems(1)] owner_leaves [OF Suc.prems(1)] Some owner by (simp_all add: s1_def)
    have s2: "ainv X s2" "arely s s2"
      using aburst_safe [OF s1(1), of cfg] arely_trans [OF s1(2)] by (simp_all add: s2_def)
    then have "a_io_lock s2 \<noteq> Some 0" using Suc.prems(2) by (simp add: arely_def)
    moreover have "alock_turns s2 \<le> n"
    proof (cases "a_sched s")
      case Nil
      then have "s2 = s1" by (simp add: s2_def s1_def aburst_def)
      then show ?thesis using Nil s1(3) Suc.prems(3) by (simp add: alock_turns_def s1_def)
    next
      case (Cons a r)
      then have "a_sched s2 = r" by (simp add: s2_def s1_def)
      with Cons Some Suc.prems(3) show ?thesis by (simp add: alock_turns_def split: if_splits)
    qed
    ultimately have "ainv X (await_lock cfg n s2) \<and> arely s2 (await_lock cfg n s2) \<and> a_io_lock (await_lock cfg n s2) = None"
      using s2(1) by (intro Suc.IH)
    then show ?thesis using arely_trans [OF s2(2)] by (simp add: Some owner s1_def s2_def)
  qed
qed

lemma alock_turns_bound: "alock_turns s \<le> length (a_sched s) + 2"
  by (simp add: alock_turns_def)

end
