(* ===== verification/Async_Lifecycle.thy ===== *)
theory Async_Lifecycle
  imports Async_Invariant
begin

text \<open>
  What each method of an async lock object does, from any state between two calls of the API (\<open>arest\<close>),
  under every interference of the renewal tasks and every cancellation of the caller.  Each method has
  one weakest-precondition lemma, as for the sync objects; the lemmas end in the invariance of \<open>arest\<close>.
\<close>

section \<open>States\<close>

definition arest :: "alock \<Rightarrow> bool" where
  "arest s \<longleftrightarrow> ainv {} s \<and> a_io_lock s \<noteq> Some 0"

text \<open>Nothing held: no connection, no token, no task the object knows of.\<close>

definition ablank :: "nat set \<Rightarrow> alock \<Rightarrow> bool" where
  "ablank X s \<longleftrightarrow> ainv X s \<and> a_io_lock s \<noteq> Some 0 \<and> a_conn s = None \<and> a_token s = None \<and> a_lease s = 0 \<and>
    a_renew_task s = None"

text \<open>Dialled and authenticated, nothing held yet.\<close>

definition aconnected :: "alock \<Rightarrow> bool" where
  "aconnected s \<longleftrightarrow> arest s \<and> a_conn s \<noteq> None \<and> a_token s = None \<and> \<not> a_closed s"

text \<open>A grant is held: token and lease as granted, the connection kept, a renewal task about to start.\<close>

definition aheld :: "alock \<Rightarrow> bool" where
  "aheld s \<longleftrightarrow> arest s \<and> a_conn s \<noteq> None \<and> \<not> a_closed s \<and>
    (\<exists>tok. a_token s = Some tok \<and> is_field tok) \<and> 1 \<le> a_lease s \<and> a_lease s \<le> MAX_PROTOCOL_SECONDS \<and>
    (\<exists>w < length (a_tasks s). a_renew_task s = Some w \<and> a_tasks s ! w = \<lparr>t_cancel = False, t_pc = T_Init\<rparr>)"

lemma ablank_no_socket: "ablank {} s \<Longrightarrow> \<not> conn_open s c"
  by (auto simp: ablank_def ainv_def socks_ok_def)

lemma ablank_arest: "ablank {} s \<Longrightarrow> arest s"
  by (simp add: ablank_def arest_def)

lemma arelyD:
  assumes "arely s t"
  shows "a_closed t = a_closed s" "a_renew_task t = a_renew_task s" "dials t = dials s"
    "length (a_tasks t) = length (a_tasks s)" "length (socks t) = length (socks s)"
    "a_io_lock t = Some 0 \<longleftrightarrow> a_io_lock s = Some 0"
    "a_conn t = a_conn s \<and> a_token t = a_token s \<or> a_conn t = None \<and> a_token t = None \<and> a_token s \<noteq> None"
    "{c. conn_open t c} \<subseteq> {c. conn_open s c}"
  using assms unfolding arely_def by blast+

lemma arest_rely: "arest s \<Longrightarrow> ainv {} t \<Longrightarrow> arely s t \<Longrightarrow> arest t"
  by (simp add: arest_def arelyD)

lemma ablank_rely: "ablank X s \<Longrightarrow> ainv X t \<Longrightarrow> arely s t \<Longrightarrow> ablank X t"
  using arelyD [of s t] by (auto simp: ablank_def ainv_def attr_ok_def)

section \<open>Rules for the waits\<close>

lemma wp_aburst:
  "ainv X s \<Longrightarrow> (\<And>t. ainv X t \<Longrightarrow> arely s t \<Longrightarrow> Q () t) \<Longrightarrow> wp (modP (aburst cfg)) Q E s"
  using aburst_safe [of X s cfg] by (simp add: wp_modP)

lemma wp_pause:
  "ainv X s \<Longrightarrow> (\<And>t. ainv X t \<Longrightarrow> arely s t \<Longrightarrow> Q () t) \<Longrightarrow> (\<And>t. ainv X t \<Longrightarrow> arely s t \<Longrightarrow> E cancelled t) \<Longrightarrow>
    wp (pause cfg) Q E s"
  unfolding pause_def wp_bindP
  by (rule wp_aburst) (auto simp: wp_def cancel_point_def split: list.split)

lemma wp_await_io:
  "ainv X s \<Longrightarrow> (\<And>t. ainv X t \<Longrightarrow> arely s t \<Longrightarrow> wp m Q E t) \<Longrightarrow> wp (await_io cfg m) Q E s"
  unfolding await_io_def wp_bindP by (rule wp_aburst)

section \<open>Cancelling the renewal task\<close>

text \<open>What remains of the object's view across a cancellation of its task.\<close>

definition adrift :: "alock \<Rightarrow> alock \<Rightarrow> bool" where
  "adrift s t \<longleftrightarrow>
    a_closed t = a_closed s \<and> dials t = dials s \<and> length (socks t) = length (socks s) \<and>
    (a_io_lock t = Some 0 \<longleftrightarrow> a_io_lock s = Some 0) \<and>
    (a_conn t = a_conn s \<and> a_token t = a_token s \<or>
      a_conn t = None \<and> a_token t = None \<and> a_token s \<noteq> None) \<and>
    {c. conn_open t c} \<subseteq> {c. conn_open s c} \<and>
    (a_io_lock s = Some 0 \<longrightarrow> a_conn t = a_conn s \<and> a_token t = a_token s \<and> a_lease t = a_lease s \<and>
       socks t = socks s \<and> ios t = ios s)"

lemma arely_adrift: "arely s t \<Longrightarrow> adrift s t"
  unfolding arely_def adrift_def by (elim conjE) (intro conjI; assumption)

lemma adrift_trans: "adrift s t \<Longrightarrow> adrift t u \<Longrightarrow> adrift s u"
  unfolding adrift_def by (elim conjE) (intro conjI; force)

definition stop_task :: "alock \<Rightarrow> alock" where
  "stop_task s =
    (case a_renew_task s of
       None \<Rightarrow> s\<lparr>a_renew_task := None\<rparr>
     | Some t \<Rightarrow> request_cancel t (s\<lparr>a_renew_task := None\<rparr>))"

lemma stop_task_attrs [simp]:
  "a_conn (stop_task s) = a_conn s" "a_token (stop_task s) = a_token s" "a_lease (stop_task s) = a_lease s"
  "a_renew_task (stop_task s) = None" "a_io_lock (stop_task s) = a_io_lock s" "a_closed (stop_task s) = a_closed s"
  "socks (stop_task s) = socks s" "ios (stop_task s) = ios s" "dials (stop_task s) = dials s"
  "length (a_tasks (stop_task s)) = length (a_tasks s)" "conn_open (stop_task s) c = conn_open s c"
  by (simp_all add: stop_task_def request_cancel_def conn_open_def split: option.split)

lemma stop_task_at:
  assumes "w < length (a_tasks s)"
  shows "t_pc (a_tasks (stop_task s) ! w) = t_pc (a_tasks s ! w)"
    "t_cancel (a_tasks (stop_task s) ! w) \<longleftrightarrow> t_cancel (a_tasks s ! w) \<or> a_renew_task s = Some w"
  using assms
  by (cases "a_renew_task s = Some w"; cases "a_renew_task s"; simp add: stop_task_def request_cancel_def)+

lemma stop_task_inv:
  assumes "tasks_ok s" "io_ok s" "io_current s" "socks_ok X s" "attr_ok (s\<lparr>a_renew_task := None\<rparr>)"
  shows "ainv X (stop_task s)"
proof -
  have "tasks_ok (stop_task s)" using assms(1) by (auto simp: tasks_ok_def stop_task_at)
  moreover have "io_ok (stop_task s)" using assms(2) by (auto simp: io_ok_def stop_task_at)
  moreover have "io_current (stop_task s)" using assms(3) by (auto simp: io_current_def stop_task_at)
  moreover have "socks_ok X (stop_task s)" using assms(4) by (simp add: socks_ok_def)
  moreover have "attr_ok (stop_task s)" using assms(5) by (simp add: attr_ok_def)
  ultimately show ?thesis by (simp add: ainv_def)
qed

lemma ainv_stop_task: "ainv X s \<Longrightarrow> ainv X (stop_task s)"
  by (rule stop_task_inv) (auto simp: ainv_def attr_ok_def)

lemma adrift_stop_task: "adrift s (stop_task s)"
  by (simp add: adrift_def)

text \<open>The object's task has ended, or the caller was cancelled while it waited for that.\<close>

lemma wp_cancel_renew:
  assumes s: "ainv X (stop_task s)"
    and Q: "\<And>t. ainv X t \<Longrightarrow> adrift s t \<Longrightarrow> a_renew_task t = None \<Longrightarrow>
      (\<And>w. a_renew_task s = Some w \<Longrightarrow> w < length (a_tasks s) \<Longrightarrow>
        w < length (a_tasks t) \<and> t_pc (a_tasks t ! w) = T_Done) \<Longrightarrow> Q () t"
    and E: "\<And>t. ainv X t \<Longrightarrow> adrift s t \<Longrightarrow> a_renew_task t = None \<Longrightarrow> E cancelled t"
  shows "wp (cancel_renew cfg) Q E s"
proof (cases "a_renew_task s")
  case None
  have "Q () (stop_task s)" by (rule Q [OF s adrift_stop_task]) (simp_all add: None)
  with None show ?thesis by (simp add: cancel_renew_def wp_simps stop_task_def)
next
  case (Some w)
  let ?u = "stop_task s"
  have u: "request_cancel w (s\<lparr>a_renew_task := None\<rparr>) = ?u" by (simp add: stop_task_def Some)
  have at: "a_tasks ?u = (a_tasks s)[w := (a_tasks s ! w)\<lparr>t_cancel := True\<rparr>]"
    by (simp add: stop_task_def Some request_cancel_def)
  have pc: "t_pc (a_tasks ?u ! w) = t_pc (a_tasks s ! w)"
    by (cases "w < length (a_tasks s)") (simp_all add: at list_update_beyond)
  have flag: "w < length (a_tasks s) \<Longrightarrow> t_cancel (a_tasks ?u ! w)" by (simp add: at)
  have "wp (if t_pc (a_tasks ?u ! w) = T_Done then retP () else seqP (pause cfg) (modP (task_step cfg w))) Q E ?u"
  proof (cases "t_pc (a_tasks ?u ! w) = T_Done")
    case True
    then show ?thesis using Q [OF s adrift_stop_task] pc Some by (simp add: wp_retP)
  next
    case False
    have "wp (pause cfg) (\<lambda>_. wp (modP (task_step cfg w)) Q E) E ?u"
    proof (rule wp_pause [OF s])
      fix t
      assume t: "ainv X t" "arely ?u t"
      have d: "adrift s t" using adrift_trans [OF adrift_stop_task arely_adrift [OF t(2)]] .
      have r: "a_renew_task t = None" using arelyD(2) [OF t(2)] by simp
      show "E cancelled t" by (rule E [OF t(1) d r])
      note step = task_step_safe [OF t(1), of cfg w]
      show "wp (modP (task_step cfg w)) Q E t"
        unfolding wp_modP
      proof (rule Q)
        show "ainv X (task_step cfg w t)" "adrift s (task_step cfg w t)" "a_renew_task (task_step cfg w t) = None"
          using step adrift_trans [OF d arely_adrift] arelyD(2) [of t "task_step cfg w t"] r by simp_all
        fix v
        assume v: "a_renew_task s = Some v" "v < length (a_tasks s)"
        with Some have w: "v = w" "w < length (a_tasks t)" using arelyD(4) [OF t(2)] by simp_all
        have "t_cancel (a_tasks t ! w)" using t(2) flag v w by (simp add: arely_def)
        with w cancelled_ends [of w t cfg] arelyD(4) [of t "task_step cfg w t"] step
        show "v < length (a_tasks (task_step cfg w t)) \<and> t_pc (a_tasks (task_step cfg w t) ! v) = T_Done"
          by simp
      qed
    qed
    with False show ?thesis by (simp add: wp_bindP)
  qed
  with Some u show ?thesis by (simp add: cancel_renew_def cancel_and_wait_def wp_simps)
qed

lemma cancel_renew_locked_eq: "cancel_renew_locked cfg = cancel_renew cfg"
  by (simp add: cancel_renew_locked_def cancel_renew_def)

section \<open>\<open>_close_unlocked\<close>\<close>

definition aclosed_blank :: "alock \<Rightarrow> bool" where
  "aclosed_blank s \<longleftrightarrow> ablank {} s \<and> a_closed s"

lemma aclosed_rely: "aclosed_blank s \<Longrightarrow> ainv {} t \<Longrightarrow> arely s t \<Longrightarrow> aclosed_blank t"
  using ablank_rely [of "{}" s t] arelyD(1) [of s t] by (simp add: aclosed_blank_def)

lemma wp_async_close:
  assumes s: "ainv {c} s" "a_conn s = None"
    and Q: "\<And>t. ainv {} t \<Longrightarrow> arely (upd_sock c (\<lambda>k. k\<lparr>sk_open := False\<rparr>) s) t \<Longrightarrow> Q () t"
    and E: "\<And>t. ainv {} t \<Longrightarrow> arely (upd_sock c (\<lambda>k. k\<lparr>sk_open := False\<rparr>) s) t \<Longrightarrow> E cancelled t"
  shows "wp (async_close cfg c) Q E s"
proof -
  have "ainv {} (upd_sock c (\<lambda>k. k\<lparr>sk_open := False\<rparr>) s)"
    using s by (auto simp: ainv_def tasks_ok_def io_ok_def io_current_def socks_ok_def attr_ok_def conn_open_upd_sock)
  then show ?thesis
    unfolding async_close_def wp_bindP close_nowait_def wp_modP by (rule wp_pause) (rule Q E; assumption)+
qed

lemma ainv_mono: "ainv X s \<Longrightarrow> X \<subseteq> Y \<Longrightarrow> ainv Y s"
  by (auto simp: ainv_def socks_ok_def)

text \<open>The attributes and the transport are closed before the first wait, whatever happens afterwards.\<close>

definition detached :: "alock \<Rightarrow> alock" where
  "detached s =
    (let v = s\<lparr>a_closed := True, a_conn := None, a_token := None, a_lease := 0\<rparr> in
     case a_conn s of None \<Rightarrow> v | Some c \<Rightarrow> upd_sock c (\<lambda>k. k\<lparr>sk_open := False\<rparr>) v)"

lemma detached_attrs [simp]:
  "a_conn (detached s) = None" "a_token (detached s) = None" "a_lease (detached s) = 0"
  "a_closed (detached s)" "a_renew_task (detached s) = a_renew_task s" "a_io_lock (detached s) = a_io_lock s"
  "a_tasks (detached s) = a_tasks s"
  by (simp_all add: detached_def Let_def split: option.split)

lemma detached_open: "conn_open (detached s) c \<longleftrightarrow> conn_open s c \<and> a_conn s \<noteq> Some c"
  by (auto simp: detached_def Let_def conn_open_upd_sock split: option.split) (simp_all add: conn_open_def)

lemma detached_inv: "arest s \<Longrightarrow> ainv {} (stop_task (detached s))"
  by (rule stop_task_inv)
    (auto simp: arest_def ainv_def tasks_ok_def io_ok_def io_current_def socks_ok_def attr_ok_def detached_open)

lemma wp_aclose:
  assumes s: "arest s"
    and Q: "\<And>t. aclosed_blank t \<Longrightarrow> (\<And>w. a_renew_task s = Some w \<Longrightarrow> w < length (a_tasks s) \<Longrightarrow>
      w < length (a_tasks t) \<and> t_pc (a_tasks t ! w) = T_Done) \<Longrightarrow> Q () t"
    and E: "\<And>t. aclosed_blank t \<Longrightarrow> E cancelled t"
  shows "wp (aclose_unlocked cfg) Q E s"
proof (cases "a_closed s \<and> a_conn s = None \<and> a_renew_task s = None")
  case True
  have "a_token s = None" using s True by (simp add: arest_def ainv_def attr_ok_def)
  then have "aclosed_blank (s\<lparr>a_token := None, a_lease := 0\<rparr>)"
    using s True
    by (auto simp: aclosed_blank_def ablank_def arest_def ainv_def tasks_ok_def io_ok_def io_current_def socks_ok_def
        attr_ok_def conn_open_def)
  with True Q [of "s\<lparr>a_token := None, a_lease := 0\<rparr>"] show ?thesis
    by (simp add: aclose_unlocked_def wp_simps aclear_held_state_def)
next
  case False
  let ?u = "detached s"
  define fin where "fin = (case a_conn s of None \<Rightarrow> retP () | Some c \<Rightarrow> async_close cfg c)"
  have blank: "aclosed_blank t" if "ainv {} t" "a_closed t" "a_conn t = None" "a_token t = None" "a_renew_task t = None"
    "a_io_lock t \<noteq> Some 0" for t
    using that by (simp add: aclosed_blank_def ablank_def ainv_def attr_ok_def)
  have "wp (cancel_renew cfg) (\<lambda>_. wp fin Q E) E ?u"
  proof (rule wp_cancel_renew [OF detached_inv [OF s]])
    fix t
    assume t: "ainv {} t" "adrift ?u t" "a_renew_task t = None"
    have b: "aclosed_blank t"
      by (rule blank) (use t s in \<open>auto simp: adrift_def arest_def\<close>)
    show "E cancelled t" by (rule E [OF b])
    assume ended: "\<And>w. a_renew_task ?u = Some w \<Longrightarrow> w < length (a_tasks ?u) \<Longrightarrow>
      w < length (a_tasks t) \<and> t_pc (a_tasks t ! w) = T_Done"
    have over: "w < length (a_tasks v) \<and> t_pc (a_tasks v ! w) = T_Done"
      if "a_renew_task s = Some w" "w < length (a_tasks s)" "arely t v" for w v
      using ended [of w] that by (simp add: arely_def)
    show "wp fin Q E t"
    proof (cases "a_conn s")
      case None
      then show ?thesis using Q [OF b] over [of _ t] by (simp add: fin_def wp_retP)
    next
      case (Some c)
      let ?v = "upd_sock c (\<lambda>k. k\<lparr>sk_open := False\<rparr>) t"
      have tv: "arely t ?v" using b by (auto simp: arely_def aclosed_blank_def ablank_def conn_open_upd_sock)
      have "wp (async_close cfg c) Q E t"
      proof (rule wp_async_close)
        show "ainv {c} t" using t(1) ainv_mono by blast
        show "a_conn t = None" using b by (simp add: aclosed_blank_def ablank_def)
        fix x
        assume x: "ainv {} x" "arely ?v x"
        note tx = arely_trans [OF tv x(2)]
        show "Q () x" "E cancelled x" using aclosed_rely [OF b x(1) tx] over [OF _ _ tx] Q E by blast+
      qed
      with Some show ?thesis by (simp add: fin_def)
    qed
  qed
  moreover have "wp (aclose_unlocked cfg) Q E s = wp (cancel_renew cfg) (\<lambda>_. wp fin Q E) E ?u"
    using False
    by (cases "a_conn s") (auto simp: aclose_unlocked_def wp_simps detach_conn_def aclear_held_state_def
        close_nowait_def detached_def Let_def fin_def wp_bindP_fun wp_retP_fun wp_modP_fun)
  ultimately show ?thesis by simp
qed

section \<open>\<open>_reset_for_new_attempt\<close> and connecting\<close>

text \<open>Armed for a new attempt.\<close>

definition afresh :: "alock \<Rightarrow> bool" where
  "afresh s \<longleftrightarrow> ablank {} s \<and> \<not> a_closed s"

text \<open>A caller cancelled while the object re-arms: the old grant may still be there, without its task.\<close>

definition interrupted :: "alock \<Rightarrow> alock \<Rightarrow> bool" where
  "interrupted s t \<longleftrightarrow> arest t \<and> a_renew_task t = None \<and>
    (ablank {} t \<or> a_conn t = a_conn s \<and> a_token t = a_token s)"

lemma ablank_interrupted: "ablank {} t \<Longrightarrow> interrupted s t"
  by (simp add: interrupted_def ablank_arest) (simp add: ablank_def)

lemma wp_areset:
  assumes s: "arest s" and Q: "\<And>t. afresh t \<Longrightarrow> Q () t"
    and E: "\<And>t. interrupted s t \<Longrightarrow> E cancelled t"
  shows "wp (areset_for_new_attempt cfg) Q E s"
  unfolding areset_for_new_attempt_def wp_bindP
proof (rule wp_cancel_renew)
  show "ainv {} (stop_task s)" using s by (intro ainv_stop_task) (simp add: arest_def)
  fix t
  assume t: "ainv {} t" "adrift s t" "a_renew_task t = None"
  have rest: "arest t" using t(1,2) s by (simp add: arest_def adrift_def)
  have "ablank {} t" if "a_token t = None" "a_conn t = None"
    using that t(1,3) rest by (simp add: ablank_def arest_def ainv_def attr_ok_def)
  then show "E cancelled t"
    using t rest by (intro E) (auto simp: interrupted_def adrift_def)
  show "wp (aclose_unlocked cfg) (\<lambda>_. wp (modP (\<lambda>s. s\<lparr>a_closed := False\<rparr>)) Q E) E t"
  proof (rule wp_aclose [OF rest])
    fix u
    assume u: "aclosed_blank u"
    have "afresh (u\<lparr>a_closed := False\<rparr>)"
      using u
      by (auto simp: aclosed_blank_def afresh_def ablank_def ainv_def tasks_ok_def io_ok_def io_current_def
          socks_ok_def attr_ok_def conn_open_def)
    then show "wp (modP (\<lambda>s. s\<lparr>a_closed := False\<rparr>)) Q E u" by (simp add: wp_modP Q)
  next
    fix u
    assume "aclosed_blank u"
    then show "E cancelled u" by (intro E ablank_interrupted) (simp add: aclosed_blank_def)
  qed
qed

lemma afresh_rely: "afresh s \<Longrightarrow> ainv {} t \<Longrightarrow> arely s t \<Longrightarrow> afresh t"
  using ablank_rely [of "{}" s t] arelyD(1) [of s t] by (simp add: afresh_def)

text \<open>Dialling: a new socket, or nothing but the script of the dials changed.\<close>

lemma async_open_conn_run:
  assumes "async_open_conn h p tls ct s = (x, s')"
  shows "\<exists>ds. case x of
      Inr c \<Rightarrow> c = length (socks s) \<and> s' = s\<lparr>dials := ds, socks := socks s @ [fresh_sock]\<rparr>
    | Inl e \<Rightarrow> s' = s\<lparr>dials := ds\<rparr>"
proof -
  have same: "s = s\<lparr>dials := dials s\<rparr>" by simp
  consider e where "x = Inl e" "s' = s" | "open_connection tls s = (x, s')"
    using assms by (auto simp: async_open_conn_def bindP_liftE split: sum.splits)
  then show ?thesis
  proof cases
    case 1
    then show ?thesis using same by (intro exI [of _ "dials s"]) simp
  next
    case 2
    then show ?thesis
      by (cases "dials s"; cases "hd (dials s)")
        (auto simp: open_connection_def next_dial_def split: if_splits intro: exI [of _ "dials s"])
  qed
qed

lemma ablank_dials: "ablank X (s\<lparr>dials := ds\<rparr>) = ablank X s"
  by (simp add: ablank_def ainv_def tasks_ok_def io_ok_def io_current_def socks_ok_def attr_ok_def conn_open_def)

lemma ablank_append:
  assumes "ablank {} s"
  shows "ablank {length (socks s)} (s\<lparr>dials := ds, socks := socks s @ [k]\<rparr>)"
proof -
  have "\<not> conn_open s d" for d using ablank_no_socket [OF assms] .
  then have "conn_open (s\<lparr>dials := ds, socks := socks s @ [k]\<rparr>) d \<Longrightarrow> d = length (socks s)" for d
    by (simp add: conn_open_append)
  then have "socks_ok {length (socks s)} (s\<lparr>dials := ds, socks := socks s @ [k]\<rparr>)"
    using assms by (auto simp: socks_ok_def ablank_def)
  moreover have "io_current (s\<lparr>dials := ds, socks := socks s @ [k]\<rparr>)"
    using assms by (auto simp: ablank_def ainv_def io_current_def)
  ultimately show ?thesis
    using assms by (simp add: ablank_def ainv_def tasks_ok_def io_ok_def attr_ok_def)
qed

lemma ainv_touches: "touches c s t \<Longrightarrow> ainv X s \<Longrightarrow> ainv X t" for s t :: alock
  using atouches_attrs [of c s t] atouches_open [of c s t]
  by (auto simp: ainv_def tasks_ok_def io_ok_def io_current_def socks_ok_def attr_ok_def)

lemma ablank_touches: "touches c s t \<Longrightarrow> ablank X s \<Longrightarrow> ablank X t" for s t :: alock
  using ainv_touches [of c s t X] atouches_attrs [of c s t] by (simp add: ablank_def)

text \<open>Authentication: the connection is kept, or closed before anything is raised.\<close>

lemma wp_amaybe_authenticate:
  assumes s: "ablank {c} s" "\<not> a_closed s" "c < length (socks s)"
    and Q: "\<And>t. ablank {c} t \<Longrightarrow> \<not> a_closed t \<Longrightarrow> c < length (socks t) \<Longrightarrow> Q c t"
    and E: "\<And>e t. afresh t \<Longrightarrow> E e t"
  shows "wp (amaybe_authenticate cfg c tok) Q E s"
proof (cases tok)
  case None
  then show ?thesis using s by (simp add: amaybe_authenticate_def wp_retP Q)
next
  case (Some a)
  have fail: "wp (async_close cfg c) (\<lambda>_. E e) E t" if t: "ablank {c} t" "\<not> a_closed t" for e t
  proof (rule wp_async_close)
    show "ainv {c} t" "a_conn t = None" using t(1) by (simp_all add: ablank_def)
    fix u
    assume u: "ainv {} u" "arely (upd_sock c (\<lambda>k. k\<lparr>sk_open := False\<rparr>) t) u"
    have "afresh u"
      using u t arelyD [OF u(2)] by (auto simp: afresh_def ablank_def ainv_def attr_ok_def)
    then show "E e u" "E cancelled u" by (rule E)+
  qed
  have "wp (await_io cfg (async_authenticate c a)) (\<lambda>_. Q c) (\<lambda>e. wp (async_close cfg c) (\<lambda>_. E e) E) s"
  proof (rule wp_await_io)
    show "ainv {c} s" using s(1) by (simp add: ablank_def)
    fix t
    assume t: "ainv {c} t" "arely s t"
    note bt = ablank_rely [OF s(1) t]
    have rest: "\<not> a_closed t" "c < length (socks t)" using arelyD(1,5) [OF t(2)] s(2,3) by simp_all
    show "wp (async_authenticate c a) (\<lambda>_. Q c) (\<lambda>e. wp (async_close cfg c) (\<lambda>_. E e) E) t"
    proof (rule wp_runI)
      fix x u
      assume "async_authenticate c a t = (Inr x, u)"
      then have touch: "touches c t u"
        unfolding async_authenticate_def by (auto dest!: async.authenticate_effect simp del: lit_Cons)
      show "Q c u" by (rule Q) (use ablank_touches [OF touch bt] atouches_attrs [OF touch] rest in simp_all)
    next
      fix e u
      assume "async_authenticate c a t = (Inl e, u)"
      then have touch: "touches c t u"
        unfolding async_authenticate_def by (auto dest!: async.authenticate_effect simp del: lit_Cons)
      show "wp (async_close cfg c) (\<lambda>_. E e) E u"
        by (rule fail) (use ablank_touches [OF touch bt] atouches_attrs [OF touch] rest in simp_all)
    qed
  qed
  with Some show ?thesis
    by (simp add: amaybe_authenticate_def wp_tryP wp_bindP_fun wp_retP_fun wp_raiseP_fun)
qed

lemma wp_aopen:
  assumes s: "afresh s" and Q: "\<And>t. aconnected t \<Longrightarrow> Q () t" and E: "\<And>e t. afresh t \<Longrightarrow> E e t"
  shows "wp (aopen_and_authenticate cfg) Q E s"
proof -
  have dial: "wp (await_io cfg (async_open_conn h p (cf_ssl_context cfg) (cf_connect_timeout_s cfg)))
      (\<lambda>c. wp (amaybe_authenticate cfg c (cf_auth_token cfg)) (\<lambda>c. wp (modP (\<lambda>s. s\<lparr>a_conn := Some c\<rparr>)) Q E) E) E s" for h p
  proof (rule wp_await_io)
    show "ainv {} s" using s by (simp add: afresh_def ablank_def)
    fix t
    assume t: "ainv {} t" "arely s t"
    have ft: "afresh t" by (rule afresh_rely [OF s t])
    show "wp (async_open_conn h p (cf_ssl_context cfg) (cf_connect_timeout_s cfg))
      (\<lambda>c. wp (amaybe_authenticate cfg c (cf_auth_token cfg)) (\<lambda>c. wp (modP (\<lambda>s. s\<lparr>a_conn := Some c\<rparr>)) Q E) E) E t"
    proof (rule wp_runI)
      fix e u
      assume "async_open_conn h p (cf_ssl_context cfg) (cf_connect_timeout_s cfg) t = (Inl e, u)"
      from async_open_conn_run [OF this] ft show "E e u" by (auto intro!: E simp: afresh_def ablank_dials)
    next
      fix c u
      assume "async_open_conn h p (cf_ssl_context cfg) (cf_connect_timeout_s cfg) t = (Inr c, u)"
      from async_open_conn_run [OF this] obtain ds where c: "c = length (socks t)"
        and u: "u = t\<lparr>dials := ds, socks := socks t @ [fresh_sock]\<rparr>" by auto
      show "wp (amaybe_authenticate cfg c (cf_auth_token cfg)) (\<lambda>c. wp (modP (\<lambda>s. s\<lparr>a_conn := Some c\<rparr>)) Q E) E u"
      proof (rule wp_amaybe_authenticate)
        show "ablank {c} u" using ablank_append [where s = t and ds = ds and k = fresh_sock] ft by (simp add: c u afresh_def)
        show "\<not> a_closed u" "c < length (socks u)" using ft by (simp_all add: c u afresh_def)
        fix v
        assume v: "ablank {c} v" "\<not> a_closed v" "c < length (socks v)"
        have "socks_ok {} (v\<lparr>a_conn := Some c\<rparr>)"
          using v by (auto simp: ablank_def ainv_def socks_ok_def conn_open_def)
        moreover have "io_current (v\<lparr>a_conn := Some c\<rparr>)"
          using v(1,2) by (auto simp: ablank_def ainv_def io_current_def)
        ultimately have "aconnected (v\<lparr>a_conn := Some c\<rparr>)"
          using v by (auto simp: aconnected_def arest_def ablank_def ainv_def tasks_ok_def io_ok_def attr_ok_def)
        then show "wp (modP (\<lambda>s. s\<lparr>a_conn := Some c\<rparr>)) Q E v" by (simp add: wp_modP Q)
      qed (rule E)
    qed
  qed
  show ?thesis
    unfolding aopen_and_authenticate_def wp_bindP wp_liftE
    using dial E [OF s] by (simp add: wp_bindP_fun wp_case_prod split: sum.split prod.split)
qed

section \<open>Acquire, enqueue, wait\<close>

lemma aproto_touches:
  "aproto_acquire cfg c s = (x, t) \<Longrightarrow> touches c s t"
  "aproto_enqueue cfg c s = (y, t) \<Longrightarrow> touches c s t"
  "aproto_wait cfg c tm s = (x, t) \<Longrightarrow> touches c s t"
  "aproto_release cfg c tok s = (z, t) \<Longrightarrow> touches c s t"
  unfolding aproto_defs
  by (cases "cf_kind cfg"; auto dest!: async.acquire_effect async.enqueue_effect async.wait_effect
      async.release_effect simp del: lit_Cons)+

lemma aproto_grants:
  "aproto_acquire cfg c s = (Inr (tok, n), t) \<Longrightarrow> is_field tok \<and> 1 \<le> n \<and> n \<le> MAX_PROTOCOL_SECONDS"
  "aproto_wait cfg c tm s = (Inr (tok, n), t) \<Longrightarrow> is_field tok \<and> 1 \<le> n \<and> n \<le> MAX_PROTOCOL_SECONDS"
  unfolding aproto_defs
  by (cases "cf_kind cfg"; auto dest!: async.acquire_reply async.wait_reply simp del: lit_Cons)+

lemma aconnected_rely: "aconnected s \<Longrightarrow> ainv {} t \<Longrightarrow> arely s t \<Longrightarrow> aconnected t"
  using arest_rely [of s t] arelyD [of s t] by (auto simp: aconnected_def)

lemma aconnected_touches: "touches c s t \<Longrightarrow> aconnected s \<Longrightarrow> aconnected t" for s t :: alock
  using ainv_touches [of c s t "{}"] atouches_attrs [of c s t] by (simp add: aconnected_def arest_def)

lemma aconnected_idle: "aconnected s \<Longrightarrow> a_renew_task s = None"
  by (simp add: aconnected_def arest_def ainv_def attr_ok_def)

text \<open>Remembering a grant and starting its task, without a wait in between.\<close>

lemma start_held:
  assumes s: "aconnected s" and g: "is_field tok" "1 \<le> n" "n \<le> MAX_PROTOCOL_SECONDS"
  shows "aheld (s\<lparr>a_token := Some tok, a_lease := n, a_renew_task := Some (length (a_tasks s)),
    a_tasks := a_tasks s @ [\<lparr>t_cancel = False, t_pc = T_Init\<rparr>]\<rparr>)" (is "aheld ?t")
proof -
  have i: "tasks_ok s" "io_ok s" "io_current s" "socks_ok {} s" "attr_ok s" "a_io_lock s \<noteq> Some 0" "\<not> a_closed s"
    "a_conn s \<noteq> None" "a_renew_task s = None"
    using s aconnected_idle [OF s] by (simp_all add: aconnected_def arest_def ainv_def)
  have flagged: "t_cancel (a_tasks s ! w) \<or> t_pc (a_tasks s ! w) = T_Done" if "w < length (a_tasks s)" for w
    using i(1,9) that by (simp add: tasks_ok_def)
  have "tasks_ok ?t" using flagged by (auto simp: tasks_ok_def nth_append less_Suc_eq)
  moreover have "io_ok ?t"
    using i(2) by (auto simp: io_ok_def nth_append less_Suc_eq)
  moreover have "io_current ?t"
    unfolding io_current_def
  proof (intro allI impI)
    fix w c tk
    assume w: "w < length (a_tasks ?t)" "t_pc (a_tasks ?t ! w) = T_Io c tk"
    then have "w < length (a_tasks s)" by (auto simp: nth_append less_Suc_eq)
    with w flagged [of w] show "t_cancel (a_tasks ?t ! w) \<or> a_closed ?t \<or> a_conn ?t = Some c \<and> a_token ?t = Some tk"
      by (simp add: nth_append)
  qed
  moreover have "socks_ok {} ?t = socks_ok {} s" by (simp add: socks_ok_def conn_open_def)
  moreover have "attr_ok ?t" using i(7,8) g by (simp add: attr_ok_def)
  ultimately have "arest ?t" using i(4,6) by (simp add: arest_def ainv_def)
  moreover have "a_conn ?t \<noteq> None" "\<not> a_closed ?t" using i(7,8) by simp_all
  ultimately show ?thesis unfolding aheld_def using g by simp
qed

lemma wp_agranting:
  assumes s: "aconnected s"
    and touch: "\<And>x u t. m u = (x, t) \<Longrightarrow> touches c u t"
    and grant: "\<And>tok n u t. m u = (Inr (tok, n), t) \<Longrightarrow> is_field tok \<and> 1 \<le> n \<and> n \<le> MAX_PROTOCOL_SECONDS"
    and Q: "\<And>t. aheld t \<Longrightarrow> Q True t" "\<And>t. aclosed_blank t \<Longrightarrow> Q False t"
    and E: "\<And>e t. aclosed_blank t \<Longrightarrow> E e t"
  shows "wp (bindP (await_io cfg m) (\<lambda>(tok, lease). aset_held (Some tok) lease))
    (\<lambda>_. wp (seqP astart_renew (retP True)) Q E)
    (\<lambda>e. wp (if isinstance e DflockdTimeoutError then seqP (aclose_unlocked cfg) (retP False)
        else seqP (aclose_unlocked cfg) (raiseP e)) Q E) s"
  unfolding wp_bindP
proof (rule wp_await_io)
  show "ainv {} s" using s by (simp add: aconnected_def arest_def)
  fix t
  assume t: "ainv {} t" "arely s t"
  note ct = aconnected_rely [OF s t]
  let ?E = "\<lambda>e. wp (if isinstance e DflockdTimeoutError then seqP (aclose_unlocked cfg) (retP False)
        else seqP (aclose_unlocked cfg) (raiseP e)) Q E"
  show "wp m (\<lambda>a. wp (case a of (tok, lease) \<Rightarrow> aset_held (Some tok) lease)
      (\<lambda>_. wp astart_renew (\<lambda>_. wp (retP True) Q E) E) ?E) ?E t"
  proof (rule wp_runI)
    fix e u
    assume u: "m t = (Inl e, u)"
    have "aconnected u" by (rule aconnected_touches [OF touch [OF u] ct])
    then have rest: "arest u" by (simp add: aconnected_def)
    show "?E e u"
      using Q(2) E by (auto simp: wp_bindP wp_retP_fun wp_raiseP_fun intro!: wp_aclose [OF rest])
  next
    fix g u
    assume u: "m t = (Inr g, u)"
    obtain tok n where g: "g = (tok, n)" by (rule prod.exhaust)
    have "aconnected u" by (rule aconnected_touches [OF touch [OF u] ct])
    from start_held [OF this] grant [OF u [unfolded g]]
    show "wp (case g of (tok, lease) \<Rightarrow> aset_held (Some tok) lease)
      (\<lambda>_. wp astart_renew (\<lambda>_. wp (retP True) Q E) E) ?E u"
      by (simp add: g aset_held_def astart_renew_def wp_modP wp_modP_fun wp_retP Q(1))
  qed
qed

lemma wp_ainvoke_acquire:
  assumes s: "aconnected s"
    and Q: "\<And>t. aheld t \<Longrightarrow> Q True t" "\<And>t. aclosed_blank t \<Longrightarrow> Q False t"
    and E: "\<And>e t. aclosed_blank t \<Longrightarrow> E e t"
  shows "wp (ainvoke_acquire cfg) Q E s"
proof -
  obtain c where c: "a_conn s = Some c" using s by (auto simp: aconnected_def)
  have "wp (bindP (await_io cfg (aproto_acquire cfg c)) (\<lambda>(tok, lease). aset_held (Some tok) lease))
    (\<lambda>_. wp (seqP astart_renew (retP True)) Q E)
    (\<lambda>e. wp (if isinstance e DflockdTimeoutError then seqP (aclose_unlocked cfg) (retP False)
        else seqP (aclose_unlocked cfg) (raiseP e)) Q E) s"
    by (rule wp_agranting [OF s, where c = c]) (auto dest: aproto_touches aproto_grants intro: Q E)
  then show ?thesis
    by (simp add: ainvoke_acquire_def wp_tryP arequire_conn_def wp_bindP_fun wp_getP c wp_retP)
qed

lemma wp_aacquire:
  assumes s: "arest s"
    and Q: "\<And>t. aheld t \<Longrightarrow> Q True t" "\<And>t. aclosed_blank t \<Longrightarrow> Q False t"
    and E: "\<And>e t. ablank {} t \<Longrightarrow> E e t" "\<And>t. interrupted s t \<Longrightarrow> E cancelled t"
  shows "wp (aacquire_unlocked cfg) Q E s"
  unfolding aacquire_unlocked_def wp_bindP_fun
  by (rule wp_areset [OF s], erule wp_aopen, erule wp_ainvoke_acquire)
    (use Q E in \<open>auto simp: aclosed_blank_def afresh_def\<close>)

lemma wp_ainvoke_enqueue:
  assumes s: "aconnected s"
    and Q: "\<And>t. aheld t \<Longrightarrow> Q (lit ''acquired'') t" "\<And>t. aconnected t \<Longrightarrow> Q (lit ''queued'') t"
    and E: "\<And>e t. aclosed_blank t \<Longrightarrow> E e t"
  shows "wp (ainvoke_enqueue cfg) Q E s"
proof -
  obtain c where c: "a_conn s = Some c" using s by (auto simp: aconnected_def)
  have "wp (await_io cfg (aproto_enqueue cfg c))
    (\<lambda>(status, tok, lease). wp (ahandle_enqueue_status status tok lease) Q E)
    (\<lambda>e. wp (seqP (aclose_unlocked cfg) (raiseP e)) Q E) s"
  proof (rule wp_await_io)
    show "ainv {} s" using s by (simp add: aconnected_def arest_def)
    fix t
    assume t: "ainv {} t" "arely s t"
    note ct = aconnected_rely [OF s t]
    show "wp (aproto_enqueue cfg c) (\<lambda>(status, tok, lease). wp (ahandle_enqueue_status status tok lease) Q E)
      (\<lambda>e. wp (seqP (aclose_unlocked cfg) (raiseP e)) Q E) t"
    proof (rule wp_runI)
      fix e u
      assume "aproto_enqueue cfg c t = (Inl e, u)"
      from aconnected_touches [OF aproto_touches(2) [OF this] ct] have rest: "arest u" by (simp add: aconnected_def)
      show "wp (seqP (aclose_unlocked cfg) (raiseP e)) Q E u"
        using E by (auto simp: wp_bindP wp_raiseP_fun intro!: wp_aclose [OF rest])
    next
      fix g u
      assume u: "aproto_enqueue cfg c t = (Inr g, u)"
      obtain status tok n where g: "g = (status, tok, n)" by (cases g)
      note cu = aconnected_touches [OF aproto_touches(2) [OF u] ct]
      have "status = lit ''queued'' \<and> tok = None \<and> n = None \<or>
        (\<exists>t k. status = lit ''acquired'' \<and> tok = Some t \<and> n = Some k \<and> is_field t \<and> 1 \<le> k \<and> k \<le> MAX_PROTOCOL_SECONDS)"
        using u [unfolded g] unfolding aproto_defs
        by (cases "cf_kind cfg") (auto dest!: async.enqueue_reply simp del: lit_Cons)
      then show "(case g of (status, tok, lease) \<Rightarrow> wp (ahandle_enqueue_status status tok lease) Q E) u"
      proof (elim disjE exE conjE)
        assume "status = lit ''queued''"
        then show ?thesis using Q(2) [OF cu] by (simp add: g ahandle_enqueue_status_def wp_simps)
      next
        fix tk k
        assume a: "status = lit ''acquired''" "tok = Some tk" "n = Some k" "is_field tk" "1 \<le> k"
          "k \<le> MAX_PROTOCOL_SECONDS"
        from Q(1) [OF start_held [OF cu a(4-6)]] a(1-3) g show ?thesis
          by (simp add: ahandle_enqueue_status_def wp_bindP_fun wp_whenP wp_retP_fun wp_modP aset_held_def
              astart_renew_def wp_modP_fun del: lit_Cons)
      qed
    qed
  qed
  then show ?thesis
    by (simp add: ainvoke_enqueue_def wp_tryP arequire_conn_def wp_bindP_fun wp_getP c wp_retP case_prod_unfold)
qed

lemma wp_aenqueue:
  assumes s: "arest s"
    and Q: "\<And>t. aheld t \<Longrightarrow> Q (lit ''acquired'') t" "\<And>t. aconnected t \<Longrightarrow> Q (lit ''queued'') t"
    and E: "\<And>e t. ablank {} t \<Longrightarrow> E e t" "\<And>t. interrupted s t \<Longrightarrow> E cancelled t"
  shows "wp (aenqueue_unlocked cfg) Q E s"
  unfolding aenqueue_unlocked_def wp_bindP_fun
  by (rule wp_areset [OF s], erule wp_aopen, erule wp_ainvoke_enqueue)
    (use Q E in \<open>auto simp: aclosed_blank_def afresh_def simp del: lit_Cons\<close>)

lemma wp_await:
  assumes s: "arest s"
    and fast: "a_token s \<noteq> None \<Longrightarrow> Q True s"
    and Q: "\<And>t. aheld t \<Longrightarrow> a_token s = None \<Longrightarrow> a_conn s \<noteq> None \<Longrightarrow> Q True t"
      "\<And>t. aclosed_blank t \<Longrightarrow> a_token s = None \<Longrightarrow> a_conn s \<noteq> None \<Longrightarrow> Q False t"
    and none: "a_conn s = None \<Longrightarrow> a_token s = None \<Longrightarrow>
      E (Exn RuntimeError [Txt (lit ''not connected; call enqueue() first'')]) s"
    and E: "\<And>e t. aclosed_blank t \<Longrightarrow> a_token s = None \<Longrightarrow> a_conn s \<noteq> None \<Longrightarrow> E e t"
  shows "wp (await_unlocked cfg tm) Q E s"
proof (cases "a_token s")
  case (Some tok)
  then show ?thesis using fast by (simp add: await_unlocked_def wp_simps)
next
  case None
  define tm' where "tm' = (if \<not> is_None tm then tm else cf_acquire_timeout_s cfg)"
  have "wp (ainvoke_wait cfg tm') Q E s"
  proof (cases "a_conn s")
    case None
    with none \<open>a_token s = None\<close> show ?thesis
      by (simp add: ainvoke_wait_def arequire_conn_for_wait_def wp_simps)
  next
    case (Some c)
    have conn: "aconnected s"
      using s None Some by (auto simp: aconnected_def arest_def ainv_def attr_ok_def)
    have "wp (bindP (await_io cfg (aproto_wait cfg c tm')) (\<lambda>(tok, lease). aset_held (Some tok) lease))
      (\<lambda>_. wp (seqP astart_renew (retP True)) Q E)
      (\<lambda>e. wp (if isinstance e DflockdTimeoutError then seqP (aclose_unlocked cfg) (retP False)
          else seqP (aclose_unlocked cfg) (raiseP e)) Q E) s"
      by (rule wp_agranting [OF conn, where c = c]) (auto simp: None Some dest: aproto_touches aproto_grants intro!: Q E)
    then show ?thesis
      by (simp add: ainvoke_wait_def wp_tryP arequire_conn_for_wait_def wp_bindP_fun wp_getP Some wp_retP)
  qed
  with None show ?thesis by (simp add: await_unlocked_def wp_simps tm'_def)
qed

section \<open>Release\<close>

lemma caller_lock:
  "ainv X s \<Longrightarrow> a_io_lock s = None \<Longrightarrow> ainv X (s\<lparr>a_io_lock := Some 0\<rparr>)"
  "ainv X s \<Longrightarrow> a_io_lock s = Some 0 \<Longrightarrow> ainv X (s\<lparr>a_io_lock := None\<rparr>)"
  by (simp_all add: ainv_def tasks_ok_def io_ok_def io_current_def socks_ok_def attr_ok_def conn_open_def)

lemma ainv_log: "ainv X (s\<lparr>a_log := l\<rparr>) = ainv X s"
  by (simp add: ainv_def tasks_ok_def io_ok_def io_current_def socks_ok_def attr_ok_def conn_open_def)

lemma wp_acquire_io_lock:
  assumes s: "arest s"
    and Q: "\<And>t. ainv {} t \<Longrightarrow> a_io_lock t = Some 0 \<Longrightarrow> a_token t = a_token s \<or> a_token t = None \<Longrightarrow> Q () t"
    and E: "\<And>t. arest t \<Longrightarrow> E cancelled t"
  shows "wp (acquire_io_lock cfg) Q E s"
proof (cases "a_io_lock s")
  case None
  then have "ainv {} (s\<lparr>a_io_lock := Some 0\<rparr>)" using s caller_lock(1) by (simp add: arest_def)
  with None Q [of "s\<lparr>a_io_lock := Some 0\<rparr>"] show ?thesis by (simp add: acquire_io_lock_def wp_def)
next
  case (Some owner)
  have "wp (seqP (pause cfg)
      (modP (\<lambda>s. (await_lock cfg (length (a_sched s) + 2) s)\<lparr>a_io_lock := Some 0\<rparr>))) Q E s"
    unfolding wp_bindP
  proof (rule wp_pause)
    show "ainv {} s" using s by (simp add: arest_def)
    fix t
    assume t: "ainv {} t" "arely s t"
    show "E cancelled t" by (rule E [OF arest_rely [OF s t]])
    have free: "a_io_lock t \<noteq> Some 0" using s arelyD(6) [OF t(2)] by (simp add: arest_def)
    let ?u = "await_lock cfg (length (a_sched t) + 2) t"
    from alock_granted [OF t(1) free alock_turns_bound] have u: "ainv {} ?u" "arely t ?u" "a_io_lock ?u = None" by simp_all
    have "Q () (?u\<lparr>a_io_lock := Some 0\<rparr>)"
      by (rule Q) (use caller_lock(1) [OF u(1,3)] arelyD(7) [OF arely_trans [OF t(2) u(2)]] in auto)
    then show "wp (modP (\<lambda>s. (await_lock cfg (length (a_sched s) + 2) s)\<lparr>a_io_lock := Some 0\<rparr>)) Q E t"
      by (simp only: wp_modP)
  qed
  with Some show ?thesis by (simp add: acquire_io_lock_def wp_def)
qed

lemma wp_asend_release:
  assumes s: "ainv {} s" "a_io_lock s = Some 0"
    and Q: "\<And>b t. ainv {} t \<Longrightarrow> a_io_lock t = Some 0 \<Longrightarrow> (b \<Longrightarrow> a_token s \<noteq> None) \<Longrightarrow> Q b t"
    and E: "\<And>e t. ainv {} t \<Longrightarrow> a_io_lock t = Some 0 \<Longrightarrow> \<not> isinstance e BuiltinException \<Longrightarrow> E e t"
  shows "wp (asend_release_quietly cfg) Q E s"
proof -
  have req: "wp (asafe_release cfg c tok) Q E s" if "a_token s = Some tok" for c tok
    unfolding asafe_release_def wp_tryP
  proof (rule wp_await_io [OF s(1)])
    fix t
    assume t: "ainv {} t" "arely s t"
    have lock: "a_io_lock t = Some 0" using arelyD(6) [OF t(2)] s(2) by simp
    show "wp (aproto_release cfg c tok) (\<lambda>_. wp (retP True) Q E)
      (\<lambda>e. wp (if isinstance e BuiltinException
        then seqP (modP (\<lambda>s. s\<lparr>a_log := a_log s @ [AsyncReleaseFailed (cf_key cfg)]\<rparr>)) (retP False)
        else raiseP e) Q E) t"
    proof (rule wp_runI)
      fix a u
      assume "aproto_release cfg c tok t = (Inr a, u)"
      note touch = aproto_touches(4) [OF this]
      show "wp (retP True) Q E u"
        unfolding wp_retP
        by (rule Q) (use ainv_touches [OF touch t(1)] atouches_attrs(5) [OF touch] lock that in simp_all)
    next
      fix e u
      assume "aproto_release cfg c tok t = (Inl e, u)"
      note touch = aproto_touches(4) [OF this]
      have u: "ainv {} u" "a_io_lock u = Some 0"
        using ainv_touches [OF touch t(1)] atouches_attrs(5) [OF touch] lock by simp_all
      then show "wp (if isinstance e BuiltinException
          then seqP (modP (\<lambda>s. s\<lparr>a_log := a_log s @ [AsyncReleaseFailed (cf_key cfg)]\<rparr>)) (retP False)
          else raiseP e) Q E u"
        by (simp add: wp_simps Q E ainv_log)
    qed
  qed
  show ?thesis
    using req Q [OF s] by (auto simp: asend_release_quietly_def wp_simps split: option.split)
qed

lemma wp_arelease:
  assumes s: "arest s"
    and Q: "\<And>b t. aclosed_blank t \<Longrightarrow> (b \<Longrightarrow> a_token s \<noteq> None) \<Longrightarrow> Q b t"
    and E: "\<And>e t. aclosed_blank t \<Longrightarrow> \<not> isinstance e BuiltinException \<Longrightarrow> E e t"
  shows "wp (arelease_unlocked cfg) Q E s"
proof -
  have exn: "\<not> isinstance cancelled BuiltinException" by (simp add: cancelled_def subclass_simps)
  have shut: "wp (aclose_unlocked cfg) (\<lambda>_. wp (retP b) Q E) E t"
    if "arest t" "b \<Longrightarrow> a_token s \<noteq> None" for b t
    unfolding wp_retP by (rule wp_aclose [OF that(1)]) (use Q E exn that(2) in auto)
  have shut': "wp (seqP (aclose_unlocked cfg) (raiseP e)) Q E t"
    if "arest t" "\<not> isinstance e BuiltinException" for e t
    unfolding wp_bindP wp_raiseP by (rule wp_aclose [OF that(1)]) (use E exn that(2) in auto)
  have unlock: "arest (t\<lparr>a_io_lock := None\<rparr>)" if "ainv {} t" "a_io_lock t = Some 0" for t
    using caller_lock(2) [OF that] by (simp add: arest_def)
  let ?E = "\<lambda>e. wp (seqP (aclose_unlocked cfg) (raiseP e)) Q E"
  let ?Q = "\<lambda>b. wp (seqP (aclose_unlocked cfg) (retP b)) Q E"
  have "wp (awith_io_lock cfg (seqP (cancel_renew_locked cfg) (asend_release_quietly cfg))) ?Q ?E s"
    unfolding awith_io_lock_def wp_bindP [of "acquire_io_lock cfg"]
  proof (rule wp_acquire_io_lock [OF s])
    fix t
    assume t: "ainv {} t" "a_io_lock t = Some 0" "a_token t = a_token s \<or> a_token t = None"
    have "wp (cancel_renew cfg) (\<lambda>_. wp (asend_release_quietly cfg) (\<lambda>b u. ?Q b (u\<lparr>a_io_lock := None\<rparr>))
        (\<lambda>e u. ?E e (u\<lparr>a_io_lock := None\<rparr>))) (\<lambda>e u. ?E e (u\<lparr>a_io_lock := None\<rparr>)) t"
    proof (rule wp_cancel_renew [OF ainv_stop_task [OF t(1)]])
      fix u
      assume u: "ainv {} u" "adrift t u"
      have lock: "a_io_lock u = Some 0" and tok: "a_token u = a_token t" using u(2) t(2) by (simp_all add: adrift_def)
      show "?E cancelled (u\<lparr>a_io_lock := None\<rparr>)" by (rule shut' [OF unlock [OF u(1) lock] exn])
      show "wp (asend_release_quietly cfg) (\<lambda>b u. ?Q b (u\<lparr>a_io_lock := None\<rparr>))
          (\<lambda>e u. ?E e (u\<lparr>a_io_lock := None\<rparr>)) u"
      proof (rule wp_asend_release [OF u(1) lock])
        fix b v
        assume v: "ainv {} v" "a_io_lock v = Some 0" and b: "b \<Longrightarrow> a_token u \<noteq> None"
        show "?Q b (v\<lparr>a_io_lock := None\<rparr>)"
          unfolding wp_bindP by (rule shut [OF unlock [OF v]]) (use b tok t(3) in auto)
      next
        fix e v
        assume "ainv {} v" "a_io_lock v = Some 0" "\<not> isinstance e BuiltinException"
        then show "?E e (v\<lparr>a_io_lock := None\<rparr>)" by (intro shut' unlock)
      qed
    qed
    then show "wp (tryP (seqP (cancel_renew_locked cfg) (asend_release_quietly cfg))
        (\<lambda>e. seqP (modP (\<lambda>s. s\<lparr>a_io_lock := None\<rparr>)) (raiseP e))
        (\<lambda>a. seqP (modP (\<lambda>s. s\<lparr>a_io_lock := None\<rparr>)) (retP a))) ?Q ?E t"
      by (simp add: wp_tryP cancel_renew_locked_eq wp_bindP_fun wp_modP_fun wp_retP_fun wp_raiseP_fun)
  next
    fix t
    assume "arest t"
    then show "?E cancelled t" using exn by (rule shut')
  qed
  then show ?thesis by (simp add: arelease_unlocked_def wp_tryP)
qed

section \<open>The context manager, and the invariant between calls\<close>

lemma wp_aenter:
  assumes s: "arest s" and Q: "\<And>t. aheld t \<Longrightarrow> Q () t"
    and E: "\<And>e t. ablank {} t \<Longrightarrow> E e t" "\<And>t. interrupted s t \<Longrightarrow> E cancelled t"
  shows "wp (aenter cfg) Q E s"
  unfolding aenter_def wp_bindP
  by (rule wp_aacquire [OF s]) (auto simp: wp_simps aclosed_blank_def intro: Q E)

lemma wp_aexit:
  assumes s: "arest s" and Q: "\<And>t. aclosed_blank t \<Longrightarrow> Q () t"
    and E: "\<And>e t. aclosed_blank t \<Longrightarrow> \<not> isinstance e BuiltinException \<Longrightarrow> E e t"
  shows "wp (aexit cfg) Q E s"
  unfolding aexit_def wp_tryP
  by (rule wp_arelease [OF s]) (auto simp: wp_simps intro: Q E)

lemma arest_intros:
  "aheld s \<Longrightarrow> arest s" "aconnected s \<Longrightarrow> arest s" "ablank {} s \<Longrightarrow> arest s" "aclosed_blank s \<Longrightarrow> arest s"
  "interrupted r s \<Longrightarrow> arest s"
  by (simp_all add: aheld_def aconnected_def ablank_arest aclosed_blank_def interrupted_def)

lemma arest_step: "arest s \<Longrightarrow> arest (task_step cfg w s)"
  using task_step_safe [of "{}" s cfg w] arest_rely [of s "task_step cfg w s"] by (simp add: arest_def)

lemma arest_api:
  assumes s: "arest s"
  shows "arest (run_async_api cfg a s)"
proof (cases a)
  case AAcquire
  show ?thesis unfolding AAcquire run_async_api_def async_api.case
    by (rule wp_snd, rule wp_aacquire [OF s]) (auto intro: arest_intros)
next
  case AEnqueue
  show ?thesis unfolding AEnqueue run_async_api_def async_api.case
    by (rule wp_snd, rule wp_aenqueue [OF s]) (auto intro: arest_intros)
next
  case (AWait tm)
  show ?thesis unfolding AWait run_async_api_def async_api.case
    by (rule wp_snd, rule wp_await [OF s]) (auto intro: arest_intros s)
next
  case ARelease
  show ?thesis unfolding ARelease run_async_api_def async_api.case
    by (rule wp_snd, rule wp_arelease [OF s]) (auto intro: arest_intros)
next
  case AClose
  show ?thesis unfolding AClose run_async_api_def async_api.case
    by (rule wp_snd, rule wp_aclose [OF s]) (auto intro: arest_intros)
next
  case AEnter
  show ?thesis unfolding AEnter run_async_api_def async_api.case
    by (rule wp_snd, rule wp_aenter [OF s]) (auto intro: arest_intros)
next
  case AExit
  show ?thesis unfolding AExit run_async_api_def async_api.case
    by (rule wp_snd, rule wp_aexit [OF s]) (auto intro: arest_intros)
qed

lemma ablank_init: "ablank {} (init_alock es ds sched cancels)"
  by (simp add: ablank_def ainv_def tasks_ok_def io_ok_def io_current_def socks_ok_def attr_ok_def conn_open_def
      init_alock_def)

theorem async_reachable_rest: "async_reachable cfg s \<Longrightarrow> arest s"
proof (induction rule: async_reachable.induct)
  case (step s s')
  from step.hyps(2) step.IH show ?case by cases (auto intro: arest_api arest_step)
qed (rule ablank_arest [OF ablank_init])

end
