(* ===== verification/Client_Agreement.thy ===== *)
theory Client_Agreement
  imports Async_Transport Transport_Properties
begin

text \<open>
  The two transports agree.  \<open>_async.py\<close> repeats \<open>_sync.py\<close> for asyncio; here each of its command functions
  is shown to return what its sync counterpart returns on the same connection and the same network, up
  to the message of an exception, where the sync timeout is one \<open>settimeout\<close> accepts.
\<close>

definition agrees :: "exn + 'a \<Rightarrow> exn + 'a \<Rightarrow> bool" where
  "agrees x y \<longleftrightarrow>
    (case x of
       Inl e \<Rightarrow> (case y of Inl f \<Rightarrow> exn_class e = exn_class f | Inr _ \<Rightarrow> False)
     | Inr a \<Rightarrow> y = Inr a)"

lemma agrees_refl [simp]: "agrees x x"
  by (simp add: agrees_def split: sum.split)

lemma agrees_simps [simp]:
  "agrees (Inr a) y \<longleftrightarrow> y = Inr a" "agrees (Inl e) (Inl f) \<longleftrightarrow> exn_class e = exn_class f" "\<not> agrees (Inl e) (Inr b)"
  by (simp_all add: agrees_def)

text \<open>The streams' own \<open>ValueError\<close> is translated, so a network that raises one is left out.\<close>

definition plain_network :: "('r) net_scheme \<Rightarrow> bool" where
  "plain_network s \<longleftrightarrow> (case ios s of Io bs (ReadFail e) # r \<Rightarrow> \<not> isinstance e ValueError | _ \<Rightarrow> True)"

text \<open>\<open>both m n s c\<close>: the two programs agree, leave the connection in the same state, and the same network
  when they return.\<close>

definition both :: "(exn, ('r) net_scheme, 'a) prog \<Rightarrow> (exn, ('r) net_scheme, 'a) prog \<Rightarrow> ('r) net_scheme \<Rightarrow> nat \<Rightarrow> bool" where
  "both m n s c \<longleftrightarrow>
    agrees (fst (m s)) (fst (n s)) \<and> (conn_open (snd (m s)) c \<longleftrightarrow> conn_open (snd (n s)) c) \<and>
    (okE (fst (m s)) \<longrightarrow> snd (m s) = snd (n s))"

section \<open>Reading a line\<close>

lemma line_index_le: "length (takeWhile P xs) \<le> length xs"
  by (rule length_takeWhile_le)

lemma take_while_all: "length (takeWhile P xs) = length xs \<Longrightarrow> takeWhile P xs = xs"
  by (metis takeWhile_eq_all_conv takeWhile_eq_take take_all_iff order_refl)

lemma trim_same: "async_trim_response_line = trim_response_line"
  by (simp add: fun_eq_iff async_trim_response_line_def trim_response_line_def)

lemma trim_too_long: "MAX_RESPONSE_LINE_BYTES < length raw \<Longrightarrow> \<exists>m. trim_response_line raw = Inl (Exn RuntimeError m)"
  by (simp add: trim_response_line_def)

lemma read_lines_agree:
  assumes "conn_open s c" "\<And>e. sk_end (socks s ! c) = ReadFail e \<Longrightarrow> \<not> isinstance e ValueError"
  shows "both (read_line c) (async_read_line c) s c"
proof -
  define buf where "buf = sk_in (socks s ! c)"
  define i where "i = length (takeWhile (\<lambda>b. b \<noteq> 0x0A) buf)"
  have i: "i \<le> length buf" by (simp add: i_def line_index_le)
  have c: "c < length (socks s)" "sk_open (socks s ! c)" using assms(1) by (simp_all add: conn_open_def)
  have drop: "upd_sock c (\<lambda>k. k\<lparr>sk_in := drop n (sk_in k)\<rparr>) s = upd_sock c (\<lambda>k. k\<lparr>sk_in := drop n buf\<rparr>) s" for n
    by (simp add: upd_sock_def buf_def)
  note defs = drop both_def read_line_def async_read_line_def bindP_def tryP_def readline_def stream_readline_def
    Let_def buf_def [symmetric] i_def [symmetric] line_length_def trim_same
  consider "i < length buf" "i \<le> MAX_RESPONSE_LINE_BYTES" | "MAX_RESPONSE_LINE_BYTES < i"
    | "i = length buf" "i \<le> MAX_RESPONSE_LINE_BYTES" using i by linarith
  then show ?thesis
  proof cases
    case 1
    then have "take (i + 1) buf \<noteq> []" by (cases buf) auto
    with 1 c show ?thesis
      by (cases "trim_response_line (take (i + 1) buf)") (simp_all add: defs conn_open_upd_sock)
  next
    case 2
    then have "MAX_RESPONSE_LINE_BYTES + 1 \<le> length buf" using i by simp
    moreover from this have "take (MAX_RESPONSE_LINE_BYTES + 1) buf \<noteq> []" by (cases buf) auto
    moreover obtain m where "trim_response_line (take (MAX_RESPONSE_LINE_BYTES + 1) buf) = Inl (Exn RuntimeError m)"
      using trim_too_long [of "take (MAX_RESPONSE_LINE_BYTES + 1) buf"] calculation(1) by auto
    ultimately show ?thesis
      using 2 c by (simp add: defs conn_open_upd_sock)
  next
    case 3
    show ?thesis
    proof (cases "sk_end (socks s ! c)")
      case Eof
      with 3 c show ?thesis
        by (cases "trim_response_line buf") (simp_all add: defs conn_open_upd_sock)
    next
      case (ReadFail e)
      with 3 c assms(2) [OF ReadFail] show ?thesis by (simp add: defs)
    qed
  qed
qed

section \<open>A command\<close>

text \<open>Both transports after the frame was accepted: the script's event is in the buffer.\<close>

lemma commands_agree:
  assumes s: "conn_open s c" "\<not> sk_shut (socks s ! c)" "plain_network s" "0 \<le> t" "timeout_fits t"
  shows "both (sync_command c cmd key arg t) (async_command c cmd key arg t) s c"
proof (cases "encode_lines [cmd, key, arg]")
  case (Inl e)
  then show ?thesis by (simp add: both_def sync_command_def async_command_def bindP_liftE)
next
  case (Inr f)
  have c: "c < length (socks s)" "sk_open (socks s ! c)" using s(1) by (simp_all add: conn_open_def)
  define w where "w = upd_sock c (\<lambda>k. k\<lparr>sk_sent := sk_sent k @ [f]\<rparr>) s"
  have w: "writer_write c f s = (Inr (), w)" "conn_open w c"
    using s(1) by (simp_all add: writer_write_def w_def conn_open_upd_sock conn_open_def)
  have sync: "sync_command c cmd key arg t s =
      on_errorP (seqP (sendall c f) (read_line c)) (conn_close c) s"
    using Inr s(1,4,5) by (simp add: sync_command_def bindP_liftE tryP_def bindP_def settimeout_def)
  have async: "async_command c cmd key arg t s =
      on_errorP (seqP (writer_drain c) (async_read_line c)) (close_nowait c) w"
    using Inr w(1) by (simp add: async_command_def bindP_liftE bindP_def)
  have closes: "conn_close c = close_nowait c" by (simp add: conn_close_def close_nowait_def)
  have finish: ?thesis
    if "sendall c f s = (Inr (), u)" "writer_drain c w = (Inr (), u)" "conn_open u c"
      "\<And>e. sk_end (socks u ! c) = ReadFail e \<Longrightarrow> \<not> isinstance e ValueError" for u
  proof -
    from read_lines_agree [OF that(3,4)] have "both (read_line c) (async_read_line c) u c" .
    then show ?thesis
      unfolding both_def sync async closes
      by (auto simp: that(1,2) tryP_def bindP_def close_nowait_run conn_open_upd_sock
          split: prod.splits sum.splits)
  qed
  show ?thesis
  proof (cases "ios s")
    case Nil
    define u where "u = upd_sock c (\<lambda>k. k\<lparr>sk_sent := sk_sent k @ [f], sk_end := Eof\<rparr>) s"
    have "sendall c f s = (Inr (), u)" using s(1,2) Nil by (simp add: sendall_def u_def)
    moreover have "writer_drain c w = (Inr (), u)"
      using w(2) Nil c by (simp add: writer_drain_def w_def u_def) (simp add: upd_sock_def)
    ultimately show ?thesis
      by (rule finish) (use c in \<open>simp_all add: u_def conn_open_upd_sock\<close>)
  next
    case (Cons ev r)
    show ?thesis
    proof (cases ev)
      case (SendFail n e)
      obtain u where "sendall c f s = (Inl e, u)" "length (socks u) = length (socks s)" "writer_drain c w = (Inl e, w\<lparr>ios := r\<rparr>)"
        using s(1,2) w(2) Cons SendFail by (simp add: sendall_def writer_drain_def w_def)
      then show ?thesis
        unfolding both_def sync async closes
        by (simp add: tryP_def bindP_def close_nowait_run conn_open_upd_sock)
    next
      case (Io bs e)
      define u where "u = upd_sock c
        (\<lambda>k. k\<lparr>sk_sent := sk_sent k @ [f], sk_in := sk_in k @ bs, sk_end := e\<rparr>) (s\<lparr>ios := r\<rparr>)"
      have "sendall c f s = (Inr (), u)" using s(1,2) Cons Io by (simp add: sendall_def u_def)
      moreover have "writer_drain c w = (Inr (), u)"
        using w(2) Cons Io c by (simp add: writer_drain_def w_def u_def) (simp add: upd_sock_def)
      ultimately show ?thesis
        by (rule finish) (use c s(3) Cons Io in \<open>simp_all add: u_def conn_open_upd_sock plain_network_def\<close>)
    qed
  qed
qed

section \<open>The command functions\<close>

lemma both_reply:
  "both m n s c \<Longrightarrow> both (bindP m (\<lambda>r. liftE (p r))) (bindP n (\<lambda>r. liftE (p r))) s c"
  by (auto simp: both_def bindP_def agrees_def okE_def split: prod.splits sum.splits)

lemma both_check: "(\<And>a. x = Inr a \<Longrightarrow> both (m a) (n a) s c) \<Longrightarrow> both (bindP (liftE x) m) (bindP (liftE x) n) s c"
  by (cases x) (simp_all add: both_def bindP_liftE)

lemma slack_fits: "0 \<le> n \<Longrightarrow> n \<le> LARGEST_USABLE_TIMEOUT_S \<Longrightarrow> n \<le> MAX_PROTOCOL_SECONDS \<Longrightarrow>
    0 \<le> fl_add (of_int (int_val (VInt n))) IO_SLACK_S \<and> timeout_fits (fl_add (of_int (int_val (VInt n))) IO_SLACK_S)"
  using slack_exact [of n] timeout_fits_iff [of n] by simp

lemma waits_fit:
  assumes "int_val t \<le> LARGEST_USABLE_TIMEOUT_S" "\<exists>n. t = VInt n \<and> 0 \<le> n \<and> n \<le> MAX_PROTOCOL_SECONDS"
  shows "0 \<le> fl_add (of_int (int_val t)) IO_SLACK_S" "timeout_fits (fl_add (of_int (int_val t)) IO_SLACK_S)"
  using assms slack_fits by auto

lemma fixed_fits: "timeout_fits IO_SLACK_S" "timeout_fits RENEW_READ_TIMEOUT_S" "timeout_fits RELEASE_READ_TIMEOUT_S"
  "0 \<le> IO_SLACK_S" "0 \<le> RENEW_READ_TIMEOUT_S" "0 \<le> RELEASE_READ_TIMEOUT_S"
  using fl_error [of "30 * 10 ^ 9"] fl_error [of "5 * 10 ^ 9"]
  by (simp_all add: IO_SLACK_S_def RENEW_READ_TIMEOUT_S_def RELEASE_READ_TIMEOUT_S_def timeout_fits_def abs_le_iff)

lemma acquire_agrees:
  assumes "conn_open s c" "\<not> sk_shut (socks s ! c)" "plain_network s" "int_val t \<le> LARGEST_USABLE_TIMEOUT_S"
  shows "both (acquire c key t lease prefix limit) (async_acquire c key t lease prefix limit) s c"
  unfolding acquire_def async_acquire_def acquire_via_def
  by (intro both_check both_reply commands_agree [OF assms(1-3)] waits_fit [OF assms(4)]) (auto elim: make_acquire_argD)

lemma wait_agrees:
  assumes "conn_open s c" "\<not> sk_shut (socks s ! c)" "plain_network s" "int_val t \<le> LARGEST_USABLE_TIMEOUT_S"
  shows "both (wait c key t prefix) (async_wait c key t prefix) s c"
  unfolding wait_def async_wait_def wait_via_def
  by (intro both_check both_reply commands_agree [OF assms(1-3)] waits_fit [OF assms(4)]) (auto elim: make_wait_argD)

lemma fixed_timeouts_agree:
  assumes "conn_open s c" "\<not> sk_shut (socks s ! c)" "plain_network s"
  shows "both (enqueue c key lease prefix limit) (async_enqueue c key lease prefix limit) s c"
    "both (release c key token prefix) (async_release c key token prefix) s c"
    "0 \<le> rt \<Longrightarrow> timeout_fits rt \<Longrightarrow>
      both (renew c key token lease prefix rt) (async_renew c key token lease prefix rt) s c"
    "both (authenticate c token) (async_authenticate c token) s c"
    "both (stats loads c) (async_stats loads c) s c"
  by (simp_all only: enqueue_def async_enqueue_def enqueue_via_def release_def async_release_def release_via_def
      renew_def async_renew_def renew_via_def authenticate_def async_authenticate_def authenticate_via_def
      stats_def async_stats_def stats_via_def,
    (intro both_check both_reply commands_agree [OF assms] fixed_fits; assumption?)+)

lemmas command_functions_agree = acquire_agrees wait_agrees fixed_timeouts_agree



end
