(* ===== verification/Async_Properties.thy ===== *)
theory Async_Properties
  imports Async_Lifecycle Client_Agreement Sync_Properties
begin

text \<open>
  The properties of the async lock and semaphore objects: the counterparts of the sync ones, and what
  is particular to asyncio, where the caller's own task may be cancelled at any wait.
\<close>

section \<open>Runs without interference and cancellation\<close>

definition undisturbed :: "alock \<Rightarrow> bool" where
  "undisturbed s \<longleftrightarrow> a_sched s = [] \<and> a_cancels s = []"

lemma quiet_waits:
  "undisturbed s \<Longrightarrow> pause cfg s = (Inr (), s)"
  "undisturbed s \<Longrightarrow> await_io cfg m s = m s"
  by (simp_all add: undisturbed_def pause_def await_io_def bindP_def aburst_def cancel_point_def)

lemma quiet_areset:
  assumes "ablank {} s" "undisturbed s"
  shows "\<exists>t. areset_for_new_attempt cfg s = (Inr (), t) \<and> afresh t \<and> undisturbed t \<and>
    socks t = socks s \<and> ios t = ios s \<and> dials t = dials s \<and> a_tasks t = a_tasks s \<and> a_io_lock t = a_io_lock s"
proof -
  have b: "a_renew_task s = None" "a_conn s = None" using assms by (simp_all add: ablank_def)
  obtain t where t: "areset_for_new_attempt cfg s = (Inr (), t)"
    "undisturbed t \<and> socks t = socks s \<and> ios t = ios s \<and> dials t = dials s \<and> a_tasks t = a_tasks s \<and>
      a_io_lock t = a_io_lock s"
    using b assms(2)
    by (cases "a_closed s") (simp_all add: areset_for_new_attempt_def cancel_renew_def aclose_unlocked_def
        detach_conn_def aclear_held_state_def bindP_def undisturbed_def)
  have "wp (areset_for_new_attempt cfg) (\<lambda>_. afresh) (\<lambda>_ _. True) s"
    by (rule wp_areset [OF ablank_arest [OF assms(1)]]) simp_all
  from wp_Inr [OF this t(1)] t show ?thesis by blast
qed

lemma amaybe_authenticate_answered:
  fixes s :: alock
  assumes "admits cfg pre" "c < length (socks s)" "socks s ! c = fresh_sock" "ios s = pre @ r" "undisturbed s"
  obtains t where "amaybe_authenticate cfg c (cf_auth_token cfg) s = (Inr c, t)" "ready_conn cfg c t"
    "ios t = r" "dials t = dials s" "length (socks t) = length (socks s)" "undisturbed t"
    "a_tasks t = a_tasks s" "a_io_lock t = a_io_lock s"
proof (cases "cf_auth_token cfg")
  case None
  with assms that [of s] show thesis by (simp add: admits_def amaybe_authenticate_def ready_fresh)
next
  case (Some a)
  with assms(1) obtain raw where a: "validate_auth_token a = Inr ()" "pre = [Io raw Eof]" "response raw Eof (lit ''ok'')"
    by (auto simp: admits_def)
  obtain g where g: "authenticate c a s = (Inr (), upd_sock c g (s\<lparr>ios := r\<rparr>))"
    "ready_conn cfg c (upd_sock c g (s\<lparr>ios := r\<rparr>))"
    using authenticate_answered [OF a(1) assms(2,3) _ a(3) Some] assms(4) a(2) by auto
  have "plain_network s" using assms(4) a(2) by (simp add: plain_network_def)
  then have "both (authenticate c a) (async_authenticate c a) s c"
    using assms(2,3) by (intro fixed_timeouts_agree(4)) (simp_all add: conn_open_def fresh_sock_def)
  with g(1) have "async_authenticate c a s = (Inr (), upd_sock c g (s\<lparr>ios := r\<rparr>))"
    by (cases "async_authenticate c a s") (simp add: both_def okE_def)
  with g(2) assms(5) show thesis
    by (intro that [of "upd_sock c g (s\<lparr>ios := r\<rparr>)"])
      (simp_all add: Some amaybe_authenticate_def tryP_def bindP_def quiet_waits upd_sock_def undisturbed_def)
qed

lemma quiet_aopen:
  assumes "afresh s" "undisturbed s" "dials s = DialOk # ds" "ios s = pre @ r" "admits cfg pre"
    and "pick_server cfg = Inr (VStr h, VInt p)"
    and "validate_server_endpoint (VStr h) (VInt p) = Inr (h, p)"
    and "validate_connect_timeout_s (cf_connect_timeout_s cfg) = Inr ()"
  obtains t where "aopen_and_authenticate cfg s = (Inr (), t)" "aconnected t" "undisturbed t"
    "a_conn t = Some (length (socks s))" "ready_conn cfg (length (socks s)) t" "ios t = r"
    "length (socks t) = Suc (length (socks s))" "a_tasks t = a_tasks s" "a_io_lock t = a_io_lock s"
proof -
  define u where "u = s\<lparr>dials := ds, socks := socks s @ [fresh_sock]\<rparr>"
  have dial: "async_open_conn (VStr h) (VInt p) (cf_ssl_context cfg) (cf_connect_timeout_s cfg) s = (Inr (length (socks s)), u)"
    using assms(3,7,8) by (simp add: u_def async_open_conn_def open_connection_def next_dial_def bindP_liftE)
  obtain v where v: "amaybe_authenticate cfg (length (socks s)) (cf_auth_token cfg) u = (Inr (length (socks s)), v)"
    "ready_conn cfg (length (socks s)) v" "ios v = r" "dials v = dials u" "length (socks v) = length (socks u)"
    "undisturbed v" "a_tasks v = a_tasks u" "a_io_lock v = a_io_lock u"
    by (rule amaybe_authenticate_answered [OF assms(5), of "length (socks s)" u r])
      (use assms(2,4) in \<open>simp_all add: u_def undisturbed_def\<close>)
  define t where "t = v\<lparr>a_conn := Some (length (socks s))\<rparr>"
  have run: "aopen_and_authenticate cfg s = (Inr (), t)"
    using assms(2,6) by (simp add: aopen_and_authenticate_def bindP_liftE bindP_def quiet_waits dial v(1) t_def)
  have "wp (aopen_and_authenticate cfg) (\<lambda>_. aconnected) (\<lambda>_ _. True) s"
    by (rule wp_aopen [OF assms(1)]) simp_all
  from wp_Inr [OF this run] have "aconnected t" .
  moreover have "ready_conn cfg (length (socks s)) t" using v(2) ready_conn_frame [of t v] by (simp add: t_def)
  ultimately show thesis
    using v(3,5-8) by (intro that [OF run]) (simp_all add: t_def u_def undisturbed_def)
qed

lemma aproto_acquire_eq:
  "aproto_acquire cfg c = async_acquire c (cf_key cfg) (cf_acquire_timeout_s cfg) (cf_lease_ttl_s cfg)
    (acquire_prefix cfg) (acquire_limit cfg)"
  by (cases "cf_kind cfg")
    (simp_all add: aproto_acquire_def alock_proto_acquire_def asem_proto_acquire_def acquire_prefix_def acquire_limit_def)

text \<open>The request itself is carried over from the sync client.\<close>

lemma quiet_arequest:
  assumes v: "validate_prefix_limit prefix limit = Inr ()" "validate_key (lit ''key'') key = Inr ()"
    "make_acquire_arg (VInt n) (opt_int limit) lease = Inr arg" "n \<le> LARGEST_USABLE_TIMEOUT_S"
    and c: "conn_open s c" "\<not> sk_shut (socks s ! c)" "sk_in (socks s ! c) = []"
    and net: "ios s = Io raw Eof # r" "response raw Eof resp"
    and p: "parse_grant_response resp (op_label prefix (lit ''acquire'')) = Inr g"
  shows "\<exists>f s'. async_acquire c key (VInt n) lease prefix limit s = (Inr g, s') \<and>
    frame_lines f = map Some [prefix @ lit ''l'', key, arg] \<and> sent_on s' c = sent_on s c @ [f] \<and> conn_open s' c"
proof -
  have "plain_network s" using net(1) by (simp add: plain_network_def)
  moreover have "int_val (VInt n) \<le> LARGEST_USABLE_TIMEOUT_S" using v(4) by (simp add: int_val_VInt)
  ultimately have b: "both (acquire c key (VInt n) lease prefix limit) (async_acquire c key (VInt n) lease prefix limit) s c"
    by (intro acquire_agrees c)
  obtain f s' where s': "acquire c key (VInt n) lease prefix limit s = (Inr g, s')"
    "frame_lines f = map Some [prefix @ lit ''l'', key, arg]" "sent_on s' c = sent_on s c @ [f]" "conn_open s' c"
    using acquire_on_response [OF v c net p] by blast
  with b have "async_acquire c key (VInt n) lease prefix limit s = (Inr g, s')"
    by (cases "async_acquire c key (VInt n) lease prefix limit s") (simp add: both_def)
  with s' show ?thesis by blast
qed

lemma quiet_aacquire:
  assumes cfg: "post_init cfg = Inr ()" "pick_server cfg = Inr x" "admits cfg pre"
    and arg: "cf_acquire_timeout_s cfg = VInt n" "n \<le> LARGEST_USABLE_TIMEOUT_S"
      "make_acquire_arg (VInt n) (opt_int (acquire_limit cfg)) (cf_lease_ttl_s cfg) = Inr arg"
    and s: "ablank {} s" "undisturbed s" "dials s = DialOk # ds" "ios s = pre @ Io raw Eof # r"
    and resp: "response raw Eof resp"
      "parse_grant_response resp (op_label (acquire_prefix cfg) (lit ''acquire'')) = Inr (tok, k)"
  shows "\<exists>t. aacquire_unlocked cfg s = (Inr True, t) \<and> aheld t \<and> a_token t = Some tok \<and> a_lease t = k \<and>
    a_conn t = Some (length (socks s)) \<and> conn_open t (length (socks s)) \<and> undisturbed t \<and>
    length (a_tasks t) = Suc (length (a_tasks s)) \<and> a_io_lock t = a_io_lock s \<and>
    frames_on t (length (socks s)) =
      map (map Some) (auth_lines cfg @ [[acquire_prefix cfg @ lit ''l'', cf_key cfg, arg]])"
proof -
  note v = post_init_request [OF cfg(1)]
  obtain h p where hp: "pick_server cfg = Inr (VStr h, VInt p)"
    "validate_server_endpoint (VStr h) (VInt p) = Inr (h, p)" by (rule picked_valid [OF cfg(1,2)])
  obtain s1 where s1: "areset_for_new_attempt cfg s = (Inr (), s1)" "afresh s1" "undisturbed s1"
    "socks s1 = socks s" "ios s1 = ios s" "dials s1 = dials s" "a_tasks s1 = a_tasks s" "a_io_lock s1 = a_io_lock s"
    using quiet_areset [OF s(1,2)] by blast
  define c where "c = length (socks s)"
  obtain s2 where s2: "aopen_and_authenticate cfg s1 = (Inr (), s2)" "aconnected s2" "undisturbed s2"
    "a_conn s2 = Some c" "ready_conn cfg c s2" "ios s2 = Io raw Eof # r" "length (socks s2) = Suc c"
    "a_tasks s2 = a_tasks s" "a_io_lock s2 = a_io_lock s"
    by (rule quiet_aopen [OF s1(2,3) _ _ cfg(3) hp v(3)]) (use s s1 in \<open>simp_all add: c_def\<close>)
  have open2: "conn_open s2 c" "\<not> sk_shut (socks s2 ! c)" "sk_in (socks s2 ! c) = []"
    "frames_on s2 c = map (map Some) (auth_lines cfg)"
    using s2(5) by (simp_all add: ready_conn_def)
  obtain f s3 where s3: "aproto_acquire cfg c s2 = (Inr (tok, k), s3)"
    "frame_lines f = map Some [acquire_prefix cfg @ lit ''l'', cf_key cfg, arg]" "sent_on s3 c = sent_on s2 c @ [f]"
    "conn_open s3 c"
    using quiet_arequest [OF v(1,2) arg(3,2) open2(1-3) s2(6) resp]
    by (auto simp: aproto_acquire_eq arg(1) simp del: lit_Cons)
  note same = atouches_attrs [OF aproto_touches(1) [OF s3(1)]]
  define t where "t = snd (ainvoke_acquire cfg s2)"
  have t: "ainvoke_acquire cfg s2 = (Inr True, t)" "a_token t = Some tok" "a_lease t = k" "a_conn t = Some c"
    "sent_on t c = sent_on s3 c" "conn_open t c" "undisturbed t" "length (a_tasks t) = Suc (length (a_tasks s))"
    "a_io_lock t = a_io_lock s"
    using s2(3,4,8,9) s3(1,4) same
    by (simp_all add: t_def ainvoke_acquire_def tryP_def bindP_def arequire_conn_def quiet_waits aset_held_def
        astart_renew_def sent_on_def conn_open_def undisturbed_def)
  have "wp (ainvoke_acquire cfg) (\<lambda>b t. b \<longrightarrow> aheld t) (\<lambda>_ _. True) s2"
    by (rule wp_ainvoke_acquire [OF s2(2)]) simp_all
  from wp_Inr [OF this t(1)] have "aheld t" by simp
  moreover have "aacquire_unlocked cfg s = (Inr True, t)"
    by (simp add: aacquire_unlocked_def bindP_def s1(1) s2(1) t(1))
  moreover have "frames_on t c = map (map Some) (auth_lines cfg @ [[acquire_prefix cfg @ lit ''l'', cf_key cfg, arg]])"
    using t(5) s3(2,3) open2(4) by (simp add: frames_on_def del: lit_Cons)
  ultimately show ?thesis using t(2-4,6-9) unfolding c_def by blast
qed

section \<open>A sample object, for the instances\<close>

definition asample_lock :: alock where
  "asample_lock = init_alock [Io (grant_bytes (lit ''ab12'') 33 @ [0x0A]) Eof] [DialOk] [] []"

definition asample_held :: alock where
  "asample_held = snd (aacquire_unlocked sample_config asample_lock)"

lemma asample_init:
  "ablank {} asample_lock" "undisturbed asample_lock" "dials asample_lock = DialOk # []"
  "ios asample_lock = Io (grant_bytes (lit ''ab12'') 33 @ [0x0A]) Eof # []" "socks asample_lock = []"
  "a_tasks asample_lock = []" "a_io_lock asample_lock = None"
  unfolding asample_lock_def by (rule ablank_init) (simp_all add: init_alock_def undisturbed_def)

lemma asample_reachable: "async_reachable sample_config asample_lock"
  by (simp add: asample_lock_def async_reachable.init)

lemma asample_held:
  "async_reachable sample_config asample_held" "aheld asample_held" "a_token asample_held = Some (lit ''ab12'')"
  "a_lease asample_held = 33" "a_conn asample_held = Some 0" "conn_open asample_held 0" "undisturbed asample_held"
  "aacquire_unlocked sample_config asample_lock = (Inr True, asample_held)"
  "length (a_tasks asample_held) = 1" "a_io_lock asample_held = None"
proof -
  have resp: "response (grant_bytes (lit ''ab12'') 33 @ [0x0A]) Eof (grant_line (lit ''ok'') (lit ''ab12'') 33)"
    using sample_args by (intro grant_response) (simp_all add: limits)
  have parse: "parse_grant_response (grant_line (lit ''ok'') (lit ''ab12'') 33) op = Inr (lit ''ab12'', 33)" for op
    using sample_args by (intro grant_parsed) (simp_all add: limits)
  have admits: "admits sample_config []" by (simp add: admits_def sample_config_ok(9))
  have "ios asample_lock = [] @ Io (grant_bytes (lit ''ab12'') 33 @ [0x0A]) Eof # []" by (simp add: asample_init(4))
  from quiet_aacquire [OF sample_config_ok(1,2) admits sample_config_ok(6) sample_request(2,1) asample_init(1-3) this
      resp parse] asample_init(5-7)
  obtain t where t: "aacquire_unlocked sample_config asample_lock = (Inr True, t)" "aheld t"
    "a_token t = Some (lit ''ab12'')" "a_lease t = 33" "a_conn t = Some 0" "conn_open t 0" "undisturbed t"
    "length (a_tasks t) = 1" "a_io_lock t = None"
    by (simp del: lit_Cons) blast
  then have run: "run_async_api sample_config AAcquire asample_lock = t" "asample_held = t"
    by (simp_all add: asample_held_def run_async_api_def)
  have "async_reachable sample_config t"
    using async_reachable.step [OF asample_reachable async_step.api [of sample_config asample_lock AAcquire]]
    unfolding run(1) .
  with t show "async_reachable sample_config asample_held" "aheld asample_held"
    "a_token asample_held = Some (lit ''ab12'')" "a_lease asample_held = 33" "a_conn asample_held = Some 0"
    "conn_open asample_held 0" "undisturbed asample_held"
    "aacquire_unlocked sample_config asample_lock = (Inr True, asample_held)"
    "length (a_tasks asample_held) = 1" "a_io_lock asample_held = None"
    unfolding run(2) by simp_all
qed

section \<open>Every reachable state\<close>

lemma areachable_facts:
  assumes "async_reachable cfg s"
  shows "arest s" "tasks_ok s" "io_ok s" "io_current s" "socks_ok {} s" "attr_ok s" "a_io_lock s \<noteq> Some 0"
  using async_reachable_rest [OF assms] by (simp_all add: arest_def ainv_def)

text \<open>
  C21. No connection of an async object is lost: in every state the object can reach, under every schedule
  of the renewal tasks, every network, every sequence of public calls and every cancellation of the
  caller, the only socket that can be open is the object's current connection.
\<close>

theorem async_open_socket_owned:
  assumes "async_reachable cfg s" "conn_open s c"
  shows "a_conn s = Some c"
  using areachable_facts(5) [OF assms(1)] assms(2) by (simp add: socks_ok_def)

theorem async_open_socket_owned_witness:
  "conn_open asample_held 0 \<and> a_conn asample_held = Some 0"
  using async_open_socket_owned [OF asample_held(1,6)] asample_held(6) by blast

text \<open>
  C22. \<open>_io_lock\<close> of an async object excludes, and there is one live renewal task: in every reachable state
  a task has a request in flight exactly when it owns the lock, and a task that has neither ended nor
  been cancelled is the one the object's attribute names.  A request in flight whose task is not being
  cancelled is for the token and the connection the object holds.
\<close>

theorem async_tasks_exclusive:
  assumes "async_reachable cfg s" "w < length (a_tasks s)"
  shows "(requesting (t_pc (a_tasks s ! w)) \<longleftrightarrow> a_io_lock s = Some (Suc w)) \<and>
    (t_pc (a_tasks s ! w) \<noteq> T_Done \<and> \<not> t_cancel (a_tasks s ! w) \<longrightarrow>
      a_renew_task s = Some w \<and>
      (case t_pc (a_tasks s ! w) of
         T_Io c tok \<Rightarrow> a_conn s = Some c \<and> a_token s = Some tok \<and> \<not> a_closed s
       | _ \<Rightarrow> True))"
proof -
  note r = areachable_facts [OF assms(1)]
  have inv: "ainv {} s" using r(1) by (simp add: arest_def)
  have "a_conn s = Some c \<and> a_token s = Some tok \<and> \<not> a_closed s"
    if "t_pc (a_tasks s ! w) = T_Io c tok" "\<not> t_cancel (a_tasks s ! w)" "a_renew_task s = Some w" for c tok
  proof -
    have "\<not> a_closed s" using r(6) that(3) by (auto simp: attr_ok_def)
    with r(4) assms(2) that(1,2) show ?thesis by (auto simp: io_current_def)
  qed
  with task_facts [OF inv assms(2)] show ?thesis by (auto split: tpc.split)
qed

lemma asample_task:
  obtains w where "a_renew_task asample_held = Some w" "w < length (a_tasks asample_held)"
    "a_tasks asample_held ! w = \<lparr>t_cancel = False, t_pc = T_Init\<rparr>"
  using asample_held(2) by (auto simp: aheld_def)

theorem async_tasks_exclusive_witness:
  "\<exists>w. t_pc (a_tasks asample_held ! w) = T_Init \<and> a_renew_task asample_held = Some w \<and>
    a_io_lock asample_held \<noteq> Some (Suc w)"
proof -
  obtain w where w: "w < length (a_tasks asample_held)" "a_tasks asample_held ! w = \<lparr>t_cancel = False, t_pc = T_Init\<rparr>"
    using asample_task by blast
  from async_tasks_exclusive [OF asample_held(1) w(1)] w(2) show ?thesis by auto
qed

text \<open>
  C23. The attributes of an async object agree in every reachable state: no token means lease \<open>0\<close>, a token
  has a positive lease, a connection and an object that is not closed, a connection without a token has
  no renewal task, and a closed object has no token, no connection, no open socket, and every task it
  ever started has ended or was told to stop.
\<close>

theorem async_attributes_agree:
  assumes "async_reachable cfg s"
  shows "(case a_token s of
      None \<Rightarrow> a_lease s = 0 \<and> (a_conn s = None \<or> a_renew_task s = None)
    | Some _ \<Rightarrow> 1 \<le> a_lease s \<and> a_conn s \<noteq> None \<and> \<not> a_closed s) \<and>
    (a_closed s \<longrightarrow> a_conn s = None \<and> a_token s = None \<and> (\<forall>c. \<not> conn_open s c) \<and>
      (\<forall>w < length (a_tasks s). t_cancel (a_tasks s ! w) \<or> t_pc (a_tasks s ! w) = T_Done))"
proof -
  note r = areachable_facts [OF assms]
  have "case a_token s of
      None \<Rightarrow> a_lease s = 0 \<and> (a_conn s = None \<or> a_renew_task s = None)
    | Some _ \<Rightarrow> 1 \<le> a_lease s \<and> a_conn s \<noteq> None \<and> \<not> a_closed s"
    using r(6) by (cases "a_token s") (auto simp: attr_ok_def)
  moreover have "a_conn s = None \<and> a_token s = None \<and> a_renew_task s = None" if "a_closed s"
    using r(6) that by (simp add: attr_ok_def)
  ultimately show ?thesis using r(2,5) by (auto simp: tasks_ok_def socks_ok_def)
qed

theorem async_attributes_agree_witness:
  "a_token asample_held = Some (lit ''ab12'') \<and> 1 \<le> a_lease asample_held \<and> a_conn asample_held \<noteq> None \<and>
    \<not> a_closed asample_held"
  using async_attributes_agree [OF asample_held(1)] asample_held(3) by simp

section \<open>What the public methods leave behind\<close>

text \<open>
  C24. \<open>acquire\<close> of an async object, from any reachable state and under every schedule, network and
  cancellation.  \<open>True\<close>: a token field and a lease in range are held on the object's connection, with a new
  renewal task about to start.  \<open>False\<close> (the server timed the request out): everything is closed.  An
  exception leaves nothing held and no socket open, with one exception: a \<open>CancelledError\<close> that
  interrupts the caller while the old renewal task is being stopped may leave the old grant in place.
\<close>

theorem aacquire_outcome:
  assumes "async_reachable cfg s"
  shows "case aacquire_unlocked cfg s of
      (Inr True, t) \<Rightarrow> aheld t
    | (Inr False, t) \<Rightarrow> aclosed_blank t \<and> (\<forall>c. \<not> conn_open t c)
    | (Inl e, t) \<Rightarrow> ablank {} t \<and> (\<forall>c. \<not> conn_open t c) \<or>
        e = cancelled \<and> a_renew_task t = None \<and> a_conn t = a_conn s \<and> a_token t = a_token s"
proof -
  have w: "wp (aacquire_unlocked cfg) (\<lambda>b t. if b then aheld t else aclosed_blank t)
      (\<lambda>e t. ablank {} t \<or> e = cancelled \<and> a_renew_task t = None \<and> a_conn t = a_conn s \<and> a_token t = a_token s) s"
    by (rule wp_aacquire [OF async_reachable_rest [OF assms]]) (auto simp: interrupted_def)
  obtain x t where run: "aacquire_unlocked cfg s = (x, t)" by (rule prod.exhaust)
  have none: "ablank {} u \<Longrightarrow> \<not> conn_open u c" for u c by (rule ablank_no_socket)
  show ?thesis
    using wp_run [OF w run] none [of t] run
    by (cases x) (auto simp: aclosed_blank_def split: bool.split)
qed

theorem aacquire_outcome_witness:
  "fst (aacquire_unlocked sample_config asample_lock) = Inr True \<and>
    aheld (snd (aacquire_unlocked sample_config asample_lock))"
  using aacquire_outcome [OF asample_reachable] by (simp add: asample_held(8))

text \<open>
  C27. \<open>aclose\<close> from any reachable state closes in every outcome: the object is marked closed and holds no
  token, no lease, no connection and no open socket.  When it returns, the renewal task it had has
  ended; only a cancellation of the caller can make it raise.
\<close>

theorem aclose_outcome:
  assumes "async_reachable cfg s"
  shows "case aclose_unlocked cfg s of (x, t) \<Rightarrow>
    a_closed t \<and> a_token t = None \<and> a_lease t = 0 \<and> a_conn t = None \<and> a_renew_task t = None \<and>
    (\<forall>c. \<not> conn_open t c) \<and>
    (case x of
       Inr _ \<Rightarrow> (case a_renew_task s of None \<Rightarrow> True | Some w \<Rightarrow> t_pc (a_tasks t ! w) = T_Done)
     | Inl e \<Rightarrow> e = cancelled)"
proof -
  note r = areachable_facts [OF assms]
  have len: "a_renew_task s = Some w \<Longrightarrow> w < length (a_tasks s)" for w using r(2) by (simp add: tasks_ok_def)
  have w: "wp (aclose_unlocked cfg)
      (\<lambda>_ t. aclosed_blank t \<and> (case a_renew_task s of None \<Rightarrow> True | Some w \<Rightarrow> t_pc (a_tasks t ! w) = T_Done))
      (\<lambda>e t. aclosed_blank t \<and> e = cancelled) s"
    by (rule wp_aclose [OF r(1)]) (use len in \<open>auto split: option.split\<close>)
  obtain x t where run: "aclose_unlocked cfg s = (x, t)" by (rule prod.exhaust)
  have none: "ablank {} u \<Longrightarrow> \<not> conn_open u c" for u c by (rule ablank_no_socket)
  show ?thesis
    using wp_run [OF w run] none [of t] run
    by (cases x) (auto simp: aclosed_blank_def ablank_def)
qed

theorem aclose_outcome_witness:
  "\<exists>x t. aclose_unlocked sample_config asample_held = (x, t) \<and> conn_open asample_held 0 \<and>
    a_token t = None \<and> \<not> conn_open t 0"
proof -
  obtain x t where "aclose_unlocked sample_config asample_held = (x, t)" by (rule prod.exhaust)
  with aclose_outcome [OF asample_held(1)] asample_held(6) show ?thesis by auto
qed

text \<open>
  C25. The two-phase operations of an async object from any reachable state.  \<open>enqueue\<close> returns \<open>acquired\<close>
  with a grant held as after \<open>acquire\<close>, or \<open>queued\<close> with a connection, no token and no renewal task, or
  raises as \<open>acquire\<close> does.  \<open>wait\<close> returns \<open>True\<close> and touches nothing when a token is held, and otherwise
  \<open>True\<close> with a new grant or \<open>False\<close> with everything closed; it raises \<open>RuntimeError\<close> and touches nothing
  without a connection, and every other exception leaves everything closed.
\<close>

theorem async_two_phase_outcome:
  assumes "async_reachable cfg s"
  shows "case (aenqueue_unlocked cfg s, await_unlocked cfg timeout_s s) of ((x, t), (y, u)) \<Rightarrow>
    (case x of
       Inr status \<Rightarrow> status = lit ''acquired'' \<and> aheld t \<or> status = lit ''queued'' \<and> aconnected t
     | Inl e \<Rightarrow> ablank {} t \<or>
         e = cancelled \<and> a_renew_task t = None \<and> a_conn t = a_conn s \<and> a_token t = a_token s) \<and>
    (case y of
       Inr True \<Rightarrow> if a_token s = None then aheld u else u = s
     | Inr False \<Rightarrow> aclosed_blank u
     | Inl e \<Rightarrow> aclosed_blank u \<or>
         e = Exn RuntimeError [Txt (lit ''not connected; call enqueue() first'')] \<and> a_conn s = None \<and> u = s)"
proof -
  note rest = async_reachable_rest [OF assms]
  have w: "wp (aenqueue_unlocked cfg)
      (\<lambda>st t. st = lit ''acquired'' \<and> aheld t \<or> st = lit ''queued'' \<and> aconnected t)
      (\<lambda>e t. ablank {} t \<or> e = cancelled \<and> a_renew_task t = None \<and> a_conn t = a_conn s \<and> a_token t = a_token s) s"
    by (rule wp_aenqueue [OF rest]) (auto simp: interrupted_def simp del: lit_Cons)
  have w': "wp (await_unlocked cfg timeout_s)
      (\<lambda>b u. if b then if a_token s = None then aheld u else u = s else aclosed_blank u)
      (\<lambda>e u. aclosed_blank u \<or>
        e = Exn RuntimeError [Txt (lit ''not connected; call enqueue() first'')] \<and> a_conn s = None \<and> u = s) s"
    by (rule wp_await [OF rest]) (auto simp del: lit_Cons)
  obtain x t y u where run: "aenqueue_unlocked cfg s = (x, t)" "await_unlocked cfg timeout_s s = (y, u)" by fastforce
  show ?thesis
    using wp_run [OF w run(1)] wp_run [OF w' run(2)]
    by (simp add: run del: lit_Cons) (cases x; cases y; simp split: bool.split del: lit_Cons)
qed

theorem async_two_phase_outcome_witness:
  "await_unlocked sample_config VNone asample_held = (Inr True, asample_held) \<and> a_token asample_held \<noteq> None"
proof -
  obtain x t y u where run: "aenqueue_unlocked sample_config asample_held = (x, t)"
    "await_unlocked sample_config VNone asample_held = (y, u)" by fastforce
  have "y = Inr True"
    using run(2) by (simp add: await_unlocked_def bindP_def asample_held(3) split: if_splits)
  with async_two_phase_outcome [OF asample_held(1), of VNone] asample_held(3) run show ?thesis
    by (simp del: lit_Cons)
qed

text \<open>
  C26. \<open>release\<close> of an async object from any reachable state, and \<open>__aexit__\<close>, which calls it, close in
  every outcome, cancellation included: no token, no connection, no open socket and no renewal task are
  left.  No \<open>Exception\<close> escapes, and \<open>True\<close> is returned only if a token was held.
\<close>

theorem arelease_outcome:
  assumes "async_reachable cfg s"
  shows "case (arelease_unlocked cfg s, aexit cfg s) of ((x, t), (y, u)) \<Rightarrow>
    aclosed_blank t \<and> aclosed_blank u \<and> (\<forall>c. \<not> conn_open t c \<and> \<not> conn_open u c) \<and>
    (case x of
       Inr released \<Rightarrow> if released then a_token s \<noteq> None else True
     | Inl e \<Rightarrow> \<not> isinstance e BuiltinException) \<and>
    (case y of Inr _ \<Rightarrow> True | Inl e \<Rightarrow> \<not> isinstance e BuiltinException)"
proof -
  note rest = async_reachable_rest [OF assms]
  let ?E = "\<lambda>e t. aclosed_blank t \<and> \<not> isinstance e BuiltinException"
  have w: "wp (arelease_unlocked cfg) (\<lambda>b t. aclosed_blank t \<and> (b \<longrightarrow> a_token s \<noteq> None)) ?E s"
    by (rule wp_arelease [OF rest]) simp_all
  have w': "wp (aexit cfg) (\<lambda>_. aclosed_blank) ?E s"
    by (rule wp_aexit [OF rest]) simp_all
  have none: "aclosed_blank t \<Longrightarrow> \<not> conn_open t c" for t c
    by (simp add: aclosed_blank_def ablank_no_socket)
  obtain x t y u where run: "arelease_unlocked cfg s = (x, t)" "aexit cfg s = (y, u)" by fastforce
  show ?thesis
    using wp_run [OF w run(1)] wp_run [OF w' run(2)] none
    by (simp add: run) (cases x; cases y; simp)
qed

theorem arelease_outcome_witness:
  "\<exists>x t. arelease_unlocked sample_config asample_held = (x, t) \<and> conn_open asample_held 0 \<and> \<not> conn_open t 0"
proof -
  obtain x t y u where "arelease_unlocked sample_config asample_held = (x, t)"
    "aexit sample_config asample_held = (y, u)" by fastforce
  with arelease_outcome [OF asample_held(1)] asample_held(6) show ?thesis by auto
qed

text \<open>
  C29. A cancelled \<open>acquire\<close> can keep the old grant without renewal: on an object that holds a token with a
  live renewal task, a cancellation of the caller at the wait for that task makes \<open>acquire\<close> raise
  \<open>CancelledError\<close> with the token and the connection kept, the task told to stop and the object open;
  \<open>wait\<close> then still reports the lock as held, although nothing renews its lease any more.
\<close>

theorem cancelled_acquire_keeps_token:
  assumes "a_token s = Some tok" "a_renew_task s = Some w" "w < length (a_tasks s)"
    and "t_pc (a_tasks s ! w) \<noteq> T_Done" "a_sched s = []" "a_cancels s = True # r"
  shows "\<exists>t. aacquire_unlocked cfg s = (Inl cancelled, t) \<and> a_token t = Some tok \<and> a_lease t = a_lease s \<and>
    a_conn t = a_conn s \<and> a_closed t = a_closed s \<and> a_renew_task t = None \<and> t_cancel (a_tasks t ! w) \<and>
    await_unlocked cfg timeout_s t = (Inr True, t)"
  using assms
  by (simp add: aacquire_unlocked_def areset_for_new_attempt_def cancel_renew_def cancel_and_wait_def
      request_cancel_def pause_def aburst_def cancel_point_def bindP_def await_unlocked_def)

text \<open>The sample object, cancelled at the first wait of its next call.\<close>

theorem cancelled_acquire_keeps_token_witness:
  "\<exists>t. aacquire_unlocked sample_config (asample_held\<lparr>a_cancels := [True]\<rparr>) = (Inl cancelled, t) \<and>
    a_token t = Some (lit ''ab12'') \<and> a_renew_task t = None"
proof -
  obtain w where w: "a_renew_task asample_held = Some w" "w < length (a_tasks asample_held)"
    "a_tasks asample_held ! w = \<lparr>t_cancel = False, t_pc = T_Init\<rparr>" by (rule asample_task)
  have "a_sched asample_held = []" using asample_held(7) by (simp add: undisturbed_def)
  with cancelled_acquire_keeps_token [of "asample_held\<lparr>a_cancels := [True]\<rparr>" "lit ''ab12''" w "[]" sample_config]
    w asample_held(3)
  show ?thesis by (auto simp del: lit_Cons)
qed

section \<open>The renewal task\<close>

lemma areachable_step: "async_reachable cfg s \<Longrightarrow> async_reachable cfg (task_step cfg w s)"
  by (rule async_reachable.step, assumption, rule async_step.renewal)

text \<open>A task comes to its first renewal in two steps when nobody interferes.\<close>

lemma first_arenewal:
  assumes "w < length (a_tasks s)" "a_tasks s ! w = \<lparr>t_cancel = False, t_pc = T_Init\<rparr>" "a_io_lock s = None"
    and "a_conn s = Some c" "a_token s = Some tok" "\<not> a_closed s"
  shows "let t = task_step cfg w (task_step cfg w s) in
    w < length (a_tasks t) \<and> a_tasks t ! w = \<lparr>t_cancel = False, t_pc = T_Io c tok\<rparr>"
  using assms by (simp add: task_step_def arenew_tick_def t_goto_def)

lemma asample_renewing:
  obtains s w where "async_reachable sample_config s" "w < length (a_tasks s)"
    "t_pc (a_tasks s ! w) = T_Io 0 (lit ''ab12'')" "\<not> t_cancel (a_tasks s ! w)"
proof -
  obtain w where w: "w < length (a_tasks asample_held)" "a_tasks asample_held ! w = \<lparr>t_cancel = False, t_pc = T_Init\<rparr>"
    using asample_task by blast
  have "\<not> a_closed asample_held" using asample_held(2) by (simp add: aheld_def)
  with first_arenewal [OF w asample_held(10,5,3), of sample_config]
    areachable_step [OF areachable_step [OF asample_held(1)], of w w] that
  show ?thesis by (auto simp: Let_def simp del: lit_Cons)
qed

lemma unlocked_open: "conn_open (s\<lparr>a_io_lock := x\<rparr>) c = conn_open s c"
  by (simp add: conn_open_def)

text \<open>
  C28. What one renewal of an async object does, from the request to the task's next wait.  A cancelled
  task ends, frees the lock and keeps the attributes.  After a successful request the lease is updated
  if the remaining time is positive, token and connection are kept, the lock is freed and the task sleeps for the interval
  of the remaining lease.  After a failed one (any \<open>Exception\<close>) the loss of the lock is logged, token,
  lease and connection are dropped, the socket is closed, the lock is freed and the task ends; no other
  outcome changes the token.
\<close>

theorem async_renewal_result:
  assumes "async_reachable cfg s" "w < length (a_tasks s)" "t_pc (a_tasks s ! w) = T_Io c tok"
  shows "let t = task_step cfg w s in
    a_io_lock t = None \<and>
    (if t_cancel (a_tasks s ! w)
     then t_pc (a_tasks t ! w) = T_Done \<and> a_token t = a_token s \<and> a_lease t = a_lease s \<and> a_conn t = a_conn s
     else case aproto_renew cfg c tok s of
         (Inr n, _) \<Rightarrow>
           a_lease t = (if n > 0 then n else a_lease s) \<and> a_token t = Some tok \<and> a_conn t = Some c \<and>
           t_pc (a_tasks t ! w) = T_Sleep (async_renew_interval n (rat_val (cf_renew_ratio cfg)))
       | (Inl e, _) \<Rightarrow>
           t_pc (a_tasks t ! w) = T_Done \<and>
           (if isinstance e BuiltinException
            then a_token t = None \<and> a_lease t = 0 \<and> a_conn t = None \<and> \<not> conn_open t c \<and>
              a_log t = a_log s @ [AsyncLost (cf_key cfg) (token_for_log (Some tok))]
            else a_token t = Some tok \<and> a_conn t = Some c))"
proof (cases "t_cancel (a_tasks s ! w)")
  case True
  with assms(2,3) show ?thesis
    by (simp add: Let_def task_step_def task_cancelled_def t_leave_def task_at_goto cancel_request_attrs)
next
  case False
  from async_tasks_exclusive [OF assms(1,2)] False assms(3)
  have own: "a_conn s = Some c" "a_token s = Some tok" "\<not> a_closed s" by simp_all
  obtain x v where run: "aproto_renew cfg c tok s = (x, v)" by (rule prod.exhaust)
  note same = atouches_attrs [OF aproto_renew_run [OF run]]
  have step: "task_step cfg w s = asafe_renew_once cfg w c tok s"
    using False assms(2,3) by (simp add: task_step_def)
  show ?thesis
  proof (cases x)
    case (Inr n)
    then show ?thesis
      using False assms(2) run own same
      by (simp add: Let_def step asafe_renew_once_def t_leave_def task_at_goto update_lease_attrs)
        (simp add: aupdate_lease_def)
  next
    case (Inl e)
    then show ?thesis
      using False assms(2) run own same
      by (simp add: Let_def step asafe_renew_once_def t_leave_def task_at_goto handle_renew_failure_def
          alog_renew_failure_def close_nowait_run conn_open_upd_sock unlocked_open)
  qed
qed

theorem async_renewal_result_witness:
  "\<exists>s w. t_pc (a_tasks s ! w) = T_Io 0 (lit ''ab12'') \<and> a_io_lock (task_step sample_config w s) = None"
proof -
  obtain s w where "async_reachable sample_config s" "w < length (a_tasks s)"
    "t_pc (a_tasks s ! w) = T_Io 0 (lit ''ab12'')" by (rule asample_renewing)
  from async_renewal_result [OF this] this(3) show ?thesis by (auto simp: Let_def)
qed

text \<open>
  Waiting for \<open>_io_lock\<close> of an async object ends: from every reachable state and for every schedule the
  caller gets the lock within the turns the model grants it; meanwhile no socket is opened and nothing
  is granted.
\<close>

lemma async_io_lock_is_granted:
  assumes "async_reachable cfg s"
  shows "let t = await_lock cfg (length (a_sched s) + 2) s in
    a_io_lock t = None \<and> {c. conn_open t c} \<subseteq> {c. conn_open s c} \<and>
    (a_conn t = a_conn s \<and> a_token t = a_token s \<or> a_conn t = None \<and> a_token t = None)"
proof -
  note r = areachable_facts [OF assms]
  have "ainv {} s" using r(1) by (simp add: arest_def)
  from alock_granted [OF this r(7) alock_turns_bound, of cfg] show ?thesis
    by (auto simp: Let_def dest: arelyD(7,8))
qed

section \<open>An acquire from the constructor to the grant\<close>

text \<open>
  C19. An \<open>acquire\<close> of an async object from beginning to end, when no task takes a step and nobody cancels
  meanwhile: on an object that the constructor accepts and that holds nothing, whose strategy picks a server
  and whose timeout is at most \<open>9223372006\<close>, if the server accepts the connection, answers \<open>ok\<close> to the
  authentication when the object has an auth token (one that passes the validator), and then answers with a
  grant line, then \<open>acquire\<close> returns \<open>True\<close>, the printed token and lease are held on a new open connection
  with a renewal task, and the frames sent are the auth command, if there is an auth token, followed by the
  acquire command with the object's key and parameters.
\<close>

theorem async_acquire_end_to_end:
  assumes "async_post_init cfg = Inr ()" "async_pick_server cfg = Inr server" "admits cfg pre"
    and "cf_acquire_timeout_s cfg = VInt n" "n \<le> LARGEST_USABLE_TIMEOUT_S"
    and "make_acquire_arg (VInt n) (opt_int (acquire_limit cfg)) (cf_lease_ttl_s cfg) = Inr arg"
    and "ablank {} s" "undisturbed s" "dials s = DialOk # ds" "ios s = pre @ Io (grant_bytes tok k @ nl) Eof # r"
    and "is_field tok" "encodable tok" "wire_size tok \<le> 1000" "1 \<le> k" "k \<le> MAX_PROTOCOL_SECONDS"
    and "nl = [0x0A] \<or> nl = [0x0D, 0x0A]"
  shows "\<exists>t. aacquire_unlocked cfg s = (Inr True, t) \<and> aheld t \<and> a_token t = Some tok \<and> a_lease t = k \<and>
    a_conn t = Some (length (socks s)) \<and> conn_open t (length (socks s)) \<and>
    map frame_lines (sent_on t (length (socks s))) =
      map (map Some) (auth_lines cfg @ [[acquire_prefix cfg @ lit ''l'', cf_key cfg, arg]])"
proof -
  have init: "post_init cfg = Inr ()" "pick_server cfg = Inr server" using assms(1,2) by simp_all
  have "response (grant_bytes tok k @ nl) Eof (grant_line (lit ''ok'') tok k)"
    using assms by (intro grant_response) auto
  from quiet_aacquire [OF init assms(3-10) this grant_parsed [OF assms(11,14,15)]]
  show ?thesis unfolding frames_on_def by blast
qed

theorem async_acquire_end_to_end_witness:
  "\<exists>t. aacquire_unlocked auth_config
        (init_alock [Io [0x6F, 0x6B, 0x0A] Eof, Io (grant_bytes (lit ''ab12'') 33 @ [0x0A]) Eof] [DialOk] [] []) = (Inr True, t) \<and>
    a_token t = Some (lit ''ab12'') \<and> a_lease t = 33 \<and>
    map frame_lines (sent_on t 0) =
      map (map Some) [[lit ''auth'', lit ''_'', lit ''pw''], [lit ''l'', lit ''k'', lit ''10'']]"
proof -
  have lease: "(1 :: int) \<le> 33" "(33 :: int) \<le> MAX_PROTOCOL_SECONDS" by (simp_all add: limits)
  define s where "s = init_alock [Io [0x6F, 0x6B, 0x0A] Eof, Io (grant_bytes (lit ''ab12'') 33 @ [0x0A]) Eof] [DialOk] [] []"
  have init: "ablank {} s" "undisturbed s" "dials s = DialOk # []" "socks s = []"
    "ios s = [Io [0x6F, 0x6B, 0x0A] Eof] @ Io (grant_bytes (lit ''ab12'') 33 @ [0x0A]) Eof # []"
    unfolding s_def by (rule ablank_init) (simp_all add: init_alock_def undisturbed_def)
  have "async_post_init auth_config = Inr ()"
    "async_pick_server auth_config = Inr (VStr (lit ''127.0.0.1''), VInt 6388)"
    using auth_config_ok(1) sample_config_ok(2) auth_config_ok(2) by simp_all
  from async_acquire_end_to_end [OF this auth_config_ok(3,4) sample_request(2) auth_config_ok(5)
      init(1-3,5) sample_args(4-6) lease]
  show ?thesis unfolding auth_config_ok init(4) s_def [symmetric] by (auto simp del: lit_Cons)
qed

end
