(* ===== verification/Async_Wire.thy ===== *)
theory Async_Wire
  imports Async_Properties Wire_Rules
begin

text \<open>
  What the async objects send: the invariant \<open>awire_inv\<close> and its stability, as for the sync objects.  A request
  of the caller is preceded by whatever the tasks do, and a cancelled renewal may have written its frame.
\<close>

section \<open>The invariant and the renewal tasks\<close>

definition awire_inv :: "config \<Rightarrow> alock \<Rightarrow> bool" where
  "awire_inv cfg s \<longleftrightarrow> net_ok cfg s \<and> (\<forall>c. a_conn s = Some c \<longrightarrow> ready cfg s c) \<and>
    (\<forall>k \<in> set (a_tasks s). \<forall>c tok. t_pc k = T_Io c tok \<longrightarrow> ready cfg s c)"

lemma asent_on_attrs [simp]:
  "sent_on (s\<lparr>a_conn := a\<rparr>) = sent_on s" "sent_on (s\<lparr>a_token := b\<rparr>) = sent_on s"
  "sent_on (s\<lparr>a_lease := n\<rparr>) = sent_on s" "sent_on (s\<lparr>a_renew_task := d\<rparr>) = sent_on s"
  "sent_on (s\<lparr>a_closed := f\<rparr>) = sent_on s" "sent_on (s\<lparr>a_io_lock := g\<rparr>) = sent_on s"
  "sent_on (s\<lparr>a_tasks := i\<rparr>) = sent_on s" "sent_on (s\<lparr>a_sched := j\<rparr>) = sent_on s"
  "sent_on (s\<lparr>a_cancels := k\<rparr>) = sent_on s" "sent_on (s\<lparr>a_log := l\<rparr>) = sent_on s"
  by (simp_all add: fun_eq_iff sent_on_def)

lemmas awire_simps = awire_inv_def net_ok_def ready_def

abbreviation async_follows :: "config \<Rightarrow> alock \<Rightarrow> alock \<Rightarrow> bool" where
  "async_follows cfg \<equiv> follows (awire_inv cfg) (ready cfg)"

lemma afollows_same:
  "sent_on t = sent_on s \<Longrightarrow> a_conn t \<in> {a_conn s, None} \<Longrightarrow> map t_pc (a_tasks t) = map t_pc (a_tasks s) \<Longrightarrow>
    async_follows cfg s t"
proof -
  assume same: "sent_on t = sent_on s" "a_conn t \<in> {a_conn s, None}" "map t_pc (a_tasks t) = map t_pc (a_tasks s)"
  from same(3) have "t_pc ` set (a_tasks t) = t_pc ` set (a_tasks s)" by (metis list.set_map)
  then have "\<exists>k' \<in> set (a_tasks s). t_pc k' = t_pc k" if "k \<in> set (a_tasks t)" for k
    using that by (metis imageE imageI)
  with same show ?thesis by (fastforce simp: follows_def awire_simps)
qed

lemma afollows_upd_sock:
  assumes "\<And>k. sk_sent (g k) = sk_sent k"
  shows "async_follows cfg s (upd_sock c g s)"
  by (rule afollows_same [OF sent_upd_same [OF assms]]) (simp_all add: upd_sock_def)

lemma keeps_async: "(\<And>s. async_follows cfg s (g s)) \<Longrightarrow> keeps (awire_inv cfg) (modP g)"
  by (rule keeps_follows)

lemma afollows_goto:
  assumes "\<And>c tok. pc = T_Io c tok \<Longrightarrow> awire_inv cfg s \<Longrightarrow> ready cfg s c"
  shows "async_follows cfg s (t_goto w pc s)"
proof (cases "w < length (a_tasks s)")
  case True
  have "set (a_tasks (t_goto w pc s)) \<subseteq> insert ((a_tasks s ! w)\<lparr>t_pc := pc\<rparr>) (set (a_tasks s))"
    by (simp add: t_goto_def set_update_subset_insert)
  then have elem: "t_pc x = pc \<or> x \<in> set (a_tasks s)" if "x \<in> set (a_tasks (t_goto w pc s))" for x
    using that by auto
  moreover have "net_ok cfg (t_goto w pc s) = net_ok cfg s" "ready cfg (t_goto w pc s) c = ready cfg s c"
    "a_conn (t_goto w pc s) = a_conn s" for c
    by (simp_all add: t_goto_def awire_simps)
  ultimately show ?thesis using assms by (auto simp: follows_def awire_inv_def dest!: elem)
next
  case False
  then show ?thesis by (simp add: t_goto_def follows_def list_update_beyond)
qed

lemma afollows_leave:
  assumes "\<And>c tok. pc \<noteq> T_Io c tok"
  shows "async_follows cfg s (t_leave w pc s)"
  unfolding t_leave_def
proof (rule follows_trans)
  show "async_follows cfg s (s\<lparr>a_io_lock := None\<rparr>)" by (rule afollows_same) simp_all
  show "async_follows cfg (s\<lparr>a_io_lock := None\<rparr>) (t_goto w pc (s\<lparr>a_io_lock := None\<rparr>))"
    by (rule afollows_goto) (use assms in simp)
qed

lemma afollows_request: "awire_inv cfg s \<Longrightarrow> ready cfg s c \<Longrightarrow> request cfg c s t \<Longrightarrow> async_follows cfg s t"
  using request_net_ok [of cfg s c t] atouches_attrs [of c s t]
  by (auto simp: follows_def awire_inv_def request_def)

lemma aproto_request:
  "aproto_acquire cfg c s = (x, t) \<Longrightarrow> request cfg c s t"
  "aproto_enqueue cfg c s = (y, t) \<Longrightarrow> request cfg c s t"
  "aproto_wait cfg c tm s = (x, t) \<Longrightarrow> request cfg c s t"
  "aproto_release cfg c tok s = (z, t) \<Longrightarrow> request cfg c s t"
  "aproto_renew cfg c tok s = (u, t) \<Longrightarrow> request cfg c s t"
  unfolding aproto_defs request_def request_names_def cf_prefix_def
  by (cases "cf_kind cfg"; auto dest!: async.acquire_effect async.enqueue_effect async.wait_effect
      async.release_effect async.renew_effect simp del: lit_Cons)+

lemma afollows_renew:
  assumes "awire_inv cfg s" "ready cfg s c"
  shows "async_follows cfg s (snd (aproto_renew cfg c tok s))" "async_follows cfg s (cancel_request cfg c tok s)"
proof -
  have renew: "async_follows cfg u (snd (aproto_renew cfg c tok u))" if "awire_inv cfg u" "ready cfg u c" for u
    using aproto_request(5) [of cfg c tok u] by (intro afollows_request [OF that]) (metis prod.collapse)
  then show "async_follows cfg s (snd (aproto_renew cfg c tok s))" using assms .
  have ios: "async_follows cfg u (u\<lparr>ios := r\<rparr>)" for u r
    by (rule afollows_same) simp_all
  have "awire_inv cfg (s\<lparr>ios := r\<rparr>)" "ready cfg (s\<lparr>ios := r\<rparr>) c" for r
    using assms by (simp_all add: awire_simps)
  then show "async_follows cfg s (cancel_request cfg c tok s)"
    unfolding cancel_request_def by (intro follows_trans [OF follows_trans [OF ios renew] ios])
qed

lemma afollows_tick: "async_follows cfg s (arenew_tick w s)"
proof -
  have lock: "async_follows cfg s (s\<lparr>a_io_lock := x\<rparr>)" for x by (rule afollows_same) simp_all
  have "async_follows cfg s (t_goto w (T_Io c tok) (s\<lparr>a_io_lock := x\<rparr>))" if "a_conn s = Some c" for c tok x
    by (rule follows_trans [OF lock afollows_goto]) (use that in \<open>simp add: awire_inv_def\<close>)
  then show ?thesis
    by (auto simp: arenew_tick_def intro!: afollows_goto split: option.split)
qed

lemma afollows_failure: "async_follows cfg s (handle_renew_failure cfg c s)"
proof -
  have log: "async_follows cfg s (alog_renew_failure cfg s)"
    by (rule afollows_same) (simp_all add: alog_renew_failure_def)
  have "async_follows cfg u (upd_sock c (\<lambda>k. k\<lparr>sk_open := False\<rparr>) (u\<lparr>a_conn := None, a_token := None, a_lease := 0\<rparr>))" for u
    by (rule follows_trans [OF afollows_same afollows_upd_sock]) simp_all
  from follows_trans [OF log this] log show ?thesis
    by (auto simp: handle_renew_failure_def close_nowait_run Let_def intro: follows_refl)
qed

lemma afollows_update: "async_follows cfg s (aupdate_lease n s)"
  by (rule afollows_same) (simp_all add: aupdate_lease_def)

lemma afollows_step: "async_follows cfg s (task_step cfg w s)"
proof (cases "awire_inv cfg s \<and> w < length (a_tasks s)")
  case True
  note leave = follows_trans [OF _ afollows_leave]
  show ?thesis
  proof (cases "t_pc (a_tasks s ! w)")
    case (T_Io c tok)
    with True have "ready cfg s c" unfolding awire_inv_def by (metis nth_mem)
    with True have renew: "async_follows cfg s (snd (aproto_renew cfg c tok s))"
      "async_follows cfg s (cancel_request cfg c tok s)" by (simp_all add: afollows_renew)
    obtain x t where run: "aproto_renew cfg c tok s = (x, t)" by fastforce
    with renew(1) have t: "async_follows cfg s t" by simp
    have "async_follows cfg t (if isinstance e BuiltinException then handle_renew_failure cfg c t else t)" for e
      by (simp add: afollows_failure follows_refl)
    then have end': "async_follows cfg s (t_leave w T_Done (if isinstance e BuiltinException then handle_renew_failure cfg c t else t))"
      for e by (intro leave follows_trans [OF t]) simp_all
    show ?thesis
    proof (cases "t_cancel (a_tasks s ! w)")
      case True
      with \<open>awire_inv cfg s \<and> w < length (a_tasks s)\<close> T_Io show ?thesis
        by (simp add: task_step_def task_cancelled_def leave [OF renew(2)])
    next
      case False
      then have "task_step cfg w s = asafe_renew_once cfg w c tok s"
        using True T_Io by (simp add: task_step_def)
      then show ?thesis
        using end' leave [OF follows_trans [OF t afollows_update]] by (cases x) (simp_all add: asafe_renew_once_def run)
    qed
  qed (use True in \<open>auto simp: task_step_def task_cancelled_def intro!: afollows_goto afollows_tick follows_refl\<close>)
qed (auto simp: task_step_def follows_def)

interpretation tasks: background "awire_inv cfg" "ready cfg" "task_step cfg" for cfg
  by unfold_locales (rule afollows_step)

section \<open>Waiting\<close>

lemma afollows_burst: "async_follows cfg s (aburst cfg s)"
proof -
  have "async_follows cfg s (s\<lparr>a_sched := r\<rparr>)" for r by (rule afollows_same) simp_all
  then show ?thesis
    by (auto simp: aburst_def intro: follows_refl follows_trans [OF _ tasks.fold_follows] split: list.split)
qed

lemma afollows_await_lock: "async_follows cfg s (await_lock cfg n s)"
proof (induction n arbitrary: s)
  case (Suc n)
  show ?case
    by (cases "a_io_lock s")
      (auto intro: follows_refl follows_trans [OF follows_trans [OF afollows_step afollows_burst] Suc])
qed (simp add: follows_refl)

lemma keeps_pause [keeps]: "keeps (awire_inv cfg) (pause cfg)"
proof -
  have "keeps (awire_inv cfg) cancel_point"
    by (rule keepsI) (auto simp: wp_def cancel_point_def awire_simps split: list.split)
  then show ?thesis unfolding pause_def by (intro keeps keeps_async afollows_burst)
qed

lemma keeps_awith_io_lock [keeps]:
  assumes "keeps (awire_inv cfg) m"
  shows "keeps (awire_inv cfg) (awith_io_lock cfg m)"
proof -
  have lock: "async_follows cfg s (s\<lparr>a_io_lock := x\<rparr>)" for s x by (rule afollows_same) simp_all
  have "async_follows cfg s ((await_lock cfg (length (a_sched s) + 2) s)\<lparr>a_io_lock := Some 0\<rparr>)" for s
    by (rule follows_trans [OF afollows_await_lock lock])
  then have "keeps (awire_inv cfg) (seqP (pause cfg)
      (modP (\<lambda>s. (await_lock cfg (length (a_sched s) + 2) s)\<lparr>a_io_lock := Some 0\<rparr>)))"
    by (intro keeps keeps_async)
  then have "keeps (awire_inv cfg) (acquire_io_lock cfg)"
    using lock by (auto simp: keeps_def acquire_io_lock_def follows_def wp_def)
  with lock show ?thesis unfolding awith_io_lock_def by (intro keeps assms keeps_async)
qed

section \<open>The methods\<close>

lemma keeps_close_nowait [keeps]: "keeps (awire_inv cfg) (close_nowait c)"
  unfolding close_nowait_def by (intro keeps_async afollows_upd_sock) simp

lemma keeps_astart_renew [keeps]: "keeps (awire_inv cfg) astart_renew"
  unfolding astart_renew_def by (intro keeps_async) (auto simp: follows_def awire_simps)

lemma keeps_aset_held [keeps]: "keeps (awire_inv cfg) (aset_held tok lease)"
  unfolding aset_held_def by (intro keeps_async afollows_same) simp_all

lemma keeps_cancel_and_wait [keeps]: "keeps (awire_inv cfg) (cancel_and_wait cfg t)"
proof -
  have "map t_pc ((a_tasks s)[t := (a_tasks s ! t)\<lparr>t_cancel := True\<rparr>]) = map t_pc (a_tasks s)" for s
    by (cases "t < length (a_tasks s)") (simp_all add: map_update list_update_same_conv list_update_beyond)
  then have "async_follows cfg s (request_cancel t s)" for s
    by (intro afollows_same) (simp_all add: request_cancel_def)
  then show ?thesis unfolding cancel_and_wait_def by (intro keeps keeps_async afollows_step)
qed

lemma keeps_cancel_renew [keeps]:
  "keeps (awire_inv cfg) (cancel_renew cfg)" "keeps (awire_inv cfg) (cancel_renew_locked cfg)"
  unfolding cancel_renew_def cancel_renew_locked_def by (intro keeps keeps_async afollows_same; simp)+

lemma keeps_aclose [keeps]: "keeps (awire_inv cfg) (aclose_unlocked cfg)" "keeps (awire_inv cfg) (async_close cfg c)"
  unfolding aclose_unlocked_def detach_conn_def aclear_held_state_def async_close_def
  by (intro keeps keeps_async afollows_same; simp)+

lemma keeps_areset [keeps]: "keeps (awire_inv cfg) (areset_for_new_attempt cfg)"
  unfolding areset_for_new_attempt_def by (intro keeps keeps_async afollows_same) simp_all

text \<open>A request on the object's connection, after what the tasks do while the caller waits.\<close>

lemma wp_await_request:
  assumes "awire_inv cfg s" "ready cfg s c" "\<And>s x t. m s = (x, t) \<Longrightarrow> request cfg c s t"
  shows "wp (await_io cfg m) (\<lambda>_. awire_inv cfg) (\<lambda>_. awire_inv cfg) s"
proof -
  have u: "awire_inv cfg (aburst cfg s)" "ready cfg (aburst cfg s) c"
    using assms(1,2) afollows_burst [of cfg s] by (simp_all add: follows_def)
  obtain x t where run: "m (aburst cfg s) = (x, t)" by fastforce
  then have "awire_inv cfg t" using afollows_request [OF u] assms(3) u by (auto simp: follows_def)
  with run show ?thesis by (simp add: await_io_def wp_bindP wp_modP wp_def [of m] split: sum.split)
qed

lemma keeps_arequire_conn:
  assumes "\<And>c s. awire_inv cfg s \<Longrightarrow> ready cfg s c \<Longrightarrow> wp (f c) (\<lambda>_. awire_inv cfg) (\<lambda>_. awire_inv cfg) s"
  shows "keeps (awire_inv cfg) (bindP arequire_conn f)" "keeps (awire_inv cfg) (bindP arequire_conn_for_wait f)"
  unfolding arequire_conn_def arequire_conn_for_wait_def
  by (rule keepsI, simp add: wp_simps assms awire_inv_def split: option.split)+

lemma keeps_ainvoke [keeps]:
  "keeps (awire_inv cfg) (ainvoke_acquire cfg)" "keeps (awire_inv cfg) (ainvoke_enqueue cfg)"
  unfolding ainvoke_acquire_def ainvoke_enqueue_def ahandle_enqueue_status_def
  by (intro keeps keeps_arequire_conn wp_keeps_bind; erule (1) wp_await_request; erule aproto_request)+

lemma keeps_ainvoke_wait [keeps]: "keeps (awire_inv cfg) (ainvoke_wait cfg tm)"
  unfolding ainvoke_wait_def
  by (intro keeps_arequire_conn(2) wp_keeps_try wp_keeps_bind keeps)
    (erule (1) wp_await_request, erule aproto_request)

lemma keeps_arelease [keeps]: "keeps (awire_inv cfg) (arelease_unlocked cfg)"
proof -
  have log: "keeps (awire_inv cfg) (modP (\<lambda>s. s\<lparr>a_log := a_log s @ l\<rparr>))" for l
    by (intro keeps_async afollows_same) simp_all
  have "wp (asafe_release cfg c tok) (\<lambda>_. awire_inv cfg) (\<lambda>_. awire_inv cfg) s"
    if "awire_inv cfg s" "a_conn s = Some c" for c tok s
    unfolding asafe_release_def
    by (intro wp_keeps_try keeps log wp_await_request [where c = c] that(1))
      (use that in \<open>auto simp: awire_inv_def intro: aproto_request\<close>)
  then have "keeps (awire_inv cfg) (asend_release_quietly cfg)"
    by (intro keepsI) (auto simp: asend_release_quietly_def wp_simps split: option.split)
  then show ?thesis unfolding arelease_unlocked_def by (intro keeps)
qed

section \<open>Connecting, and what is reachable\<close>

lemma wp_async_open_wire:
  assumes s: "awire_inv cfg s" and Q: "\<And>c t. awire_inv cfg t \<Longrightarrow> sent_on t c = [] \<Longrightarrow> Q c t"
  shows "wp (await_io cfg (async_open_conn h p tls tm)) Q (\<lambda>_. awire_inv cfg) s"
proof -
  have u: "awire_inv cfg (aburst cfg s)"
    using s afollows_burst [of cfg s] by (simp add: follows_def)
  obtain x t where run: "open_connection tls (aburst cfg s) = (x, t)" by fastforce
  note sent = open_connection_sent [OF run]
  have "awire_inv cfg t"
    using u sent open_connection_attrs [OF run] by (auto simp: awire_simps)
  with run sent Q have "wp (open_connection tls) Q (\<lambda>_. awire_inv cfg) (aburst cfg s)"
    by (auto simp: wp_def split: sum.split)
  with u show ?thesis
    by (auto simp: await_io_def async_open_conn_def wp_simps split: sum.split)
qed

lemma wp_amaybe_authenticate_wire:
  assumes s: "awire_inv cfg s" "sent_on s c = []"
  shows "wp (amaybe_authenticate cfg c (cf_auth_token cfg)) (\<lambda>d t. awire_inv cfg t \<and> ready cfg t d) (\<lambda>_. awire_inv cfg) s"
proof (cases "cf_auth_token cfg")
  case None
  with s show ?thesis by (simp add: amaybe_authenticate_def wp_simps ready_def)
next
  case (Some tok)
  define u where "u = aburst cfg s"
  have u: "awire_inv cfg u" "sent_on u c = []"
    using s Some afollows_burst [of cfg s] by (auto simp: u_def follows_def ready_def)
  obtain x t where run: "async_authenticate c tok u = (x, t)" by fastforce
  note sends = async.authenticate_sends [OF run [unfolded async_authenticate_def]]
  have "net_ok cfg t \<and> (\<forall>d. ready cfg u d \<longrightarrow> ready cfg t d)"
    by (rule auth_net_ok [OF _ Some u(2)]) (use u sends in \<open>auto simp: awire_inv_def auth_request_def\<close>)
  then have t: "awire_inv cfg t"
    using u(1) atouches_attrs [of c u t] sends unfolding awire_inv_def by metis
  have close: "wp (async_close cfg c) (\<lambda>_. awire_inv cfg) (\<lambda>_. awire_inv cfg) t"
    by (rule keepsD) (intro keeps, rule t)
  from sends t run show ?thesis
    by (cases x) (auto simp: Some amaybe_authenticate_def await_io_def wp_bindP wp_modP wp_tryP wp_retP wp_raiseP_fun
        close ready_def u_def [symmetric] wp_def [of "async_authenticate c tok"])
qed

lemma keeps_aopen [keeps]: "keeps (awire_inv cfg) (aopen_and_authenticate cfg)"
proof (rule keepsI)
  fix s
  assume s: "awire_inv cfg s"
  have set: "awire_inv cfg (t\<lparr>a_conn := Some c\<rparr>)" if "awire_inv cfg t \<and> ready cfg t c" for c t
    using that by (simp add: awire_simps)
  have conn: "wp (await_io cfg (async_open_conn h p (cf_ssl_context cfg) (cf_connect_timeout_s cfg)))
      (\<lambda>c. wp (amaybe_authenticate cfg c (cf_auth_token cfg)) (\<lambda>c t. awire_inv cfg (t\<lparr>a_conn := Some c\<rparr>)) (\<lambda>_. awire_inv cfg))
      (\<lambda>_. awire_inv cfg) s" for h p
    by (rule wp_async_open_wire [OF s], rule wp_mono, erule (1) wp_amaybe_authenticate_wire) (simp_all add: set)
  show "wp (aopen_and_authenticate cfg) (\<lambda>_. awire_inv cfg) (\<lambda>_. awire_inv cfg) s"
    using s conn by (auto simp: aopen_and_authenticate_def wp_bindP_fun wp_modP_fun wp_liftE split: sum.split)
qed

lemma keeps_amethods [keeps]:
  "keeps (awire_inv cfg) (aacquire_unlocked cfg)" "keeps (awire_inv cfg) (aenqueue_unlocked cfg)"
  "keeps (awire_inv cfg) (await_unlocked cfg tm)"
  unfolding aacquire_unlocked_def aenqueue_unlocked_def await_unlocked_def by (intro keeps)+

lemma keeps_acontext [keeps]: "keeps (awire_inv cfg) (aenter cfg)" "keeps (awire_inv cfg) (aexit cfg)"
  unfolding aenter_def aexit_def by (intro keeps keeps_async afollows_same; simp)+

lemma areachable_wire_inv: "async_reachable cfg s \<Longrightarrow> awire_inv cfg s"
proof (induction rule: async_reachable.induct)
  case (init ios0 dials0 sched cancels)
  show ?case by (simp add: awire_simps init_alock_def sent_on_def)
next
  case (step s s')
  from step(2) show ?case
  proof cases
    case (api a)
    have "awire_inv cfg (run_async_api cfg a s)"
      by (cases a; simp add: run_async_api_def; rule keeps_final; (rule keeps step.IH)?)
    with api show ?thesis by simp
  next
    case (renewal w)
    with step.IH afollows_step [of cfg s w] show ?thesis by (simp add: follows_def)
  qed
qed

text \<open>
  C7. Everything an async object ever sends, on any connection, from the caller or a task, conforms: when the
  object has an auth token the first frame of the connection is \<open>auth\<close> with that token, and every other
  frame is one of the five commands of the object's kind, about the object's own key.
\<close>

theorem async_wire_conforms:
  assumes "async_reachable cfg s"
  shows "conforms cfg (sent_on s c)"
  using areachable_wire_inv [OF assms] by (simp add: awire_inv_def net_ok_def)

theorem async_wire_conforms_witness:
  "conforms sample_config (sent_on asample_held 0) \<and> conn_open asample_held 0"
  using async_wire_conforms [OF asample_held(1)] asample_held(6) by simp

end
