(* ===== verification/Client_Refinement.thy ===== *)
theory Client_Refinement
  imports Client_Spec Sync_Properties Async_Properties
begin

text \<open>
  Both clients implement the state machine of \<open>Client_Spec\<close>: the public methods and the background
  renewal of the sync and of the async object are interpretations of \<open>lock_object\<close>, so whatever a user
  does with an object, in whatever order and under whatever interference, is an execution of the
  specification.
\<close>

section \<open>The sync object\<close>

definition sync_call :: "config \<Rightarrow> op \<Rightarrow> lock \<Rightarrow> outcome \<times> lock" where
  "sync_call cfg a s =
    (case a of
       OAcquire \<Rightarrow> outcome_of Returned (acquire_unlocked cfg s)
     | OEnqueue \<Rightarrow> outcome_of Status (enqueue_unlocked cfg s)
     | OWait t \<Rightarrow> outcome_of Returned (wait_unlocked cfg t s)
     | ORelease \<Rightarrow> outcome_of Returned (release_unlocked cfg s)
     | OClose \<Rightarrow> outcome_of (\<lambda>_. Finished) (close_unlocked cfg s)
     | OEnter \<Rightarrow> outcome_of (\<lambda>_. Finished) (enter cfg s)
     | OExit \<Rightarrow> outcome_of (\<lambda>_. Finished) (exit cfg s))"

text \<open>From a weakest precondition to the outcome.\<close>

lemma wp_outcome:
  assumes "wp m (\<lambda>a t. P (f a) t) (\<lambda>e t. P (failure e) t) s" "outcome_of f (m s) = (r, t)"
  shows "P r t"
  using assms by (auto simp: wp_def outcome_of_def split: prod.splits sum.splits)

text \<open>Where an operation ends, by phase.\<close>

lemma spec_ends:
  "is_holding q \<Longrightarrow> spec_call p OAcquire (Returned True) q" "spec_call p OAcquire (Returned False) Idle"
  "is_holding q \<Longrightarrow> spec_call p OEnqueue (Status (lit ''acquired'')) q"
  "spec_call p OEnqueue (Status (lit ''queued'')) Queued" "is_holding q \<Longrightarrow> spec_call p OEnter Finished q"
  "spec_call p OClose Finished Idle" "spec_call p OExit Finished Idle"
  "(b \<longrightarrow> is_holding p) \<Longrightarrow> spec_call p ORelease (Returned b) Idle"
  "is_holding q \<Longrightarrow> spec_call Queued (OWait tm) (Returned True) q"
  "spec_call Queued (OWait tm) (Returned False) Idle" "spec_call (Holding tok) (OWait tm) (Returned True) (Holding tok)"
  by (simp_all add: spec_call_def del: lit_Cons)

lemma spec_fails:
  "spec_call p OAcquire (failure e) Idle" "spec_call p OEnqueue (failure e) Idle" "spec_call p OEnter (failure e) Idle"
  "spec_call Queued (OWait tm) (failure e) Idle" "isinstance e BuiltinException \<Longrightarrow> spec_call p (OWait tm) (failure e) Idle"
  "\<not> isinstance e BuiltinException \<Longrightarrow> a \<in> {OAcquire, OEnqueue, OEnter, ORelease, OExit} \<Longrightarrow>
    q = p \<or> q = Idle \<Longrightarrow> spec_call p a (failure e) q"
  "\<not> isinstance e BuiltinException \<Longrightarrow> spec_call p OClose (failure e) Idle"
  by (cases p; auto simp: spec_call_def failure_def)+

lemma held_phase: "held t \<Longrightarrow> is_holding (lphase t)"
  by (auto simp: held_def lphase_def)

lemma lphase_holding: "is_holding (lphase s) \<longleftrightarrow> l_token s \<noteq> None"
  by (simp add: lphase_def)

lemma sync_phases:
  "blank t \<Longrightarrow> lphase t = Idle" "connected t \<Longrightarrow> lphase t = Queued" "closed_blank t \<Longrightarrow> lphase t = Idle"
  by (auto simp: lphase_def blank_def connected_def closed_blank_def)

lemma sync_call_correct:
  assumes s: "rest s" and run: "sync_call cfg a s = (r, t)"
  shows "rest t \<and> spec_call (lphase s) a r (lphase t)"
proof -
  let ?P = "\<lambda>r t. rest t \<and> spec_call (lphase s) a r (lphase t)"
  note ends = rest_intros held_phase sync_phases spec_ends spec_fails
  show ?thesis
  proof (cases a)
    case OAcquire
    have "wp (acquire_unlocked cfg) (\<lambda>b. ?P (Returned b)) (\<lambda>e. ?P (failure e)) s"
      unfolding OAcquire by (rule wp_acquire [OF s]) (simp_all add: ends)
    from wp_outcome [OF this] run OAcquire show ?thesis by (simp add: sync_call_def)
  next
    case OEnqueue
    have "wp (enqueue_unlocked cfg) (\<lambda>st. ?P (Status st)) (\<lambda>e. ?P (failure e)) s"
      unfolding OEnqueue by (rule wp_enqueue [OF s]) (simp_all add: ends del: lit_Cons)
    from wp_outcome [OF this] run OEnqueue show ?thesis by (simp add: sync_call_def)
  next
    case (OWait tm)
    have kept: "?P (Returned True) t" if t: "drift s t" "rest t" "l_token t \<noteq> None" for t
    proof -
      obtain tok where "l_token t = Some tok" "l_token s = Some tok"
        using t(3) driftD(6) [OF t(1)] by auto
      with t(2) show ?thesis by (simp add: OWait lphase_values ends)
    qed
    have "wp (wait_unlocked cfg tm) (\<lambda>b. ?P (Returned b)) (\<lambda>e. ?P (failure e)) s"
    proof (rule wp_wait [OF s])
      fix t
      assume "drift s t" "rest t" "l_token t \<noteq> None"
      then show "?P (Returned True) t" by (rule kept)
    qed (simp_all add: OWait ends lphase_values subclass_simps del: lit_Cons)
    from wp_outcome [OF this] run OWait show ?thesis by (simp add: sync_call_def)
  next
    case ORelease
    have "wp (release_unlocked cfg) (\<lambda>b. ?P (Returned b)) (\<lambda>e. ?P (failure e)) s"
      unfolding ORelease by (rule wp_release [OF s]) (simp_all add: ends lphase_holding)
    from wp_outcome [OF this] run ORelease show ?thesis by (simp add: sync_call_def)
  next
    case OClose
    have "wp (close_unlocked cfg) (\<lambda>_. ?P Finished) (\<lambda>e. ?P (failure e)) s"
      unfolding OClose by (rule wp_close_rest [OF s]) (simp add: ends)
    from wp_outcome [OF this] run OClose show ?thesis by (simp add: sync_call_def)
  next
    case OEnter
    have "wp (enter cfg) (\<lambda>_. ?P Finished) (\<lambda>e. ?P (failure e)) s"
      unfolding OEnter by (rule wp_enter [OF s]) (simp_all add: ends)
    from wp_outcome [OF this] run OEnter show ?thesis by (simp add: sync_call_def)
  next
    case OExit
    have "wp (exit cfg) (\<lambda>_. ?P Finished) (\<lambda>e. ?P (failure e)) s"
      unfolding OExit by (rule wp_exit [OF s]) (simp_all add: ends)
    from wp_outcome [OF this] run OExit show ?thesis by (simp add: sync_call_def)
  qed
qed

text \<open>A step of a renewal thread keeps the phase or loses the lock.\<close>

lemma sync_tick_correct:
  assumes s: "rest s"
  shows "rest (worker_step cfg w s) \<and> may_lose (lphase s) (lphase (worker_step cfg w s))"
proof -
  let ?t = "worker_step cfg w s"
  have run: "runnable s" using s by (simp add: rest_def)
  have t: "rest ?t" by (rule rest_worker [OF s])
  have d: "drift s ?t" by (intro move_drift step_safe) (use run in \<open>simp add: runnable_def\<close>)
  have "may_lose (lphase s) (lphase ?t)"
  proof (cases "l_renew_thread s")
    case None
    then have "?t = s" using run by (simp add: done_step apc_def runnable_def core_def)
    then show ?thesis by simp
  next
    case (Some th)
    then have "l_conn u = None" if "rest u" "l_renew_thread u = Some th" "l_token u = None" for u
      using that by (auto simp: rest_def held_ok_def held_at_def)
    from this [OF s Some] this [OF t] driftD(4-6) [OF d] Some show ?thesis
      by (cases "l_token s"; cases "l_token ?t") (auto simp: lphase_def may_lose_def)
  qed
  with t show ?thesis by simp
qed

interpretation sync: lock_object rest lphase "sync_call cfg" "worker_step cfg" for cfg
  by unfold_locales (fact sync_call_correct, fact sync_tick_correct)

section \<open>The async object\<close>

definition async_call :: "config \<Rightarrow> op \<Rightarrow> alock \<Rightarrow> outcome \<times> alock" where
  "async_call cfg a s =
    (case a of
       OAcquire \<Rightarrow> outcome_of Returned (aacquire_unlocked cfg s)
     | OEnqueue \<Rightarrow> outcome_of Status (aenqueue_unlocked cfg s)
     | OWait t \<Rightarrow> outcome_of Returned (await_unlocked cfg t s)
     | ORelease \<Rightarrow> outcome_of Returned (arelease_unlocked cfg s)
     | OClose \<Rightarrow> outcome_of (\<lambda>_. Finished) (aclose_unlocked cfg s)
     | OEnter \<Rightarrow> outcome_of (\<lambda>_. Finished) (aenter cfg s)
     | OExit \<Rightarrow> outcome_of (\<lambda>_. Finished) (aexit cfg s))"

definition aphase :: "alock \<Rightarrow> phase" where
  "aphase s = phase_of (a_conn s) (a_token s)"

lemma aheld_phase: "aheld t \<Longrightarrow> is_holding (aphase t)"
  by (auto simp: aheld_def aphase_def)

lemma aphase_values:
  "is_holding (aphase s) \<longleftrightarrow> a_token s \<noteq> None" "a_token s = Some tok \<Longrightarrow> aphase s = Holding tok"
  "a_token s = None \<Longrightarrow> a_conn s = None \<Longrightarrow> aphase s = Idle" "a_token s = None \<Longrightarrow> a_conn s \<noteq> None \<Longrightarrow> aphase s = Queued"
  by (auto simp: aphase_def)

lemma async_phases:
  "ablank X t \<Longrightarrow> aphase t = Idle" "aconnected t \<Longrightarrow> aphase t = Queued" "aclosed_blank t \<Longrightarrow> aphase t = Idle"
  by (auto simp: aphase_def ablank_def aconnected_def aclosed_blank_def)

lemma interrupted_phase: "interrupted s t \<Longrightarrow> aphase t = aphase s \<or> aphase t = Idle"
  by (auto simp: interrupted_def aphase_def ablank_def)

lemma cancelled_no_exception: "\<not> isinstance cancelled BuiltinException"
  by (simp add: cancelled_def subclass_simps)

lemma async_call_correct:
  assumes s: "arest s" and run: "async_call cfg a s = (r, t)"
  shows "arest t \<and> spec_call (aphase s) a r (aphase t)"
proof -
  let ?P = "\<lambda>r t. arest t \<and> spec_call (aphase s) a r (aphase t)"
  note ends = arest_intros aheld_phase async_phases spec_ends spec_fails cancelled_no_exception interrupted_phase
  show ?thesis
  proof (cases a)
    case OAcquire
    have "wp (aacquire_unlocked cfg) (\<lambda>b. ?P (Returned b)) (\<lambda>e. ?P (failure e)) s"
      unfolding OAcquire by (rule wp_aacquire [OF s]) (simp_all add: ends)
    from wp_outcome [OF this] run OAcquire show ?thesis by (simp add: async_call_def)
  next
    case OEnqueue
    have "wp (aenqueue_unlocked cfg) (\<lambda>st. ?P (Status st)) (\<lambda>e. ?P (failure e)) s"
      unfolding OEnqueue by (rule wp_aenqueue [OF s]) (simp_all add: ends del: lit_Cons)
    from wp_outcome [OF this] run OEnqueue show ?thesis by (simp add: async_call_def)
  next
    case (OWait tm)
    have "wp (await_unlocked cfg tm) (\<lambda>b. ?P (Returned b)) (\<lambda>e. ?P (failure e)) s"
    proof (rule wp_await [OF s])
      assume "a_token s \<noteq> None"
      then obtain tok where "a_token s = Some tok" by blast
      with s show "?P (Returned True) s" by (simp add: OWait aphase_values ends)
    qed (use s in \<open>simp_all add: OWait aphase_values(2-4) ends subclass_simps del: lit_Cons\<close>)
    from wp_outcome [OF this] run OWait show ?thesis by (simp add: async_call_def)
  next
    case ORelease
    have "wp (arelease_unlocked cfg) (\<lambda>b. ?P (Returned b)) (\<lambda>e. ?P (failure e)) s"
      unfolding ORelease by (rule wp_arelease [OF s]) (simp_all add: ends aphase_values)
    from wp_outcome [OF this] run ORelease show ?thesis by (simp add: async_call_def)
  next
    case OClose
    have "wp (aclose_unlocked cfg) (\<lambda>_. ?P Finished) (\<lambda>e. ?P (failure e)) s"
      unfolding OClose by (rule wp_aclose [OF s]) (simp_all add: ends)
    from wp_outcome [OF this] run OClose show ?thesis by (simp add: async_call_def)
  next
    case OEnter
    have "wp (aenter cfg) (\<lambda>_. ?P Finished) (\<lambda>e. ?P (failure e)) s"
      unfolding OEnter by (rule wp_aenter [OF s]) (simp_all add: ends)
    from wp_outcome [OF this] run OEnter show ?thesis by (simp add: async_call_def)
  next
    case OExit
    have "wp (aexit cfg) (\<lambda>_. ?P Finished) (\<lambda>e. ?P (failure e)) s"
      unfolding OExit by (rule wp_aexit [OF s]) (simp_all add: ends)
    from wp_outcome [OF this] run OExit show ?thesis by (simp add: async_call_def)
  qed
qed

lemma async_tick_correct:
  assumes s: "arest s"
  shows "arest (task_step cfg w s) \<and> may_lose (aphase s) (aphase (task_step cfg w s))"
proof -
  have "arely s (task_step cfg w s)" using task_step_safe [of "{}" s cfg w] s by (simp add: arest_def)
  from arelyD(7) [OF this] have "may_lose (aphase s) (aphase (task_step cfg w s))"
    by (auto simp: may_lose_def aphase_def)
  with arest_step [OF s] show ?thesis by simp
qed

interpretation async_obj: lock_object arest aphase "async_call cfg" "task_step cfg" for cfg
  by unfold_locales (fact async_call_correct, fact async_tick_correct)

section \<open>Every execution is one of the specification\<close>

text \<open>
  C3. The sync lock object refines its specification: whatever methods a user calls on a constructed
  object, in whatever order and with whatever steps of renewal threads before, between and during them,
  the results the user sees and the phases the object goes through are an execution of the
  specification's state machine: a call returns only what its phase allows, and a held lock disappears
  only by a release, a close, a new attempt or a failed renewal.
\<close>

theorem sync_refines_spec:
  assumes "sync_reachable cfg s" "exec (sync_call cfg) (worker_step cfg) cs s = (es, t)"
  shows "spec_exec (lphase s) es (lphase t)"
  using sync.refines [OF reachable_rest [OF assms(1)] assms(2)] by simp

theorem sync_refines_spec_witness:
  "\<exists>t. spec_exec Idle [Call OAcquire (Returned True), Call (OWait VNone) (Returned True)] (lphase t)"
proof -
  have wait: "wait_unlocked sample_config VNone sample_held = (Inr True, sample_held)"
    by (simp add: wait_unlocked_def bindP_def quiet_runs sample_held(3,7))
  have "exec (sync_call sample_config) (worker_step sample_config) [Do OAcquire, Do (OWait VNone)] sample_lock =
    ([Call OAcquire (Returned True), Call (OWait VNone) (Returned True)], sample_held)"
    by (simp add: sync_call_def outcome_of_def sample_held(8) wait)
  from sync_refines_spec [OF sample_reachable this] show ?thesis
    using sample_init(1) by (auto simp: sync_phases)
qed

text \<open>
  C4. The async lock object refines the same specification, with renewal tasks in place of threads and
  under every cancellation of the caller.
\<close>

theorem async_refines_spec:
  assumes "async_reachable cfg s" "exec (async_call cfg) (task_step cfg) cs s = (es, t)"
  shows "spec_exec (aphase s) es (aphase t)"
  using async_obj.refines [OF async_reachable_rest [OF assms(1)] assms(2)] by simp

theorem async_refines_spec_witness:
  "\<exists>t. spec_exec Idle [Call OAcquire (Returned True), Call (OWait VNone) (Returned True)] (aphase t)"
proof -
  have wait: "await_unlocked sample_config VNone asample_held = (Inr True, asample_held)"
    by (simp add: await_unlocked_def bindP_def asample_held(3))
  have "exec (async_call sample_config) (task_step sample_config) [Do OAcquire, Do (OWait VNone)] asample_lock =
    ([Call OAcquire (Returned True), Call (OWait VNone) (Returned True)], asample_held)"
    by (simp add: async_call_def outcome_of_def asample_held(8) wait)
  from async_refines_spec [OF asample_reachable this] show ?thesis
    using asample_init(1) by (auto simp: async_phases)
qed

text \<open>
  C5. No release without a grant: on a new object of either client, in every execution, the releases
  that report success are at most as many as the calls that reported the lock as held (\<open>acquire\<close> or
  \<open>wait\<close> returning \<open>True\<close>, \<open>enqueue\<close> returning \<open>acquired\<close>, entering the context manager).
\<close>

theorem releases_within_grants:
  assumes "set joins \<subseteq> {True}"
    and "exec (sync_call cfg) (worker_step cfg) cs (init_lock ios0 dials0 sched joins) = (es, t)"
    and "exec (async_call cfg) (task_step cfg) cs' (init_alock ios1 dials1 sched' cancels) = (es', t')"
  shows "length (filter is_release es) \<le> length (filter is_grant es) \<and>
    length (filter is_release es') \<le> length (filter is_grant es')"
proof
  show "length (filter is_release es) \<le> length (filter is_grant es)"
    by (rule sync.releases_need_grants [OF _ _ assms(2)])
      (simp_all add: rest_init [OF assms(1)] sync_phases blank_init [OF assms(1)])
  show "length (filter is_release es') \<le> length (filter is_grant es')"
    by (rule async_obj.releases_need_grants [OF _ _ assms(3)])
      (simp_all add: ablank_arest [OF ablank_init] async_phases(1) [OF ablank_init])
qed

theorem releases_within_grants_witness:
  "\<exists>es t. exec (sync_call sample_config) (worker_step sample_config) [Do OAcquire, Do ORelease, Do ORelease] sample_lock = (es, t) \<and>
    length (filter is_release es) \<le> length (filter is_grant es)"
proof -
  obtain es t es' t' where run:
    "exec (sync_call sample_config) (worker_step sample_config) [Do OAcquire, Do ORelease, Do ORelease] sample_lock = (es, t)"
    "exec (async_call sample_config) (task_step sample_config) [] (init_alock [] [] [] []) = (es', t')"
    by (metis surj_pair)
  have "set [] \<subseteq> {True}" by simp
  from releases_within_grants [OF this run(1) [unfolded sample_lock_def] run(2)] run(1) show ?thesis by blast
qed

end
