(* ===== verification/Spec2Isabelle.thy ===== *)
theory Spec2Isabelle
  imports Protocol_Properties Transport_Properties Stats_Properties Sync_Mutex Sync_Wire Sync_Session Async_Wire Client_Agreement Client_Refinement
begin

text \<open>
  Verification of \<open>dflockd-client\<close>, the Python client of the dflockd lock server (\<open>src/src/dflockd_client\<close>).

  The program.  \<open>_protocol.py\<close> is the wire protocol: validators, encoders of the three-line frames, decoders
  of the one-line responses, the status table.  \<open>sharding.py\<close> picks a server for a key.  \<open>_sync.py\<close> and
  \<open>_async.py\<close> are two clients over it, each with a transport (\<open>SyncConn\<close>, \<open>AsyncConn\<close>), low-level command
  functions, and the lock and semaphore objects with a background renewal: a thread in the one, an
  asyncio task in the other.  \<open>errors.py\<close> has the exception classes.

  Theories, in the order of the imports.
  \<^item> \<open>Prelude\<close>: the error monad (\<open>bindE\<close>), state programs that may raise (\<open>prog\<close>, \<open>bindP\<close>, \<open>tryP\<close>) and their
    weakest preconditions (\<open>wp\<close>); \<open>Py_Errors\<close>: exceptions, with subclassing as an order; \<open>Py_Text\<close>: strings of
    code points, UTF-8, \<^verbatim>\<open>split\<close>, \<^verbatim>\<open>rstrip\<close>, \<^verbatim>\<open>int\<close> and \<^verbatim>\<open>str\<close>; \<open>Py_Values\<close>: the values an untyped argument can have;
    \<open>Py_Float\<close>: double arithmetic, rounding to even.
  \<^item> \<open>Validators\<close>, \<open>Encoders\<close>, \<open>Decoders\<close>, \<open>Fencing\<close>: the functions of \<open>_protocol.py\<close> under their names;
    \<open>Sharding\<close>: \<open>sharding.py\<close> with CRC-32; \<open>Client_Config\<close>: the dataclass fields, \<^verbatim>\<open>__post_init__\<close>,
    \<^verbatim>\<open>_pick_server\<close> and \<^verbatim>\<open>renew_interval\<close>.
  \<^item> \<open>Protocol_Properties\<close>: round trips of frames, arguments, grants and fences; every response line
    classified; what the constructor accepts.
  \<^item> \<open>Commands\<close>: the bodies of the command functions over the transport's \<open>command\<close>, and the locale
    \<open>line_transport\<close> with what they need of it; \<open>Sync_Transport\<close> and \<open>Async_Transport\<close> model the two
    transports and interpret the locale.  A network is a script of events (\<open>io_event\<close>, \<open>dial_event\<close>): what the peer
    sends and where an exception hits.  \<open>Transport_Properties\<close>: framing, pairing of responses with
    requests, dead connections, leaks.  \<open>Py_Json\<close>: \<^verbatim>\<open>json.loads\<close>, with a printer it inverts and a bound on
    what it raises; \<open>Stats_Properties\<close>: the \<^verbatim>\<open>stats\<close> call with it.  \<open>Client_Agreement\<close>: the async command functions do what
    the sync ones do.
  \<^item> \<open>Sync_Client\<close>: \<^verbatim>\<open>_SyncBase\<close> and its subclasses; the record \<open>lock\<close> is the object's attributes with its
    renewal threads, \<open>worker_step\<close> one step of a thread between two accesses to shared state; a method
    is a program in which the threads named by the schedule move before every access.
    \<open>Sync_Invariant\<close>: the invariant, stable under every thread step; \<open>Sync_Lifecycle\<close>: one
    weakest-precondition lemma per method; \<open>Sync_Properties\<close>: what holds in every reachable state and
    what each method leaves behind.
  \<^item> \<open>Async_Client\<close>, \<open>Async_Invariant\<close>, \<open>Async_Lifecycle\<close>, \<open>Async_Properties\<close>: the same for \<^verbatim>\<open>_AsyncBase\<close>, where tasks
    move only at awaits, and the caller's own task may be cancelled there.
  \<^item> \<open>Client_Spec\<close>: the promise of a lock object as a state machine over \<open>Idle\<close>, \<open>Queued\<close> and \<open>Holding\<close>, and the
    locale \<open>lock_object\<close> of its implementations; \<open>Client_Refinement\<close> interprets it for both clients.
  \<^item> \<open>Wire_Rules\<close>: what an object may send, rules for programs that keep an assertion (\<open>keeps\<close>), and the
    locale \<open>background\<close> of the activity between a caller's steps; \<open>Sync_Wire\<close> and \<open>Async_Wire\<close> interpret it for
    threads and tasks and show that everything ever sent conforms.  \<open>Sync_Session\<close> composes \<^verbatim>\<open>enqueue\<close>, \<^verbatim>\<open>wait\<close>
    and \<^verbatim>\<open>release\<close> into a session and follows it frame by frame.  \<open>Sync_Mutex\<close> interprets the locale once more
    and shows that \<open>_io_lock\<close> excludes, also when joins time out.

  Bounds.  The items of a JSON array are read with as many turns as the text is long; \<open>json_items_bound\<close> shows
  that more give the same result.  Nothing is assumed to terminate by fuel alone.  Blocking on \<open>_io_lock\<close> gets one turn per
  entry of the schedule and eight more (two in the async client), which is proved to be enough from every
  reachable state, as the owner leaves the lock within its next steps.  \<^verbatim>\<open>join(timeout=5)\<close> lets the thread take
  sixteen steps; a stopped thread ends within seven.

  Assumptions.  In the states \<open>sync_reachable\<close> a join with a renewal thread is not cut off by its timeout
  (\<open>l_joins\<close> holds only \<open>True\<close>); the properties of \<open>Sync_Mutex\<close> and \<open>Sync_Wire\<close> start from \<open>init_lock\<close> with any
  \<open>l_joins\<close>.  A send of the sync transport may raise after any number of bytes; in the async one a frame counts as
  sent, whole, when it was handed to the stream.  A failing thread clears token and lease in one step.  The JSON reader is the argument \<open>loads\<close> of the decoder,
  instantiated with \<open>json_loads d\<close>, where \<open>d\<close> is the nesting the interpreter's recursion limit allows.  The
  configured strategy is an arbitrary function.  A renewal request and its response are one step.

  Not modelled.  The time that passes: sleeps and deadlines are points where something may happen, and the
  interval a thread asks for is recorded.  The failure to create a thread, and concurrent calls of the
  public methods, which \<^verbatim>\<open>_state_lock\<close> puts in sequence.  The moment \<^verbatim>\<open>__del__\<close> runs; what it does is
  modelled.  The text of log records and of exception messages beyond their parts.  \<open>__init__.py\<close>
  (re-exports), the examples and the tests.
\<close>

end
